(* ===== verification/Prelude.thy ===== *)
theory Prelude
  imports Main
begin

text \<open>
  Shared vocabulary of the development: how a call of the C code can end, the two shapes of
  retry loop the sources use around a libzookeeper call, and their laws.

  A C function is modelled as a function to \<open>'a outcome\<close> (it returns, runs into undefined
  behaviour or a lock it can never get, or is left by the engine's \<open>E_ERROR\<close> bailout), and
  to \<open>'a run\<close> = \<open>'a outcome option\<close> where it may also loop for ever; not returning is
  \<open>None\<close>.
\<close>

section \<open>Outcomes of a call\<close>

datatype fault =
    NullDeref        \<comment> \<open>a null pointer is read through\<close>
  | UseAfterFree     \<comment> \<open>freed memory is read\<close>
  | DoubleFree       \<comment> \<open>memory is released twice\<close>
  | BadFree          \<comment> \<open>memory is released with another allocator's free\<close>
  | OutOfBounds      \<comment> \<open>an array is accessed outside its bounds\<close>
  | UninitRead       \<comment> \<open>an uninitialised object is read\<close>
  | SignedOverflow   \<comment> \<open>a signed operation leaves its type\<close>
  | Deadlock         \<comment> \<open>a thread waits for a mutex that it holds itself\<close>
  | BadMutex         \<comment> \<open>a pthread mutex is used before its init or after its destroy\<close>

datatype 'a outcome = Ret 'a | Fault fault | Bailout string

type_synonym 'a run = "'a outcome option"

definition obind :: "'a outcome \<Rightarrow> ('a \<Rightarrow> 'b outcome) \<Rightarrow> 'b outcome" where
  "obind x f = (case x of Ret a \<Rightarrow> f a | Fault e \<Rightarrow> Fault e | Bailout s \<Rightarrow> Bailout s)"

definition xbind :: "'a run \<Rightarrow> ('a \<Rightarrow> 'b run) \<Rightarrow> 'b run" where
  "xbind x f = (case x of None \<Rightarrow> None
     | Some (Ret a) \<Rightarrow> f a | Some (Fault e) \<Rightarrow> Some (Fault e) | Some (Bailout s) \<Rightarrow> Some (Bailout s))"

named_theorems outcome_simps \<open>equations of the outcome binds\<close>

lemma obind_simps [simp, outcome_simps]:
  "obind (Ret a) f = f a"
  "obind (Fault e) f = Fault e"
  "obind (Bailout s) f = Bailout s"
  by (simp_all add: obind_def)

lemma xbind_simps [simp, outcome_simps]:
  "xbind None f = None"
  "xbind (Some (Ret a)) f = f a"
  "xbind (Some (Fault e)) f = Some (Fault e)"
  "xbind (Some (Bailout s)) f = Some (Bailout s)"
  by (simp_all add: xbind_def)

lemma obind_eq_Ret: "obind x f = Ret b \<longleftrightarrow> (\<exists>a. x = Ret a \<and> f a = Ret b)"
  by (cases x) auto

lemma xbind_eq_Ret: "xbind x f = Some (Ret b) \<longleftrightarrow> (\<exists>a. x = Some (Ret a) \<and> f a = Some (Ret b))"
  by (auto simp: xbind_def split: option.splits outcome.splits)

lemma obind_assoc: "obind (obind x f) g = obind x (\<lambda>a. obind (f a) g)"
  by (cases x) auto

lemma xbind_assoc: "xbind (xbind x f) g = xbind x (\<lambda>a. xbind (f a) g)"
  by (auto simp: xbind_def split: option.splits outcome.splits)

section \<open>Calls that never fault\<close>

text \<open>The call returns or goes on for ever: it never faults and never bails out.\<close>

definition no_fault :: "'a run \<Rightarrow> bool" where
  "no_fault x \<longleftrightarrow> x = None \<or> (\<exists>a. x = Some (Ret a))"

lemma no_fault_Ret [intro!, simp]: "no_fault (Some (Ret a))"
  by (simp add: no_fault_def)

lemma no_fault_xbind: "no_fault x \<Longrightarrow> (\<And>a. no_fault (f a)) \<Longrightarrow> no_fault (xbind x f)"
  unfolding no_fault_def by (metis xbind_simps(1,2))

lemma no_fault_if: "no_fault x \<Longrightarrow> no_fault y \<Longrightarrow> no_fault (if b then x else y)"
  by simp

lemmas no_fault_intros = no_fault_xbind no_fault_if no_fault_Ret

end
