(* ===== verification/C_Library.thy ===== *)
theory C_Library
  imports Prelude
    "HOL-Library.Word" "HOL-Library.Char_ord" "HOL-Library.List_Lexorder" "HOL-Library.Multiset"
begin

text \<open>
  What the sources use of the C language and its library: pointers to heap strings, the string
  functions \<open>strcmp\<close>, \<open>strncmp\<close>, \<open>strrchr\<close>, the \<open>printf\<close> conversions \<open>%s\<close>,
  \<open>%016lx\<close> and the ten-digit decimal counter, the truncation of \<open>snprintf\<close>, \<open>qsort\<close>
  and the integer conversions. A C string is the list of its bytes before the terminating NUL.
\<close>

section \<open>Pointers to heap strings\<close>

datatype cptr = Null | Str string | Freed

definition deref :: "cptr \<Rightarrow> string outcome" where
  "deref p = (case p of Null \<Rightarrow> Fault NullDeref | Str s \<Rightarrow> Ret s | Freed \<Rightarrow> Fault UseAfterFree)"

definition free_ptr :: "cptr \<Rightarrow> cptr outcome" where
  "free_ptr p = (case p of Null \<Rightarrow> Ret Null | Str s \<Rightarrow> Ret Freed | Freed \<Rightarrow> Fault DoubleFree)"

lemma deref_simps [simp]:
  "deref Null = Fault NullDeref" "deref (Str s) = Ret s" "deref Freed = Fault UseAfterFree"
  by (simp_all add: deref_def)

lemma free_ptr_simps [simp]:
  "free_ptr Null = Ret Null" "free_ptr (Str s) = Ret Freed" "free_ptr Freed = Fault DoubleFree"
  by (simp_all add: free_ptr_def)

definition ptr_of :: "string option \<Rightarrow> cptr" where
  "ptr_of x = (case x of None \<Rightarrow> Null | Some s \<Rightarrow> Str s)"

lemma ptr_of_simps [simp]: "ptr_of None = Null" "ptr_of (Some s) = Str s"
  by (simp_all add: ptr_of_def)

lemma ptr_of_eq_Null [simp]: "ptr_of x = Null \<longleftrightarrow> x = None"
  by (cases x) auto

text \<open>\<open>blocks_of p\<close>: the block that a pointer holds, counted in a ledger of live blocks.\<close>

definition blocks_of :: "cptr \<Rightarrow> int" where
  "blocks_of p = (case p of Str s \<Rightarrow> 1 | _ \<Rightarrow> 0)"

lemma blocks_of_simps [simp]: "blocks_of Null = 0" "blocks_of (Str s) = 1" "blocks_of Freed = 0"
  by (simp_all add: blocks_of_def)

section \<open>String comparison\<close>

text \<open>The C standard fixes only the sign of the result; bytes compare as unsigned values.\<close>

fun strcmp :: "string \<Rightarrow> string \<Rightarrow> int" where
  "strcmp [] [] = 0"
| "strcmp [] (y # ys) = -1"
| "strcmp (x # xs) [] = 1"
| "strcmp (x # xs) (y # ys) =
     (if (of_char x :: nat) < of_char y then -1
      else if (of_char y :: nat) < of_char x then 1 else strcmp xs ys)"

definition strncmp :: "string \<Rightarrow> string \<Rightarrow> nat \<Rightarrow> int" where
  "strncmp a b n = strcmp (take n a) (take n b)"

lemma strcmp_less: "strcmp a b < 0 \<longleftrightarrow> a < b"
  by (induction a b rule: strcmp.induct) (auto simp: less_char_def)

lemma strcmp_sym: "strcmp a b = - strcmp b a"
  by (induction a b rule: strcmp.induct) auto

lemma strcmp_eq [simp]: "strcmp a b = 0 \<longleftrightarrow> a = b"
  by (induction a b rule: strcmp.induct) (auto dest: less_not_sym)

lemma strcmp_le: "strcmp a b \<le> 0 \<longleftrightarrow> a \<le> b"
proof -
  have "strcmp a b \<le> 0 \<longleftrightarrow> \<not> strcmp b a < 0" using strcmp_sym [of a b] by auto
  then show ?thesis by (simp add: strcmp_less not_less)
qed

lemma strncmp_prefix: "strncmp p s (length p) = 0 \<longleftrightarrow> take (length p) s = p"
  by (auto simp: strncmp_def)

section \<open>strrchr\<close>

text \<open>
  \<open>strrchr s c\<close> points at the last \<open>c\<close> of \<open>s\<close>: \<open>Some\<close> the rest of the string from
  there on, \<open>None\<close> for the null pointer.
\<close>

fun strrchr :: "string \<Rightarrow> char \<Rightarrow> string option" where
  "strrchr [] c = None"
| "strrchr (x # xs) c =
     (case strrchr xs c of Some r \<Rightarrow> Some r | None \<Rightarrow> if x = c then Some (x # xs) else None)"

lemma strrchr_None [simp]: "strrchr s c = None \<longleftrightarrow> c \<notin> set s"
  by (induction s) (auto split: option.splits)

lemma strrchr_append: "c \<notin> set t \<Longrightarrow> strrchr (s @ c # t) c = Some (c # t)"
proof (induction s)
  case Nil
  then have "strrchr t c = None" by simp
  then show ?case by (simp del: strrchr_None)
next
  case (Cons x s)
  then show ?case by simp
qed

lemma strrchr_SomeD: "strrchr s c = Some r \<Longrightarrow> \<exists>p t. s = p @ c # t \<and> r = c # t \<and> c \<notin> set t"
proof (induction s)
  case Nil
  then show ?case by simp
next
  case (Cons x s)
  show ?case
  proof (cases "strrchr s c")
    case None
    with Cons.prems have "x = c \<and> r = x # s \<and> c \<notin> set s" by (auto split: if_splits)
    then show ?thesis by (intro exI [of _ "[]"] exI [of _ s]) auto
  next
    case (Some r')
    with Cons obtain p t where "s = p @ c # t" "r = c # t" "c \<notin> set t" by auto
    then show ?thesis by (intro exI [of _ "x # p"] exI [of _ t]) auto
  qed
qed

section \<open>Formatted output\<close>

text \<open>\<open>snprintf\<close> stores at most \<open>n - 1\<close> bytes and the terminating NUL.\<close>

definition snprintf :: "nat \<Rightarrow> string \<Rightarrow> string" where
  "snprintf n s = take (n - 1) s"

lemma snprintf_fits: "length s < n \<Longrightarrow> snprintf n s = s"
  by (simp add: snprintf_def)

lemma length_snprintf: "0 < n \<Longrightarrow> length (snprintf n s) < n"
  by (simp add: snprintf_def)

text \<open>Digits of a number, most significant first, and the zero padding of \<open>%0<w>\<close>.\<close>

definition digit_char :: "nat \<Rightarrow> char" where
  "digit_char d = (if d < 10 then char_of (48 + d) else char_of (87 + d))"

fun to_base :: "nat \<Rightarrow> nat \<Rightarrow> string" where
  "to_base b n = (if n < b \<or> b < 2 then [digit_char n] else to_base b (n div b) @ [digit_char (n mod b)])"

declare to_base.simps [simp del]

definition pad0 :: "nat \<Rightarrow> string \<Rightarrow> string" where
  "pad0 w s = replicate (w - length s) (CHR ''0'') @ s"

definition printf_016lx :: "64 word \<Rightarrow> string" where
  "printf_016lx x = pad0 16 (to_base 16 (unat x))"

definition printf_010d :: "nat \<Rightarrow> string" where
  "printf_010d n = pad0 10 (to_base 10 n)"

definition printf_ld :: "int \<Rightarrow> string" where
  "printf_ld n = (if n < 0 then ''-'' @ to_base 10 (nat (- n)) else to_base 10 (nat n))"

text \<open>The same digits by a fixed number of divisions: the reference for the padded output.\<close>

fun fixed_digits :: "nat \<Rightarrow> nat \<Rightarrow> nat \<Rightarrow> nat list" where
  "fixed_digits b 0 n = []"
| "fixed_digits b (Suc w) n = fixed_digits b w (n div b) @ [n mod b]"

lemma length_fixed_digits [simp]: "length (fixed_digits b w n) = w"
  by (induction w arbitrary: n) auto

lemma fixed_digits_small: "0 < b \<Longrightarrow> d \<in> set (fixed_digits b w n) \<Longrightarrow> d < b"
  by (induction w arbitrary: n) auto

lemma fixed_digits_0: "fixed_digits b w 0 = replicate w 0"
  by (induction w) (simp_all add: replicate_append_same)

lemma digit_char_0: "digit_char 0 = CHR ''0''"
  by code_simp

lemma pad0_to_base:
  "2 \<le> b \<Longrightarrow> n < b ^ w \<Longrightarrow> 0 < w \<Longrightarrow> pad0 w (to_base b n) = map digit_char (fixed_digits b w n)
     \<and> length (to_base b n) \<le> w"
proof (induction b n arbitrary: w rule: to_base.induct)
  case (1 b n)
  obtain v where w: "w = Suc v" using "1.prems" by (cases w) auto
  show ?case
  proof (cases "n < b")
    case True
    then show ?thesis
      by (simp add: w to_base.simps [of b n] pad0_def fixed_digits_0 digit_char_0 replicate_append_same)
  next
    case False
    have "n div b < b ^ v" using "1.prems" w by (simp add: less_mult_imp_div_less mult.commute)
    moreover have "0 < v" using False "1.prems" w by (cases v) auto
    ultimately have IH: "pad0 v (to_base b (n div b)) = map digit_char (fixed_digits b v (n div b))"
        "length (to_base b (n div b)) \<le> v"
      using "1.IH" [of v] False "1.prems" by auto
    then show ?thesis
      using False "1.prems" by (simp add: w to_base.simps [of b n] pad0_def)
  qed
qed

lemmas pad0_fixed = pad0_to_base [THEN conjunct1]

lemma printf_016lx_fixed: "printf_016lx x = map digit_char (fixed_digits 16 16 (unat x))"
proof -
  have "unat x < 2 ^ 64" using unsigned_less [of x, where ?'a = nat] by simp
  then show ?thesis unfolding printf_016lx_def by (intro pad0_fixed) simp_all
qed

lemma length_printf_016lx [simp]: "length (printf_016lx x) = 16"
  by (simp add: printf_016lx_fixed)

lemma of_char_digit: "d < 16 \<Longrightarrow> (of_char (digit_char d) :: nat) = (if d < 10 then 48 + d else 87 + d)"
  by (simp add: digit_char_def)

lemma digit_char_inj: "d < 16 \<Longrightarrow> e < 16 \<Longrightarrow> digit_char d = digit_char e \<longleftrightarrow> d = e"
proof -
  assume "d < 16" "e < 16"
  then have "(of_char (digit_char d) :: nat) = of_char (digit_char e) \<longleftrightarrow> d = e"
    by (simp add: of_char_digit)
  then show ?thesis by (simp only: of_char_eq_iff)
qed

lemma digit_char_less: "d < 16 \<Longrightarrow> e < 16 \<Longrightarrow> digit_char d < digit_char e \<longleftrightarrow> d < e"
  by (auto simp: less_char_def of_char_digit)

lemma digit_char_no_sep: "d < 16 \<Longrightarrow> digit_char d \<noteq> CHR ''-'' \<and> digit_char d \<noteq> CHR ''/''"
proof -
  assume "d < 16"
  then have "(of_char (digit_char d) :: nat) \<noteq> of_char (CHR ''-'') \<and>
      (of_char (digit_char d) :: nat) \<noteq> of_char (CHR ''/'')"
    by (simp add: of_char_digit)
  then show ?thesis by metis
qed

text \<open>Digits of equal width compare as the numbers do, and determine them.\<close>

lemma fixed_digits_less:
  "0 < b \<Longrightarrow> m < b ^ w \<Longrightarrow> n < b ^ w \<Longrightarrow> fixed_digits b w m < fixed_digits b w n \<longleftrightarrow> m < n"
proof (induction w arbitrary: m n)
  case 0
  then show ?case by simp
next
  case (Suc w)
  have d: "m div b < b ^ w" "n div b < b ^ w"
    using Suc.prems by (simp_all add: less_mult_imp_div_less mult.commute)
  have app: "xs @ [x] < ys @ [y] \<longleftrightarrow> xs < ys \<or> xs = ys \<and> x < y"
    if "length xs = length ys" for xs ys :: "nat list" and x y
    using that by (induction xs ys rule: list_induct2) auto
  have "fixed_digits b w (m div b) = fixed_digits b w (n div b) \<longleftrightarrow> m div b = n div b"
    using Suc.IH [OF Suc.prems(1) d] Suc.IH [OF Suc.prems(1) d(2) d(1)]
    by (metis less_irrefl nat_neq_iff)
  then have "fixed_digits b (Suc w) m < fixed_digits b (Suc w) n \<longleftrightarrow>
      m div b < n div b \<or> m div b = n div b \<and> m mod b < n mod b"
    using Suc.IH [OF Suc.prems(1) d] by (simp add: app)
  also have "\<dots> \<longleftrightarrow> m < n"
    using Suc.prems(1) by (metis div_le_mono div_mult_mod_eq linorder_neqE_nat nat_add_left_cancel_less not_le order_less_imp_le)
  finally show ?case .
qed

lemma map_digit_char_less:
  "set xs \<subseteq> {..<16} \<Longrightarrow> set ys \<subseteq> {..<16} \<Longrightarrow> map digit_char xs < map digit_char ys \<longleftrightarrow> xs < ys"
proof (induction xs arbitrary: ys)
  case Nil
  then show ?case by (cases ys) auto
next
  case (Cons x xs)
  then show ?case by (cases ys) (auto simp: digit_char_less digit_char_inj)
qed

lemma printf_010d_fixed: "n < 10 ^ 10 \<Longrightarrow> printf_010d n = map digit_char (fixed_digits 10 10 n)"
  unfolding printf_010d_def by (intro pad0_fixed) simp_all

lemma length_printf_010d: "n < 10 ^ 10 \<Longrightarrow> length (printf_010d n) = 10"
  by (simp add: printf_010d_fixed)

lemma fixed_digits_subset: "0 < b \<Longrightarrow> b \<le> 16 \<Longrightarrow> set (fixed_digits b w n) \<subseteq> {..<16}"
  using fixed_digits_small [of b _ w n] by fastforce

lemma printf_010d_less:
  "m < 10 ^ 10 \<Longrightarrow> n < 10 ^ 10 \<Longrightarrow> printf_010d m < printf_010d n \<longleftrightarrow> m < n"
  by (simp add: printf_010d_fixed map_digit_char_less fixed_digits_subset fixed_digits_less)

lemma printf_010d_le:
  "m < 10 ^ 10 \<Longrightarrow> n < 10 ^ 10 \<Longrightarrow> printf_010d m \<le> printf_010d n \<longleftrightarrow> m \<le> n"
  using printf_010d_less [of n m] by (metis linorder_not_less)

lemma no_sep_digits:
  "set xs \<subseteq> {..<16} \<Longrightarrow> CHR ''-'' \<notin> set (map digit_char xs) \<and> CHR ''/'' \<notin> set (map digit_char xs)"
  using digit_char_no_sep by fastforce

lemma printf_010d_no_sep:
  "n < 10 ^ 10 \<Longrightarrow> CHR ''-'' \<notin> set (printf_010d n) \<and> CHR ''/'' \<notin> set (printf_010d n)"
  using no_sep_digits [OF fixed_digits_subset [of 10 10 n]] by (simp add: printf_010d_fixed)

lemma printf_016lx_no_sep: "CHR ''-'' \<notin> set (printf_016lx x) \<and> CHR ''/'' \<notin> set (printf_016lx x)"
  unfolding printf_016lx_fixed by (intro no_sep_digits fixed_digits_subset) simp_all

lemma printf_016lx_inj [simp]: "printf_016lx x = printf_016lx y \<longleftrightarrow> x = y"
proof
  assume eq: "printf_016lx x = printf_016lx y"
  have lt: "unat z < 16 ^ 16" for z :: "64 word" using unsigned_less [of z, where ?'a = nat] by simp
  have less: "printf_016lx a < printf_016lx b \<longleftrightarrow> unat a < unat b" for a b
    using lt [of a] lt [of b]
    by (simp add: printf_016lx_fixed map_digit_char_less fixed_digits_subset fixed_digits_less)
  from eq less [of x y] less [of y x] have "unat x = unat y" by simp
  then show "x = y" by (rule unsigned_word_eqI)
qed simp

section \<open>qsort\<close>

text \<open>
  \<open>qsort\<close> leaves a permutation of the array that is ascending for the comparison function;
  the order of elements that compare equal is not specified. The model sorts by insertion; the
  uniqueness lemma below says that the choice does not matter when no two elements compare
  equal.
\<close>

fun qsort_insert :: "('a \<Rightarrow> 'a \<Rightarrow> int) \<Rightarrow> 'a \<Rightarrow> 'a list \<Rightarrow> 'a list" where
  "qsort_insert cmp x [] = [x]"
| "qsort_insert cmp x (y # ys) = (if cmp x y \<le> 0 then x # y # ys else y # qsort_insert cmp x ys)"

fun qsort :: "('a \<Rightarrow> 'a \<Rightarrow> int) \<Rightarrow> 'a list \<Rightarrow> 'a list" where
  "qsort cmp [] = []"
| "qsort cmp (x # xs) = qsort_insert cmp x (qsort cmp xs)"

lemma mset_qsort_insert: "mset (qsort_insert cmp x xs) = add_mset x (mset xs)"
  by (induction xs) auto

lemma mset_qsort [simp]: "mset (qsort cmp xs) = mset xs"
  by (induction xs) (auto simp: mset_qsort_insert)

lemma set_qsort [simp]: "set (qsort cmp xs) = set xs"
  using mset_qsort [of cmp xs] by (metis set_mset_mset)

lemma length_qsort [simp]: "length (qsort cmp xs) = length xs"
  using mset_qsort [of cmp xs] by (metis size_mset)

lemma distinct_qsort [simp]: "distinct (qsort cmp xs) = distinct xs"
  using mset_qsort [of cmp xs] by (metis mset_eq_imp_distinct_iff)

text \<open>The contract between \<open>qsort\<close> and its comparison function.\<close>

locale c_comparator =
  fixes cmp :: "'a \<Rightarrow> 'a \<Rightarrow> int" and valid :: "'a set"
  assumes cmp_sym: "a \<in> valid \<Longrightarrow> b \<in> valid \<Longrightarrow> cmp a b < 0 \<longleftrightarrow> cmp b a > 0"
    and cmp_trans: "a \<in> valid \<Longrightarrow> b \<in> valid \<Longrightarrow> c \<in> valid \<Longrightarrow>
      cmp a b \<le> 0 \<Longrightarrow> cmp b c \<le> 0 \<Longrightarrow> cmp a c \<le> 0"
begin

lemma cmp_total: "a \<in> valid \<Longrightarrow> b \<in> valid \<Longrightarrow> \<not> cmp a b \<le> 0 \<Longrightarrow> cmp b a \<le> 0"
  using cmp_sym [of b a] by auto

lemma sorted_insert:
  "x \<in> valid \<Longrightarrow> set xs \<subseteq> valid \<Longrightarrow> sorted_wrt (\<lambda>a b. cmp a b \<le> 0) xs \<Longrightarrow>
   sorted_wrt (\<lambda>a b. cmp a b \<le> 0) (qsort_insert cmp x xs)"
proof (induction xs)
  case Nil
  then show ?case by simp
next
  case (Cons y ys)
  have set_ins: "set (qsort_insert cmp x ys) = insert x (set ys)"
    using mset_qsort_insert [of cmp x ys] by (metis set_mset_add_mset_insert set_mset_mset)
  show ?case
  proof (cases "cmp x y \<le> 0")
    case True
    with Cons.prems show ?thesis by (auto intro: cmp_trans [of x y])
  next
    case False
    with Cons show ?thesis by (auto simp: set_ins cmp_total)
  qed
qed

lemma sorted_qsort: "set xs \<subseteq> valid \<Longrightarrow> sorted_wrt (\<lambda>a b. cmp a b \<le> 0) (qsort cmp xs)"
  by (induction xs) (auto intro!: sorted_insert)

lemma hd_qsort_least:
  assumes "set xs \<subseteq> valid" and "qsort cmp xs = y # ys" and "x \<in> set xs"
  shows "cmp y x \<le> 0"
proof -
  have "x \<in> insert y (set ys)" using assms(2,3) set_qsort [of cmp xs] by auto
  moreover have "y \<in> valid" using assms(1,2) set_qsort [of cmp xs] by auto
  then have "cmp y y \<le> 0" using cmp_sym [of y y] by auto
  ultimately show ?thesis using sorted_qsort [OF assms(1)] assms(2) by auto
qed

lemma qsort_unique:
  assumes "set xs \<subseteq> valid" and "mset ys = mset xs"
    and "sorted_wrt (\<lambda>a b. cmp a b \<le> 0) ys"
    and inj: "\<And>a b. a \<in> set xs \<Longrightarrow> b \<in> set xs \<Longrightarrow> cmp a b = 0 \<Longrightarrow> a = b"
  shows "ys = qsort cmp xs"
proof -
  have anti: "a = b" if "a \<in> set xs" "b \<in> set xs" "cmp a b \<le> 0" "cmp b a \<le> 0" for a b
    using that inj [of a b] cmp_sym [of a b] cmp_sym [of b a] assms(1) by force
  have "ys = zs" if "mset ys = mset zs" "sorted_wrt (\<lambda>a b. cmp a b \<le> 0) ys"
      "sorted_wrt (\<lambda>a b. cmp a b \<le> 0) zs" "set ys \<subseteq> set xs" for ys zs
    using that
  proof (induction ys arbitrary: zs)
    case Nil
    then show ?case by simp
  next
    case (Cons y ys)
    then obtain z zs' where zs: "zs = z # zs'" by (cases zs) auto
    have eqset: "set (y # ys) = set zs" using Cons.prems(1) by (metis set_mset_mset)
    have "y = z"
    proof (rule ccontr)
      assume "y \<noteq> z"
      then have "y \<in> set zs'" "z \<in> set ys" using eqset zs by auto
      then show False using Cons.prems zs anti [of y z] \<open>y \<noteq> z\<close> by auto
    qed
    then show ?case using Cons zs by auto
  qed
  then show ?thesis using assms sorted_qsort [OF assms(1)]
    by (metis mset_qsort order_refl set_mset_mset)
qed

end

interpretation by_strcmp: c_comparator strcmp UNIV
proof unfold_locales
  show "strcmp a b < 0 \<longleftrightarrow> strcmp b a > 0" for a b using strcmp_sym [of a b] by auto
  show "strcmp a b \<le> 0 \<Longrightarrow> strcmp b c \<le> 0 \<Longrightarrow> strcmp a c \<le> 0" for a b c
    by (simp add: strcmp_le)
qed

section \<open>Integer conversions\<close>

text \<open>A conversion to a signed \<open>w\<close>-bit type keeps the low \<open>w\<close> bits as two's complement.\<close>

definition to_int32 :: "int \<Rightarrow> int" where
  "to_int32 x = (x + 2 ^ 31) mod 2 ^ 32 - 2 ^ 31"

definition long_max :: int where
  "long_max = 2 ^ 63 - 1"

text \<open>Signed arithmetic of 64 bits: the result, where it is one of the type.\<close>

definition checked_long :: "int \<Rightarrow> int outcome" where
  "checked_long x = (if - long_max - 1 \<le> x \<and> x \<le> long_max then Ret x else Fault SignedOverflow)"

lemma to_int32_id: "- (2 ^ 31) \<le> x \<Longrightarrow> x < 2 ^ 31 \<Longrightarrow> to_int32 x = x"
  by (simp add: to_int32_def)

lemma to_int32_range: "- (2 ^ 31) \<le> to_int32 x \<and> to_int32 x < 2 ^ 31"
  by (simp add: to_int32_def)

text \<open>C divides towards zero.\<close>

definition c_div :: "int \<Rightarrow> int \<Rightarrow> int" where
  "c_div a b = sgn a * sgn b * (\<bar>a\<bar> div \<bar>b\<bar>)"

lemma c_div_nonneg: "0 \<le> a \<Longrightarrow> 0 < b \<Longrightarrow> c_div a b = a div b"
  by (cases "a = 0") (auto simp: c_div_def)

end
