(* ===== verification/Zk_Client.thy ===== *)
theory Zk_Client
  imports C_Library
begin

text \<open>
  The interface to libzookeeper. The library is not part of the repository: its calls are the
  fields of the record \<open>zk_api\<close>, an argument of every definition that uses them, over an
  arbitrary state \<open>'w\<close> of the client library and the ensemble behind it. Status codes, flags
  and permissions are the ones \<open>zookeeper-api.php\<close> lists. The two loops that the sources
  write around a call that may answer \<open>ZCONNECTIONLOSS\<close> are defined here with their laws.
\<close>

section \<open>Status codes and flags\<close>

abbreviation ZOK :: int where "ZOK \<equiv> 0"
abbreviation ZSYSTEMERROR :: int where "ZSYSTEMERROR \<equiv> -1"
abbreviation ZCONNECTIONLOSS :: int where "ZCONNECTIONLOSS \<equiv> -4"
abbreviation ZMARSHALLINGERROR :: int where "ZMARSHALLINGERROR \<equiv> -5"
abbreviation ZNONODE :: int where "ZNONODE \<equiv> -101"
abbreviation ZNODEEXISTS :: int where "ZNODEEXISTS \<equiv> -110"

abbreviation ZOO_EPHEMERAL :: int where "ZOO_EPHEMERAL \<equiv> 1"
abbreviation ZOO_SEQUENCE :: int where "ZOO_SEQUENCE \<equiv> 2"

section \<open>Data of the library\<close>

type_synonym zhandle = nat

record acl_entry =
  acl_perms :: int
  acl_scheme :: string
  acl_ident :: string

type_synonym acl_vector = "acl_entry list"

record Stat =
  stat_czxid :: int
  stat_mzxid :: int
  stat_ctime :: int
  stat_mtime :: int
  stat_version :: int
  stat_cversion :: int
  stat_aversion :: int
  stat_ephemeralOwner :: int
  stat_dataLength :: int
  stat_numChildren :: int
  stat_pzxid :: int

text \<open>
  A watcher is a function pointer with its context: the lock's own watcher on the mutex of the
  handle, or the marshaller of the PHP class on the callback data at an address.
\<close>

datatype watcher = LockWatcher | PhpWatcher nat

text \<open>
  One field per library call. A call gets the handle and its arguments and returns its status
  code, its output parameters and the new state. Output parameters that the call leaves
  untouched on an error are arbitrary in the result; the sources read them after \<open>ZOK\<close> only.
  \<open>run_completion\<close> is the user's \<open>zkr_lock_completion\<close> callback, given by its address.
\<close>

record 'w zk_api =
  zookeeper_init :: "string \<Rightarrow> watcher option \<Rightarrow> int \<Rightarrow> 'w \<Rightarrow> zhandle option \<times> 'w"
  zookeeper_close :: "zhandle \<Rightarrow> 'w \<Rightarrow> 'w"
  zoo_client_id :: "zhandle \<Rightarrow> 'w \<Rightarrow> 64 word \<times> string"
  zoo_exists :: "zhandle \<Rightarrow> string \<Rightarrow> bool \<Rightarrow> 'w \<Rightarrow> (int \<times> Stat) \<times> 'w"
  zoo_wexists :: "zhandle \<Rightarrow> string \<Rightarrow> watcher option \<Rightarrow> 'w \<Rightarrow> (int \<times> Stat) \<times> 'w"
  zoo_get_children :: "zhandle \<Rightarrow> string \<Rightarrow> bool \<Rightarrow> 'w \<Rightarrow> (int \<times> string list) \<times> 'w"
  zoo_wget_children :: "zhandle \<Rightarrow> string \<Rightarrow> watcher option \<Rightarrow> 'w \<Rightarrow> (int \<times> string list) \<times> 'w"
  zoo_create :: "zhandle \<Rightarrow> string \<Rightarrow> string option \<Rightarrow> int \<Rightarrow> acl_vector option \<Rightarrow> int \<Rightarrow> nat \<Rightarrow>
    'w \<Rightarrow> (int \<times> string) \<times> 'w"
  zoo_delete :: "zhandle \<Rightarrow> string \<Rightarrow> int \<Rightarrow> 'w \<Rightarrow> int \<times> 'w"
  zoo_wget :: "zhandle \<Rightarrow> string \<Rightarrow> watcher option \<Rightarrow> int \<Rightarrow> 'w \<Rightarrow>
    (int \<times> string \<times> int \<times> Stat) \<times> 'w"
  zoo_get :: "zhandle \<Rightarrow> string \<Rightarrow> bool \<Rightarrow> int \<Rightarrow> 'w \<Rightarrow> (int \<times> string \<times> int \<times> Stat) \<times> 'w"
  zoo_set2 :: "zhandle \<Rightarrow> string \<Rightarrow> string option \<Rightarrow> int \<Rightarrow> int \<Rightarrow> 'w \<Rightarrow> (int \<times> Stat) \<times> 'w"
  zoo_set :: "zhandle \<Rightarrow> string \<Rightarrow> string option \<Rightarrow> int \<Rightarrow> int \<Rightarrow> 'w \<Rightarrow> int \<times> 'w"
  zoo_get_acl :: "zhandle \<Rightarrow> string \<Rightarrow> 'w \<Rightarrow> (int \<times> acl_vector \<times> Stat) \<times> 'w"
  zoo_set_acl :: "zhandle \<Rightarrow> string \<Rightarrow> int \<Rightarrow> acl_vector \<Rightarrow> 'w \<Rightarrow> int \<times> 'w"
  zoo_add_auth :: "zhandle \<Rightarrow> string \<Rightarrow> string \<Rightarrow> nat option \<Rightarrow> 'w \<Rightarrow> int \<times> 'w"
  zoo_set_watcher :: "zhandle \<Rightarrow> 'w \<Rightarrow> 'w"
  zoo_state :: "zhandle \<Rightarrow> 'w \<Rightarrow> int"
  zoo_recv_timeout :: "zhandle \<Rightarrow> 'w \<Rightarrow> int"
  is_unrecoverable :: "zhandle \<Rightarrow> 'w \<Rightarrow> int"
  zoo_set_debug_level :: "int \<Rightarrow> 'w \<Rightarrow> 'w"
  zoo_deterministic_conn_order :: "bool \<Rightarrow> 'w \<Rightarrow> 'w"
  run_completion :: "nat \<Rightarrow> int \<Rightarrow> nat \<Rightarrow> 'w \<Rightarrow> 'w"

section \<open>Retrying a call\<close>

text \<open>
  A retried operation returns its status with its output; \<open>tries op k w\<close> is the state after
  \<open>k\<close> calls, \<open>lost op k w\<close> says that the call number \<open>k\<close> (from 0) answers
  \<open>ZCONNECTIONLOSS\<close>.
\<close>

type_synonym ('w, 'a) zk_op = "'w \<Rightarrow> (int \<times> 'a) \<times> 'w"

definition status_op :: "('w \<Rightarrow> int \<times> 'w) \<Rightarrow> ('w, unit) zk_op" where
  "status_op f w = (let (s, w') = f w in ((s, ()), w'))"

lemma status_op_eq: "status_op f w = ((fst (f w), ()), snd (f w))"
  by (simp add: status_op_def split_beta)

fun tries :: "('w, 'a) zk_op \<Rightarrow> nat \<Rightarrow> 'w \<Rightarrow> 'w" where
  "tries op 0 w = w"
| "tries op (Suc k) w = tries op k (snd (op w))"

definition lost :: "('w, 'a) zk_op \<Rightarrow> nat \<Rightarrow> 'w \<Rightarrow> bool" where
  "lost op k w \<longleftrightarrow> fst (fst (op (tries op k w))) = ZCONNECTIONLOSS"

lemma lost_Suc: "lost op (Suc k) w \<longleftrightarrow> lost op k (snd (op w))"
  by (simp add: lost_def)

text \<open>
  The bounded loop of \<open>zoo_lock.c\<close>:
  \<^verbatim>\<open>while (ret == ZCONNECTIONLOSS && count < n) { ret = op; if (ret == ZCONNECTIONLOSS) count++; }\<close>
\<close>

fun retry_upto :: "('w, 'a) zk_op \<Rightarrow> nat \<Rightarrow> int \<times> 'a \<Rightarrow> ('w, 'a) zk_op" where
  "retry_upto op 0 r w = (r, w)"
| "retry_upto op (Suc n) r w =
     (if fst r = ZCONNECTIONLOSS then (let (r', w') = op w in retry_upto op n r' w') else (r, w))"

lemma retry_upto_stop: "fst r \<noteq> ZCONNECTIONLOSS \<Longrightarrow> retry_upto op n r w = (r, w)"
  by (cases n) auto

lemma retry_upto_first:
  assumes "k < n" and "\<And>j. j < k \<Longrightarrow> lost op j w" and "\<not> lost op k w"
  shows "retry_upto op n (ZCONNECTIONLOSS, d) w = op (tries op k w)"
  using assms
proof (induction n arbitrary: k w d)
  case 0
  then show ?case by simp
next
  case (Suc n)
  obtain s a w' where op: "op w = ((s, a), w')" by (metis prod.collapse)
  show ?case
  proof (cases k)
    case 0
    with Suc.prems op show ?thesis by (simp add: lost_def retry_upto_stop)
  next
    case (Suc k')
    with Suc.prems(2) [of 0] op have s: "s = ZCONNECTIONLOSS" by (simp add: lost_def)
    have "j < k' \<Longrightarrow> lost op j w'" for j
      using Suc.prems(2) [of "Suc j"] op Suc by (simp add: lost_Suc)
    moreover have "\<not> lost op k' w'" using Suc.prems(3) op Suc by (simp add: lost_Suc)
    ultimately show ?thesis
      using Suc.IH [of k' w' a] Suc.prems(1) s op Suc by simp
  qed
qed

lemma retry_upto_exhausted:
  assumes "\<And>j. j < n \<Longrightarrow> lost op j w"
  shows "fst (fst (retry_upto op n (ZCONNECTIONLOSS, d) w)) = ZCONNECTIONLOSS \<and>
    snd (retry_upto op n (ZCONNECTIONLOSS, d) w) = tries op n w"
  using assms
proof (induction n arbitrary: w d)
  case 0
  then show ?case by simp
next
  case (Suc n)
  obtain s a w' where op: "op w = ((s, a), w')" by (metis prod.collapse)
  have "s = ZCONNECTIONLOSS" using Suc.prems [of 0] op by (simp add: lost_def)
  moreover have "j < n \<Longrightarrow> lost op j w'" for j
    using Suc.prems [of "Suc j"] op by (simp add: lost_Suc)
  ultimately show ?case using Suc.IH [of w' a] op by simp
qed

text \<open>What one call guarantees of its answer and keeps of the state, the bounded loop does.\<close>

lemma retry_upto_invariant:
  assumes step: "\<And>w r w'. I w \<Longrightarrow> op w = (r, w') \<Longrightarrow> I w' \<and> (fst r \<noteq> ZCONNECTIONLOSS \<longrightarrow> Q r w')"
    and "I w" and "retry_upto op n (ZCONNECTIONLOSS, d) w = (r, w')"
  shows "I w' \<and> (fst r \<noteq> ZCONNECTIONLOSS \<longrightarrow> Q r w')"
  using assms(2,3)
proof (induction n arbitrary: w d)
  case 0
  then show ?case by auto
next
  case (Suc n)
  obtain r1 w1 where op: "op w = (r1, w1)" by (metis prod.collapse)
  show ?case
  proof (cases "fst r1 = ZCONNECTIONLOSS")
    case True
    then obtain d1 where "r1 = (ZCONNECTIONLOSS, d1)" by (metis prod.collapse)
    with Suc op step [OF Suc.prems(1) op] show ?thesis by auto
  next
    case False
    with Suc.prems op step [OF Suc.prems(1) op] show ?thesis by (auto simp: retry_upto_stop)
  qed
qed

text \<open>
  The loop of \<open>php_zookeeper_session.c\<close>:
  \<^verbatim>\<open>do { status = op; retry_count++; } while (status == ZCONNECTIONLOSS && retry_count--);\<close>
  The counter is raised before it is tested and lowered, so it never falls; the loop may run
  for ever and is a partial function.
\<close>

partial_function (option) retry_loop ::
  "('w, 'a) zk_op \<Rightarrow> int \<Rightarrow> 'w \<Rightarrow> ((int \<times> 'a) \<times> 'w) option" where
  "retry_loop op rc w =
     (let (r, w') = op w; rc1 = rc + 1 in
      if fst r = ZCONNECTIONLOSS \<and> rc1 \<noteq> 0 then retry_loop op (rc1 - 1) w' else Some (r, w'))"

declare retry_loop.simps [code]

lemma retry_loop_returns:
  assumes "\<And>j. j < k \<Longrightarrow> lost op j w" and "\<not> lost op k w" and "0 \<le> rc"
  shows "retry_loop op rc w = Some (op (tries op k w))"
  using assms
proof (induction k arbitrary: w)
  case 0
  then show ?case by (simp add: retry_loop.simps [of op rc w] lost_def Let_def split_beta)
next
  case (Suc k)
  have "fst (fst (op w)) = ZCONNECTIONLOSS" using Suc.prems(1) [of 0] by (simp add: lost_def)
  moreover have "j < k \<Longrightarrow> lost op j (snd (op w))" for j
    using Suc.prems(1) [of "Suc j"] by (simp add: lost_Suc)
  then have "retry_loop op rc (snd (op w)) = Some (op (tries op k (snd (op w))))"
    using Suc.prems(2,3) by (intro Suc.IH) (auto simp: lost_Suc)
  ultimately show ?case
    using Suc.prems(3) by (simp add: retry_loop.simps [of op rc w] Let_def split_beta)
qed

lemma retry_loop_SomeD:
  assumes "retry_loop op rc w = Some res" and "0 \<le> rc"
  shows "\<exists>k. (\<forall>j<k. lost op j w) \<and> \<not> lost op k w \<and> res = op (tries op k w)"
proof -
  have "0 \<le> rc \<longrightarrow> (\<exists>k. (\<forall>j<k. lost op j w) \<and> \<not> lost op k w \<and> res = op (tries op k w))"
  proof (rule retry_loop.raw_induct [where P = "\<lambda>op rc w res.
      0 \<le> rc \<longrightarrow> (\<exists>k. (\<forall>j<k. lost op j w) \<and> \<not> lost op k w \<and> res = op (tries op k w))", OF _ assms(1)])
    fix f :: "('w, 'a) zk_op \<Rightarrow> int \<Rightarrow> 'w \<Rightarrow> ((int \<times> 'a) \<times> 'w) option"
      and op :: "('w, 'a) zk_op" and rc w res
    assume IH: "\<And>op rc w res. f op rc w = Some res \<Longrightarrow>
        0 \<le> rc \<longrightarrow> (\<exists>k. (\<forall>j<k. lost op j w) \<and> \<not> lost op k w \<and> res = op (tries op k w))"
      and eq: "(let (r, w') = op w; rc1 = rc + 1 in
        if fst r = ZCONNECTIONLOSS \<and> rc1 \<noteq> 0 then f op (rc1 - 1) w' else Some (r, w')) = Some res"
    show "0 \<le> rc \<longrightarrow> (\<exists>k. (\<forall>j<k. lost op j w) \<and> \<not> lost op k w \<and> res = op (tries op k w))"
    proof
      assume rc: "0 \<le> rc"
      show "\<exists>k. (\<forall>j<k. lost op j w) \<and> \<not> lost op k w \<and> res = op (tries op k w)"
      proof (cases "lost op 0 w")
        case True
        with eq rc have "f op rc (snd (op w)) = Some res"
          by (simp add: lost_def Let_def split_beta)
        from IH [OF this] rc obtain k where k: "\<forall>j<k. lost op j (snd (op w))"
          "\<not> lost op k (snd (op w))" "res = op (tries op k (snd (op w)))" by auto
        have "\<forall>j<Suc k. lost op j w" using k(1) True by (auto simp: less_Suc_eq_0_disj lost_Suc)
        with k show ?thesis by (intro exI [of _ "Suc k"]) (simp add: lost_Suc)
      next
        case False
        with eq rc show ?thesis by (intro exI [of _ 0]) (auto simp: lost_def Let_def split_beta)
      qed
    qed
  qed
  with assms(2) show ?thesis by simp
qed

lemma retry_loop_None:
  assumes "0 \<le> rc"
  shows "retry_loop op rc w = None \<longleftrightarrow> (\<forall>k. lost op k w)"
proof
  assume none: "retry_loop op rc w = None"
  show "\<forall>k. lost op k w"
  proof (rule ccontr)
    assume "\<not> (\<forall>k. lost op k w)"
    then have "\<exists>k. \<not> lost op k w" by simp
    then obtain k where "\<not> lost op k w" "\<And>j. j < k \<Longrightarrow> lost op j w"
      using exists_least_iff [of "\<lambda>k. \<not> lost op k w"] by auto
    then show False using retry_loop_returns [of k op w rc] none assms by simp
  qed
next
  assume "\<forall>k. lost op k w"
  then show "retry_loop op rc w = None"
    using retry_loop_SomeD [of op rc w] assms by (cases "retry_loop op rc w") auto
qed

lemma retry_loop_invariant:
  assumes step: "\<And>w r w'. I w \<Longrightarrow> op w = (r, w') \<Longrightarrow> I w'"
    and "I w" and "retry_loop op rc w = Some (r, w')" and "0 \<le> rc"
  shows "I w' \<and> fst r \<noteq> ZCONNECTIONLOSS \<and> (\<exists>w0. I w0 \<and> op w0 = (r, w'))"
proof -
  from retry_loop_SomeD [OF assms(3,4)] obtain k where
    k: "\<not> lost op k w" "op (tries op k w) = (r, w')" by metis
  have "I (tries op n w)" for n
    using assms(2) by (induction n arbitrary: w) (auto intro: step [OF _ prod.collapse [symmetric]])
  then have "I (tries op k w)" .
  with k step [OF this k(2)] show ?thesis by (auto simp: lost_def)
qed

end
