(* ===== verification/Zend.thy ===== *)
theory Zend
  imports Zk_Client
begin

text \<open>
  What \<open>php_zookeeper.c\<close> uses of the PHP engine. PHP values are a datatype, arrays ordered
  association lists; \<open>char *\<close> views of PHP strings end at the first null byte. The engine's type
  conversions and its hash table of callbacks are not part of the repository: they are the records
  \<open>zend_conv\<close> and \<open>hash_api\<close>, arguments of the definitions that use them, with the
  documented behaviour the code relies on as the predicates \<open>conv_laws\<close> and \<open>hash_laws\<close>.
\<close>

section \<open>Values\<close>

datatype zkey = KInt int | KStr string

text \<open>A double that holds a converted 64-bit integer is given by its (integral) value.\<close>

datatype zval = ZNull | ZBool bool | ZLong int | ZDouble int | ZString string | ZArray "(zkey \<times> zval) list"
  | ZResource nat | ZObject nat

type_synonym zarray = "(zkey \<times> zval) list"

text \<open>\<open>add_assoc_*_ex\<close> replaces the value of a key or appends the pair at the end.\<close>

definition add_assoc :: "zarray \<Rightarrow> string \<Rightarrow> zval \<Rightarrow> zarray" where
  "add_assoc a k v =
     (if KStr k \<in> fst ` set a then map (\<lambda>(k', x). (k', if k' = KStr k then v else x)) a
      else a @ [(KStr k, v)])"

text \<open>\<open>add_next_index_*\<close> uses the next integer key, one above the largest so far.\<close>

fun next_index :: "zarray \<Rightarrow> int" where
  "next_index [] = 0"
| "next_index ((KInt i, v) # a) = max (i + 1) (next_index a)"
| "next_index ((KStr s, v) # a) = next_index a"

definition add_next_index :: "zarray \<Rightarrow> zval \<Rightarrow> zarray" where
  "add_next_index a v = a @ [(KInt (next_index a), v)]"

definition array_find :: "zarray \<Rightarrow> string \<Rightarrow> zval option" where
  "array_find a k = map_of a (KStr k)"

definition zarray_of :: "zval list \<Rightarrow> zarray" where
  "zarray_of vs = zip (map (KInt \<circ> int) [0..<length vs]) vs"

lemma next_index_append: "next_index (a @ b) = max (next_index a) (next_index b)"
proof (induction a rule: next_index.induct)
  case 1
  have "0 \<le> next_index b" by (induction b rule: next_index.induct) auto
  then show ?case by simp
qed auto

lemma zarray_of_snoc: "zarray_of (vs @ [v]) = zarray_of vs @ [(KInt (int (length vs)), v)]"
  by (simp add: zarray_of_def)

lemma next_index_zarray_of [simp]: "next_index (zarray_of vs) = int (length vs)"
proof (induction vs rule: rev_induct)
  case Nil
  then show ?case by (simp add: zarray_of_def)
next
  case (snoc v vs)
  then show ?case by (simp add: zarray_of_snoc next_index_append)
qed

lemma add_next_index_zarray_of: "add_next_index (zarray_of vs) v = zarray_of (vs @ [v])"
  by (simp add: add_next_index_def zarray_of_snoc)

text \<open>A loop of \<open>add_next_index\<close> calls builds the list.\<close>

lemma fold_add_next_index:
  "fold (\<lambda>v a. add_next_index a v) vs (zarray_of us) = zarray_of (us @ vs)"
  by (induction vs arbitrary: us) (simp_all add: add_next_index_zarray_of)

lemma fold_add_next_index_empty: "fold (\<lambda>v a. add_next_index a v) vs [] = zarray_of vs"
  using fold_add_next_index [of vs "[]"] by (simp add: zarray_of_def)

lemma map_snd_zarray_of [simp]: "map snd (zarray_of vs) = vs"
  by (simp add: zarray_of_def)

section \<open>Strings and numbers\<close>

text \<open>The C string at a PHP string's address.\<close>

definition c_str :: "string \<Rightarrow> string" where
  "c_str s = takeWhile (\<lambda>c. c \<noteq> CHR 0x00) s"

lemma c_str_id: "CHR 0x00 \<notin> set s \<Longrightarrow> c_str s = s"
  by (induction s) (auto simp: c_str_def)

lemma c_str_no_nul: "CHR 0x00 \<notin> set (c_str s)"
  by (auto simp: c_str_def dest: set_takeWhileD)

text \<open>
  A 64-bit integer as a double: 53 bits of precision, rounded to the nearest value, to the even
  significand in the middle. \<open>double_exp m\<close> is the number of low bits that do not fit.
\<close>

definition double_exp :: "int \<Rightarrow> nat" where
  "double_exp m = length (takeWhile (\<lambda>k. 2 ^ (53 + k) \<le> m) [0..<11])"

definition round_double :: "int \<Rightarrow> int" where
  "round_double m = (let p = 2 ^ double_exp m; q = m div p; r = m mod p in
     (if 2 * r > p \<or> 2 * r = p \<and> odd q then q + 1 else q) * p)"

definition double_of_int :: "int \<Rightarrow> int" where
  "double_of_int n = (if n < 0 then - round_double (- n) else round_double n)"

lemma round_double_exact: "0 \<le> m \<Longrightarrow> m \<le> 2 ^ 53 \<Longrightarrow> round_double m = m"
proof (cases "m = 2 ^ 53")
  case True
  have "double_exp (2 ^ 53) = 1" by (simp add: double_exp_def upt_rec)
  then show ?thesis using True by (simp add: round_double_def)
next
  case False
  assume "0 \<le> m" "m \<le> 2 ^ 53"
  with False have "double_exp m = 0" by (simp add: double_exp_def upt_rec)
  then show ?thesis by (simp add: round_double_def)
qed

lemma double_of_int_exact: "\<bar>n\<bar> \<le> 2 ^ 53 \<Longrightarrow> double_of_int n = n"
  using round_double_exact [of n] round_double_exact [of "- n"] by (simp add: double_of_int_def abs_le_iff)

lemma round_double_error: "2 * \<bar>round_double m - m\<bar> \<le> 2 ^ double_exp m"
proof -
  define p :: int where "p = 2 ^ double_exp m"
  define q where "q = m div p"
  define r where "r = m mod p"
  have "m = q * p + r" by (simp only: q_def r_def div_mult_mod_eq)
  moreover have "0 \<le> r" "r < p" by (simp_all add: r_def p_def)
  ultimately have "2 * \<bar>(if 2 * r > p \<or> 2 * r = p \<and> odd q then q + 1 else q) * p - m\<bar> \<le> p"
    by (auto simp: distrib_right abs_if)
  then show ?thesis unfolding round_double_def Let_def p_def [symmetric] q_def [symmetric] r_def [symmetric] .
qed

section \<open>Conversions\<close>

record zend_conv =
  to_long :: "zval \<Rightarrow> int"
  to_str :: "zval \<Rightarrow> string"

definition conv_laws :: "zend_conv \<Rightarrow> bool" where
  "conv_laws C \<longleftrightarrow> (\<forall>n. to_long C (ZLong n) = n) \<and> (\<forall>s. to_str C (ZString s) = s)"

section \<open>The hash table of callbacks\<close>

text \<open>
  A table of addresses. A deletion, the cleaning and the destruction give the removed values, on which the engine
  runs the table's destructor, in that order.
\<close>

record 'h hash_api =
  hash_init :: 'h
  hash_num_elements :: "'h \<Rightarrow> nat"
  hash_next_index_insert :: "nat \<Rightarrow> 'h \<Rightarrow> 'h"
  hash_index_del :: "nat \<Rightarrow> 'h \<Rightarrow> nat option \<times> 'h"
  hash_clean :: "'h \<Rightarrow> nat list \<times> 'h"
  hash_destroy :: "'h \<Rightarrow> nat list"

text \<open>The view: the pairs of index and value in order, and the next free index.\<close>

record 'h hash_view =
  entries :: "'h \<Rightarrow> (nat \<times> nat) list"
  next_free :: "'h \<Rightarrow> nat"

definition indices_ok :: "'h hash_view \<Rightarrow> 'h \<Rightarrow> bool" where
  "indices_ok V t \<longleftrightarrow> distinct (map fst (entries V t)) \<and> (\<forall>(i, a)\<in>set (entries V t). i < next_free V t)"

definition hash_laws :: "'h hash_api \<Rightarrow> 'h hash_view \<Rightarrow> bool" where
  "hash_laws H V \<longleftrightarrow>
     entries V (hash_init H) = [] \<and> next_free V (hash_init H) = 0 \<and>
     (\<forall>t. hash_num_elements H t = length (entries V t)) \<and>
     (\<forall>a t. entries V (hash_next_index_insert H a t) = entries V t @ [(next_free V t, a)] \<and>
        next_free V (hash_next_index_insert H a t) = Suc (next_free V t)) \<and>
     (\<forall>i t. fst (hash_index_del H i t) = map_of (entries V t) i \<and>
        entries V (snd (hash_index_del H i t)) = filter (\<lambda>e. fst e \<noteq> i) (entries V t) \<and>
        next_free V (snd (hash_index_del H i t)) = next_free V t) \<and>
     (\<forall>t. fst (hash_clean H t) = map snd (entries V t) \<and> entries V (snd (hash_clean H t)) = [] \<and>
        next_free V (snd (hash_clean H t)) = 0) \<and>
     (\<forall>t. hash_destroy H t = map snd (entries V t))"

lemma hash_lawsD:
  assumes "hash_laws H V"
  shows "entries V (hash_init H) = []" "next_free V (hash_init H) = 0"
    "hash_num_elements H t = length (entries V t)"
    "entries V (hash_next_index_insert H a t) = entries V t @ [(next_free V t, a)]"
    "next_free V (hash_next_index_insert H a t) = Suc (next_free V t)"
    "fst (hash_index_del H i t) = map_of (entries V t) i"
    "entries V (snd (hash_index_del H i t)) = filter (\<lambda>e. fst e \<noteq> i) (entries V t)"
    "next_free V (snd (hash_index_del H i t)) = next_free V t"
    "fst (hash_clean H t) = map snd (entries V t)" "entries V (snd (hash_clean H t)) = []"
    "next_free V (snd (hash_clean H t)) = 0" "hash_destroy H t = map snd (entries V t)"
  using assms by (auto simp: hash_laws_def)

lemma indices_ok_insert:
  assumes "hash_laws H V" "indices_ok V t" shows "indices_ok V (hash_next_index_insert H a t)"
  using assms(2) by (auto simp: indices_ok_def hash_lawsD [OF assms(1)] less_Suc_eq)

lemma indices_ok_del:
  assumes "hash_laws H V" "indices_ok V t" shows "indices_ok V (snd (hash_index_del H i t))"
  using assms(2) distinct_map_filter [of fst "entries V t"]
  by (auto simp: indices_ok_def hash_lawsD [OF assms(1)])

end
