(* ===== verification/Acl_Stat.thy ===== *)
theory Acl_Stat
  imports Zend
begin

text \<open>
  The conversions of \<open>php_zookeeper.c\<close> between PHP arrays and the structs of libzookeeper:
  \<open>php_parse_acl_list\<close>, \<open>php_aclv_to_array\<close>, \<open>php_aclv_destroy\<close> and
  \<open>php_stat_to_array\<close>. An ACL vector in C memory is a list of cells with pointers to their
  strings; an uninitialised struct is \<open>None\<close>.
\<close>

record ACL =
  a_perms :: int
  a_id :: cptr
  a_scheme :: cptr

type_synonym ACL_vector = "ACL list option"

section \<open>Operations\<close>

definition parse_acl_entry :: "zend_conv \<Rightarrow> zval \<Rightarrow> ACL option" where
  "parse_acl_entry C entry = (case entry of
     ZArray e \<Rightarrow> (case (array_find e ''perms'', array_find e ''scheme'', array_find e ''id'') of
       (Some perms, Some scheme, Some ident) \<Rightarrow>
         Some \<lparr>a_perms = to_int32 (to_long C perms), a_id = Str (c_str (to_str C ident)),
               a_scheme = Str (c_str (to_str C scheme))\<rparr>
     | _ \<Rightarrow> None)
   | _ \<Rightarrow> None)"

text \<open>The loop over the array: \<^verbatim>\<open>continue\<close> skips an entry, \<open>i\<close> counts the filled cells.\<close>

fun parse_acl_loop :: "zend_conv \<Rightarrow> zarray \<Rightarrow> ACL list \<Rightarrow> ACL list" where
  "parse_acl_loop C [] data = data"
| "parse_acl_loop C ((k, entry) # rest) data = (case parse_acl_entry C entry of
     None \<Rightarrow> parse_acl_loop C rest data
   | Some cell \<Rightarrow> parse_acl_loop C rest (data @ [cell]))"

definition php_parse_acl_list :: "zend_conv \<Rightarrow> zarray option \<Rightarrow> ACL_vector \<Rightarrow> ACL_vector" where
  "php_parse_acl_list C z_acl aclv = (case z_acl of
     None \<Rightarrow> aclv
   | Some arr \<Rightarrow> if length arr = 0 then aclv else Some (parse_acl_loop C arr []))"

fun free_acl_cells :: "ACL list \<Rightarrow> ACL list outcome" where
  "free_acl_cells [] = Ret []"
| "free_acl_cells (c # cs) = obind (free_ptr (a_id c)) (\<lambda>i. obind (free_ptr (a_scheme c)) (\<lambda>s.
     obind (free_acl_cells cs) (\<lambda>cs'. Ret (c\<lparr>a_id := i, a_scheme := s\<rparr> # cs'))))"

text \<open>Frees the strings of every cell and the array; reading an uninitialised vector is undefined.\<close>

definition php_aclv_destroy :: "ACL_vector \<Rightarrow> ACL_vector outcome" where
  "php_aclv_destroy aclv = (case aclv of None \<Rightarrow> Fault UninitRead
     | Some cells \<Rightarrow> obind (free_acl_cells cells) (\<lambda>cs. Ret (Some cs)))"

text \<open>What the library reads of a vector.\<close>

fun read_acl_cells :: "ACL list \<Rightarrow> acl_vector outcome" where
  "read_acl_cells [] = Ret []"
| "read_acl_cells (c # cs) = obind (deref (a_id c)) (\<lambda>i. obind (deref (a_scheme c)) (\<lambda>s.
     obind (read_acl_cells cs) (\<lambda>es.
       Ret (\<lparr>acl_perms = a_perms c, acl_scheme = s, acl_ident = i\<rparr> # es))))"

definition read_aclv :: "ACL_vector \<Rightarrow> acl_vector outcome" where
  "read_aclv aclv = (case aclv of None \<Rightarrow> Fault UninitRead | Some cells \<Rightarrow> read_acl_cells cells)"

definition acl_entry_to_array :: "acl_entry \<Rightarrow> zarray" where
  "acl_entry_to_array e =
     add_assoc (add_assoc (add_assoc [] ''perms'' (ZLong (acl_perms e)))
       ''scheme'' (ZString (acl_scheme e))) ''id'' (ZString (acl_ident e))"

definition php_aclv_to_array :: "acl_vector \<Rightarrow> zarray" where
  "php_aclv_to_array aclv = fold (\<lambda>e a. add_next_index a (ZArray (acl_entry_to_array e))) aclv []"

definition php_stat_to_array :: "Stat \<Rightarrow> zarray" where
  "php_stat_to_array stat = fold (\<lambda>(k, v) a. add_assoc a k v)
     [(''czxid'', ZDouble (double_of_int (stat_czxid stat))),
      (''mzxid'', ZDouble (double_of_int (stat_mzxid stat))),
      (''ctime'', ZDouble (double_of_int (stat_ctime stat))),
      (''mtime'', ZDouble (double_of_int (stat_mtime stat))),
      (''version'', ZLong (stat_version stat)),
      (''cversion'', ZLong (stat_cversion stat)),
      (''aversion'', ZLong (stat_aversion stat)),
      (''ephemeralOwner'', ZDouble (double_of_int (stat_ephemeralOwner stat))),
      (''dataLength'', ZLong (stat_dataLength stat)),
      (''numChildren'', ZLong (stat_numChildren stat)),
      (''pzxid'', ZDouble (double_of_int (stat_pzxid stat)))] []"

section \<open>ACL lists\<close>

lemma parse_acl_loop_eq:
  "parse_acl_loop C arr data = data @ List.map_filter (\<lambda>(k, e). parse_acl_entry C e) arr"
  by (induction C arr data rule: parse_acl_loop.induct) (auto simp: List.map_filter_simps split: option.split)

text \<open>The loop never fills more cells than were allocated.\<close>

lemma parse_acl_loop_bound: "length (parse_acl_loop C arr []) \<le> length arr"
  by (simp add: parse_acl_loop_eq List.map_filter_def)

lemma parse_acl_cells:
  "c \<in> set (parse_acl_loop C arr data) \<Longrightarrow> c \<in> set data \<or>
     (\<exists>i s. a_id c = Str i \<and> a_scheme c = Str s \<and> CHR 0x00 \<notin> set i \<and> CHR 0x00 \<notin> set s) \<and>
     - (2 ^ 31) \<le> a_perms c \<and> a_perms c < 2 ^ 31"
proof (induction C arr data rule: parse_acl_loop.induct)
  case (2 C k entry rest data)
  have cell: "(\<exists>i s. a_id x = Str i \<and> a_scheme x = Str s \<and> CHR 0x00 \<notin> set i \<and> CHR 0x00 \<notin> set s) \<and>
     - (2 ^ 31) \<le> a_perms x \<and> a_perms x < 2 ^ 31" if "parse_acl_entry C entry = Some x" for x
  proof -
    from that obtain p s i where "x = \<lparr>a_perms = to_int32 p, a_id = Str (c_str i), a_scheme = Str (c_str s)\<rparr>"
      by (auto simp: parse_acl_entry_def split: zval.splits option.splits)
    then show ?thesis using to_int32_range [of p] by (simp add: c_str_no_nul)
  qed
  show ?case
  proof (cases "parse_acl_entry C entry")
    case None
    with 2 show ?thesis by simp
  next
    case (Some x)
    with 2 have "c \<in> set (data @ [x]) \<or> (\<exists>i s. a_id c = Str i \<and> a_scheme c = Str s \<and>
        CHR 0x00 \<notin> set i \<and> CHR 0x00 \<notin> set s) \<and> - (2 ^ 31) \<le> a_perms c \<and> a_perms c < 2 ^ 31" by simp
    with cell [OF Some] show ?thesis by auto
  qed
qed simp

lemma free_acl_cells_Ret:
  "\<forall>c\<in>set cs. (\<exists>i s. a_id c = Str i \<and> a_scheme c = Str s) \<Longrightarrow>
    free_acl_cells cs = Ret (map (\<lambda>c. c\<lparr>a_id := Freed, a_scheme := Freed\<rparr>) cs)"
  by (induction cs) auto

lemma read_acl_cells_Ret:
  "\<forall>c\<in>set cs. (\<exists>i s. a_id c = Str i \<and> a_scheme c = Str s) \<Longrightarrow>
    \<exists>es. read_acl_cells cs = Ret es \<and> length es = length cs"
  by (induction cs) auto

lemma parse_acl_strings:
  "\<forall>c\<in>set (parse_acl_loop C arr []). \<exists>i s. a_id c = Str i \<and> a_scheme c = Str s"
  using parse_acl_cells [of _ C arr "[]"] by fastforce

definition cell_of :: "acl_entry \<Rightarrow> ACL" where
  "cell_of e = \<lparr>a_perms = acl_perms e, a_id = Str (acl_ident e), a_scheme = Str (acl_scheme e)\<rparr>"

lemma read_cells_of: "read_acl_cells (map cell_of es) = Ret es"
  by (induction es) (simp_all add: cell_of_def)

definition acl_entry_ok :: "acl_entry \<Rightarrow> bool" where
  "acl_entry_ok e \<longleftrightarrow> - (2 ^ 31) \<le> acl_perms e \<and> acl_perms e < 2 ^ 31 \<and>
     CHR 0x00 \<notin> set (acl_scheme e) \<and> CHR 0x00 \<notin> set (acl_ident e)"

lemma parse_entry_to_array:
  "conv_laws C \<Longrightarrow> acl_entry_ok e \<Longrightarrow> parse_acl_entry C (ZArray (acl_entry_to_array e)) = Some (cell_of e)"
  by (simp add: parse_acl_entry_def acl_entry_to_array_def add_assoc_def array_find_def conv_laws_def
      acl_entry_ok_def cell_of_def to_int32_id c_str_id)

lemma aclv_to_array_eq: "php_aclv_to_array es = zarray_of (map (ZArray \<circ> acl_entry_to_array) es)"
proof -
  have "php_aclv_to_array es = fold (\<lambda>v a. add_next_index a v) (map (ZArray \<circ> acl_entry_to_array) es) []"
    by (simp add: php_aclv_to_array_def fold_map o_def)
  then show ?thesis by (simp add: fold_add_next_index_empty)
qed

lemma parse_loop_snd: "parse_acl_loop C arr data = data @ List.map_filter (parse_acl_entry C) (map snd arr)"
  by (simp add: parse_acl_loop_eq List.map_filter_def filter_map o_def split_beta)

lemma parse_to_array:
  assumes "conv_laws C" "\<forall>e\<in>set es. acl_entry_ok e"
  shows "parse_acl_loop C (php_aclv_to_array es) [] = map cell_of es"
proof -
  have "List.map_filter (parse_acl_entry C) (map (ZArray \<circ> acl_entry_to_array) es) = map cell_of es"
    using assms by (induction es) (auto simp: List.map_filter_simps parse_entry_to_array)
  then show ?thesis by (simp add: parse_loop_snd aclv_to_array_eq)
qed

lemma length_aclv_to_array [simp]: "length (php_aclv_to_array es) = length es"
  by (simp add: aclv_to_array_eq zarray_of_def)

text \<open>
  An encoding and its reader: what both sides of such a pair promise, and what follows for a
  client that goes through the encoding.
\<close>

locale array_codec =
  fixes enc :: "'a \<Rightarrow> 'b" and dec :: "'b \<Rightarrow> 'a option" and valid :: "'a \<Rightarrow> bool"
  assumes dec_enc: "valid x \<Longrightarrow> dec (enc x) = Some x"
begin

lemma enc_inj: "inj_on enc {x. valid x}"
  by (rule inj_onI) (metis dec_enc mem_Collect_eq option.inject)

end

text \<open>ACL lists as the PHP side sees them and as the C side reads them back.\<close>

definition acl_read_back :: "zend_conv \<Rightarrow> zarray \<Rightarrow> acl_vector option" where
  "acl_read_back C arr = (case read_aclv (php_parse_acl_list C (Some arr) (Some [])) of
     Ret es \<Rightarrow> Some es | _ \<Rightarrow> None)"

definition plain_conv :: zend_conv where
  "plain_conv = \<lparr>to_long = (\<lambda>v. case v of ZLong n \<Rightarrow> n | ZDouble n \<Rightarrow> n | ZBool b \<Rightarrow> (if b then 1 else 0) | _ \<Rightarrow> 0),
     to_str = (\<lambda>v. case v of ZString s \<Rightarrow> s | _ \<Rightarrow> [])\<rparr>"

lemma plain_conv_laws: "conv_laws plain_conv"
  by (simp add: conv_laws_def plain_conv_def)

lemma acl_read_back_to_array:
  assumes "conv_laws C" "\<forall>e\<in>set es. acl_entry_ok e"
  shows "acl_read_back C (php_aclv_to_array es) = Some es"
proof (cases "es = []")
  case True
  then show ?thesis by (simp add: acl_read_back_def php_parse_acl_list_def php_aclv_to_array_def read_aclv_def)
next
  case False
  then have "length (php_aclv_to_array es) \<noteq> 0" by simp
  with assms show ?thesis
    by (simp add: acl_read_back_def php_parse_acl_list_def read_aclv_def parse_to_array read_cells_of)
qed

text \<open>The pair, for every conversion that is the identity on longs and strings.\<close>

interpretation acl: array_codec php_aclv_to_array
  "\<lambda>arr. if conv_laws C then acl_read_back C arr else acl_read_back plain_conv arr"
  "\<lambda>es. \<forall>e\<in>set es. acl_entry_ok e" for C
  by unfold_locales (simp add: acl_read_back_to_array plain_conv_laws)

section \<open>Stat\<close>

lemma stat_array_eq: "php_stat_to_array stat =
     [(KStr ''czxid'', ZDouble (double_of_int (stat_czxid stat))),
      (KStr ''mzxid'', ZDouble (double_of_int (stat_mzxid stat))),
      (KStr ''ctime'', ZDouble (double_of_int (stat_ctime stat))),
      (KStr ''mtime'', ZDouble (double_of_int (stat_mtime stat))),
      (KStr ''version'', ZLong (stat_version stat)),
      (KStr ''cversion'', ZLong (stat_cversion stat)),
      (KStr ''aversion'', ZLong (stat_aversion stat)),
      (KStr ''ephemeralOwner'', ZDouble (double_of_int (stat_ephemeralOwner stat))),
      (KStr ''dataLength'', ZLong (stat_dataLength stat)),
      (KStr ''numChildren'', ZLong (stat_numChildren stat)),
      (KStr ''pzxid'', ZDouble (double_of_int (stat_pzxid stat)))]"
  by (simp add: php_stat_to_array_def add_assoc_def)

definition wide_fields :: "Stat \<Rightarrow> int list" where
  "wide_fields s = [stat_czxid s, stat_mzxid s, stat_ctime s, stat_mtime s, stat_ephemeralOwner s, stat_pzxid s]"

end
