(* ===== verification/Callbacks.thy ===== *)
theory Callbacks
  imports Zend
begin

text \<open>
  The callback records of \<open>php_zookeeper.c\<close>: allocation and release, the table
  \<open>ZK_G(callbacks)\<close>, the two functions through which libzookeeper calls back into PHP, and the
  objects that hold a record. Records live in an explicit heap because the table, the objects and
  the library share them by address; releasing one twice, or using a released one, is a fault.
\<close>

section \<open>State\<close>

text \<open>\<open>cb_fci\<close> names the PHP function; \<open>cb_h\<close> is the index the record believes to have.\<close>

record php_cb_data_t =
  cb_fci :: nat
  cb_oneshot :: bool
  cb_h :: nat

record php_zk_t =
  o_zk :: "zhandle option"
  o_cb_data :: "nat option"

record ('w, 'h) zk_state =
  z_world :: 'w
  z_cbs :: "nat \<Rightarrow> php_cb_data_t option"
  z_fresh :: nat
  z_table :: 'h
  z_objs :: "nat \<Rightarrow> php_zk_t option"
  z_next_obj :: nat
  z_nulled :: "nat list"

text \<open>\<open>z_nulled\<close> lists the objects whose variable was overwritten by \<open>ZVAL_NULL(object)\<close>.\<close>

section \<open>Records\<close>

definition php_cb_data_new ::
  "'h hash_api \<Rightarrow> nat \<Rightarrow> bool \<Rightarrow> ('w, 'h) zk_state \<Rightarrow> nat \<times> ('w, 'h) zk_state" where
  "php_cb_data_new H fci oneshot st =
     (let a = z_fresh st;
          t = hash_next_index_insert H a (z_table st);
          h = nat ((int (hash_num_elements H t) - 1) mod 2 ^ 64)
      in (a, st\<lparr>z_cbs := (z_cbs st)(a \<mapsto> \<lparr>cb_fci = fci, cb_oneshot = oneshot, cb_h = h\<rparr>),
                z_fresh := Suc a, z_table := t\<rparr>))"

definition php_cb_data_destroy :: "nat option \<Rightarrow> ('w, 'h) zk_state \<Rightarrow> ('w, 'h) zk_state outcome" where
  "php_cb_data_destroy cbd st = (case cbd of
     None \<Rightarrow> Ret st
   | Some a \<Rightarrow> (case z_cbs st a of
       None \<Rightarrow> Fault DoubleFree | Some _ \<Rightarrow> Ret (st\<lparr>z_cbs := (z_cbs st)(a := None)\<rparr>)))"

text \<open>A deletion from the table runs the table's destructor on the removed record.\<close>

definition callbacks_del ::
  "'h hash_api \<Rightarrow> nat \<Rightarrow> ('w, 'h) zk_state \<Rightarrow> ('w, 'h) zk_state outcome" where
  "callbacks_del H i st = (let (removed, t) = hash_index_del H i (z_table st)
     in php_cb_data_destroy removed (st\<lparr>z_table := t\<rparr>))"

fun destroy_all :: "nat list \<Rightarrow> ('w, 'h) zk_state \<Rightarrow> ('w, 'h) zk_state outcome" where
  "destroy_all [] st = Ret st"
| "destroy_all (a # as) st = obind (php_cb_data_destroy (Some a) st) (destroy_all as)"

text \<open>\<open>PHP_RSHUTDOWN\<close>: the table is cleaned at the end of a request.\<close>

definition rshutdown_zookeeper :: "'h hash_api \<Rightarrow> ('w, 'h) zk_state \<Rightarrow> ('w, 'h) zk_state outcome" where
  "rshutdown_zookeeper H st = (let (removed, t) = hash_clean H (z_table st)
     in destroy_all removed (st\<lparr>z_table := t\<rparr>))"

section \<open>Calling back\<close>

text \<open>
  \<open>zend_call_function\<close> runs PHP code, which may call methods of the class: it is a parameter
  over the whole state. It fails, or succeeds with a value, or succeeds without one: when the
  function ended with an exception that was not caught, \<open>retval\<close> is the null pointer, and
  \<^verbatim>\<open>zval_ptr_dtor(&retval)\<close> counts down through it. The record is read before the call and, for
  \<open>oneshot\<close> and \<open>h\<close>, again after it.
\<close>

datatype call_result = CallFailed | CallReturned | CallThrew

type_synonym ('w, 'h) call_function =
  "nat \<Rightarrow> zval list \<Rightarrow> ('w, 'h) zk_state \<Rightarrow> call_result \<times> ('w, 'h) zk_state"

definition run_callback ::
  "'h hash_api \<Rightarrow> ('w, 'h) call_function \<Rightarrow> zval list \<Rightarrow> nat option \<Rightarrow> ('w, 'h) zk_state \<Rightarrow>
   (bool \<times> ('w, 'h) zk_state) outcome" where
  "run_callback H call params context st = (case context of
     None \<Rightarrow> Fault NullDeref
   | Some a \<Rightarrow> (case z_cbs st a of
       None \<Rightarrow> Fault UseAfterFree
     | Some cb \<Rightarrow>
         let (res, st1) = call (cb_fci cb) params st
         in if res = CallThrew then Fault NullDeref
            else case z_cbs st1 a of
              None \<Rightarrow> Fault UseAfterFree
            | Some cb1 \<Rightarrow>
                if cb_oneshot cb1
                then obind (callbacks_del H (cb_h cb1) st1) (\<lambda>st2. Ret (res = CallReturned, st2))
                else Ret (res = CallReturned, st1)))"

text \<open>The result says whether the call succeeded; otherwise a warning is raised.\<close>

definition php_zk_watcher_marshal ::
  "'h hash_api \<Rightarrow> ('w, 'h) call_function \<Rightarrow> int \<Rightarrow> int \<Rightarrow> string \<Rightarrow> nat option \<Rightarrow> ('w, 'h) zk_state \<Rightarrow>
   (bool \<times> ('w, 'h) zk_state) outcome" where
  "php_zk_watcher_marshal H call ty state path context st =
     run_callback H call [ZLong ty, ZLong state, ZString path] context st"

definition php_zk_completion_marshal ::
  "'h hash_api \<Rightarrow> ('w, 'h) call_function \<Rightarrow> int \<Rightarrow> nat option \<Rightarrow> ('w, 'h) zk_state \<Rightarrow>
   (bool \<times> ('w, 'h) zk_state) outcome" where
  "php_zk_completion_marshal H call rc context st = run_callback H call [ZLong rc] context st"

text \<open>An event that comes back: the record was live before and after the PHP function.\<close>

lemma run_callback_Ret:
  assumes "run_callback H call params context st = Ret (ok, st')"
  obtains a cb res st1 cb1 where "context = Some a" "z_cbs st a = Some cb"
    "call (cb_fci cb) params st = (res, st1)" "res \<noteq> CallThrew" "ok \<longleftrightarrow> res = CallReturned"
    "z_cbs st1 a = Some cb1" "if cb_oneshot cb1 then callbacks_del H (cb_h cb1) st1 = Ret st' else st' = st1"
  using assms
  by (auto simp: run_callback_def obind_eq_Ret split: option.splits prod.splits if_splits)

section \<open>Objects\<close>

definition php_zk_new :: "('w, 'h) zk_state \<Rightarrow> nat \<times> ('w, 'h) zk_state" where
  "php_zk_new st = (z_next_obj st,
     st\<lparr>z_objs := (z_objs st)(z_next_obj st \<mapsto> \<lparr>o_zk = None, o_cb_data = None\<rparr>),
        z_next_obj := Suc (z_next_obj st)\<rparr>)"

text \<open>The deletion by the index stored in an object's record, which is read first.\<close>

definition drop_object_callback ::
  "'h hash_api \<Rightarrow> php_zk_t \<Rightarrow> ('w, 'h) zk_state \<Rightarrow> ('w, 'h) zk_state outcome" where
  "drop_object_callback H i_obj st = (case o_cb_data i_obj of
     None \<Rightarrow> Ret st
   | Some a \<Rightarrow> (case z_cbs st a of
       None \<Rightarrow> Fault UseAfterFree | Some cb \<Rightarrow> callbacks_del H (cb_h cb) st))"

definition php_zk_destroy ::
  "'h hash_api \<Rightarrow> 'w zk_api \<Rightarrow> nat \<Rightarrow> ('w, 'h) zk_state \<Rightarrow> ('w, 'h) zk_state outcome" where
  "php_zk_destroy H api this st = (case z_objs st this of
     None \<Rightarrow> Fault UseAfterFree
   | Some i_obj \<Rightarrow> obind (drop_object_callback H i_obj st) (\<lambda>st1.
       let w = (case o_zk i_obj of None \<Rightarrow> z_world st1 | Some zh \<Rightarrow> zookeeper_close api zh (z_world st1))
       in Ret (st1\<lparr>z_world := w, z_objs := (z_objs st1)(this := None)\<rparr>)))"

definition php_zk_free_storage ::
  "'h hash_api \<Rightarrow> 'w zk_api \<Rightarrow> nat \<Rightarrow> ('w, 'h) zk_state \<Rightarrow> ('w, 'h) zk_state outcome" where
  "php_zk_free_storage H api this st = php_zk_destroy H api this st"

section \<open>The invariant of the table\<close>

text \<open>
  The live records are exactly the ones in the table, each in it once. Neither operation on the
  table breaks it, not even a deletion at a wrong index; releasing a record that stays in the
  table does.
\<close>

definition table_ok :: "'h hash_view \<Rightarrow> ('w, 'h) zk_state \<Rightarrow> bool" where
  "table_ok V st \<longleftrightarrow> indices_ok V (z_table st) \<and> distinct (map snd (entries V (z_table st))) \<and>
     {a. z_cbs st a \<noteq> None} = snd ` set (entries V (z_table st)) \<and>
     (\<forall>a. z_cbs st a \<noteq> None \<longrightarrow> a < z_fresh st)"

lemma table_ok_parts:
  assumes "table_ok V st"
  shows "indices_ok V (z_table st)" "distinct (map snd (entries V (z_table st)))"
    "{a. z_cbs st a \<noteq> None} = snd ` set (entries V (z_table st))"
    "\<forall>a. z_cbs st a \<noteq> None \<longrightarrow> a < z_fresh st"
  using assms unfolding table_ok_def by blast+

lemma table_okD:
  "table_ok V st \<Longrightarrow> (i, a) \<in> set (entries V (z_table st)) \<Longrightarrow> \<exists>cb. z_cbs st a = Some cb"
  unfolding table_ok_def by force

lemma cb_data_new_ok:
  assumes laws: "hash_laws H V" and ok: "table_ok V st" and new: "php_cb_data_new H fci o1 st = (a, st')"
  shows "table_ok V st' \<and> a = z_fresh st \<and> z_objs st' = z_objs st \<and> z_world st' = z_world st"
proof -
  let ?E = "entries V (z_table st)"
  have fresh: "a = z_fresh st" and st': "z_table st' = hash_next_index_insert H a (z_table st)"
    "z_fresh st' = Suc a" "{b. z_cbs st' b \<noteq> None} = insert a {b. z_cbs st b \<noteq> None}"
    "z_objs st' = z_objs st" "z_world st' = z_world st"
    using new by (auto simp: php_cb_data_new_def Let_def)
  have live: "{b. z_cbs st b \<noteq> None} = snd ` set ?E" "\<forall>b. z_cbs st b \<noteq> None \<longrightarrow> b < z_fresh st"
    "distinct (map snd ?E)" by (rule table_ok_parts [OF ok])+
  have notin: "a \<notin> snd ` set ?E"
  proof
    assume "a \<in> snd ` set ?E"
    then have "z_cbs st a \<noteq> None" unfolding live(1) [symmetric] by (rule CollectD)
    with live(2) fresh show False by blast
  qed
  have E: "entries V (z_table st') = ?E @ [(next_free V (z_table st), a)]"
    by (simp add: st' hash_lawsD [OF laws])
  have "indices_ok V (z_table st')"
    using ok st' indices_ok_insert [OF laws] by (simp add: table_ok_def)
  moreover have "\<forall>b. z_cbs st' b \<noteq> None \<longrightarrow> b < z_fresh st'"
  proof (intro allI impI)
    fix b assume "z_cbs st' b \<noteq> None"
    then have "b = a \<or> z_cbs st b \<noteq> None" using st'(3) by blast
    then show "b < z_fresh st'" using live(2) st'(2) fresh by auto
  qed
  moreover have "distinct (map snd (entries V (z_table st')))" using notin live(3) by (simp add: E)
  moreover have "{b. z_cbs st' b \<noteq> None} = snd ` set (entries V (z_table st'))"
    unfolding st'(3) live(1) E by auto
  ultimately have "table_ok V st'" unfolding table_ok_def by (intro conjI)
  with st'(4,5) fresh show ?thesis by (intro conjI)
qed

text \<open>The index under which a new record is found, and the index it stores.\<close>

lemma cb_data_new_index:
  assumes laws: "hash_laws H V" and new: "php_cb_data_new H fci o1 st = (a, st')"
    and small: "length (entries V (z_table st)) < 2 ^ 64"
  shows "(next_free V (z_table st), a) \<in> set (entries V (z_table st'))"
    and "\<exists>cb. z_cbs st' a = Some cb \<and> cb_fci cb = fci \<and> cb_oneshot cb = o1 \<and>
      cb_h cb = length (entries V (z_table st))"
proof -
  have *: "entries V (z_table st') = entries V (z_table st) @ [(next_free V (z_table st), a)]"
    "z_cbs st' a = Some \<lparr>cb_fci = fci, cb_oneshot = o1,
       cb_h = nat ((int (hash_num_elements H (z_table st')) - 1) mod 2 ^ 64)\<rparr>"
    using new by (auto simp: php_cb_data_new_def Let_def hash_lawsD [OF laws])
  then show "(next_free V (z_table st), a) \<in> set (entries V (z_table st'))" by simp
  have "int (length (entries V (z_table st))) mod 2 ^ 64 = int (length (entries V (z_table st)))"
    using small by (intro mod_pos_pos_trivial) auto
  with * show "\<exists>cb. z_cbs st' a = Some cb \<and> cb_fci cb = fci \<and> cb_oneshot cb = o1 \<and>
      cb_h cb = length (entries V (z_table st))"
    by (simp add: hash_lawsD [OF laws])
qed

lemma callbacks_del_cases:
  assumes laws: "hash_laws H V" and ok: "table_ok V st"
  shows "\<exists>st'. callbacks_del H i st = Ret st' \<and> table_ok V st' \<and> z_objs st' = z_objs st \<and>
    z_world st' = z_world st \<and> entries V (z_table st') = filter (\<lambda>e. fst e \<noteq> i) (entries V (z_table st)) \<and>
    next_free V (z_table st') = next_free V (z_table st) \<and>
    z_cbs st' = (case map_of (entries V (z_table st)) i of None \<Rightarrow> z_cbs st | Some a \<Rightarrow> (z_cbs st)(a := None)) \<and>
    z_fresh st' = z_fresh st"
proof -
  let ?E = "entries V (z_table st)"
  obtain removed t where d: "hash_index_del H i (z_table st) = (removed, t)" by fastforce
  then have rm: "removed = map_of ?E i" and E: "entries V t = filter (\<lambda>e. fst e \<noteq> i) ?E"
    "next_free V t = next_free V (z_table st)" and ind: "indices_ok V t"
    using hash_lawsD(6-8) [OF laws, of i "z_table st"] indices_ok_del [OF laws table_ok_parts(1) [OF ok], of i]
    by simp_all
  have dist: "distinct (map snd (filter (\<lambda>e. fst e \<noteq> i) ?E))"
    using table_ok_parts(2) [OF ok] by (rule distinct_map_filter)
  show ?thesis
  proof (cases removed)
    case None
    with rm have "i \<notin> fst ` set ?E" by (metis map_of_eq_None_iff)
    then have "filter (\<lambda>e. fst e \<noteq> i) ?E = ?E" by (force simp: filter_id_conv)
    with E have E': "entries V t = ?E" by simp
    have "callbacks_del H i st = Ret (st\<lparr>z_table := t\<rparr>)"
      using None d by (simp add: callbacks_del_def php_cb_data_destroy_def)
    moreover have "table_ok V (st\<lparr>z_table := t\<rparr>)"
      using ind table_ok_parts(2-4) [OF ok] unfolding table_ok_def by (simp add: E')
    ultimately show ?thesis using E rm None by simp
  next
    case (Some a)
    with rm have in_E: "(i, a) \<in> set ?E" by (simp add: map_of_SomeD)
    with table_okD [OF ok] obtain cb where "z_cbs st a = Some cb" by blast
    then have del: "callbacks_del H i st = Ret (st\<lparr>z_table := t, z_cbs := (z_cbs st)(a := None)\<rparr>)"
      using d Some by (simp add: callbacks_del_def php_cb_data_destroy_def)
    have inj: "inj_on fst (set ?E)" "inj_on snd (set ?E)"
      using table_ok_parts(1,2) [OF ok] by (simp_all add: indices_ok_def distinct_map)
    have "set (filter (\<lambda>e. fst e \<noteq> i) ?E) = set ?E - {(i, a)}"
      using in_E inj_onD [OF inj(1)] by (auto simp: prod_eq_iff)
    then have "snd ` set (filter (\<lambda>e. fst e \<noteq> i) ?E) = snd ` set ?E - {a}"
      using in_E inj_on_image_set_diff [OF inj(2), of "set ?E" "{(i, a)}"] by simp
    moreover have "{b. ((z_cbs st)(a := None)) b \<noteq> None} = {b. z_cbs st b \<noteq> None} - {a}" by auto
    moreover have "{b. z_cbs st b \<noteq> None} = snd ` set ?E" "\<forall>b. z_cbs st b \<noteq> None \<longrightarrow> b < z_fresh st"
      by (rule table_ok_parts [OF ok])+
    ultimately have "table_ok V (st\<lparr>z_table := t, z_cbs := (z_cbs st)(a := None)\<rparr>)"
      unfolding table_ok_def using ind E dist by simp
    moreover have "map_of ?E i = Some a" using rm Some by simp
    ultimately show ?thesis using del E by simp
  qed
qed

lemma destroy_all_Ret:
  "distinct as \<Longrightarrow> (\<forall>a\<in>set as. z_cbs st a \<noteq> None) \<Longrightarrow>
    destroy_all as st = Ret (st\<lparr>z_cbs := (\<lambda>a. if a \<in> set as then None else z_cbs st a)\<rparr>)"
proof (induction as arbitrary: st)
  case Nil
  then show ?case by simp
next
  case (Cons a as)
  let ?st = "st\<lparr>z_cbs := (z_cbs st)(a := None)\<rparr>"
  have "\<forall>b\<in>set as. z_cbs ?st b \<noteq> None" using Cons.prems by auto
  with Cons have "destroy_all as ?st = Ret (?st\<lparr>z_cbs := (\<lambda>b. if b \<in> set as then None else z_cbs ?st b)\<rparr>)"
    by auto
  moreover have "(\<lambda>b. if b \<in> set as then None else z_cbs ?st b) =
      (\<lambda>b. if b \<in> set (a # as) then None else z_cbs st b)" by auto
  ultimately show ?case using Cons.prems by (auto simp: php_cb_data_destroy_def)
qed

text \<open>A record released while it is in the table is released again by the cleaning.\<close>

lemma destroy_all_dead: "a \<in> set as \<Longrightarrow> z_cbs st a = None \<Longrightarrow> \<exists>e. destroy_all as st = Fault e"
proof (induction as arbitrary: st)
  case Nil
  then show ?case by simp
next
  case (Cons b as)
  show ?case
  proof (cases "z_cbs st b")
    case None
    then show ?thesis by (simp add: php_cb_data_destroy_def)
  next
    case (Some cb)
    with Cons.prems have "a \<in> set as" "z_cbs (st\<lparr>z_cbs := (z_cbs st)(b := None)\<rparr>) a = None" by auto
    from Cons.IH [OF this] Some show ?thesis by (simp add: php_cb_data_destroy_def)
  qed
qed

lemma destroy_all_fault: "destroy_all as st = Fault e \<Longrightarrow> e = DoubleFree"
  by (induction as arbitrary: st) (auto simp: php_cb_data_destroy_def split: option.splits)

lemma rshutdown_ok:
  assumes laws: "hash_laws H V" and ok: "table_ok V st"
  shows "\<exists>st'. rshutdown_zookeeper H st = Ret st' \<and> z_cbs st' = (\<lambda>_. None) \<and> entries V (z_table st') = [] \<and>
    z_objs st' = z_objs st \<and> table_ok V st'"
proof -
  let ?as = "map snd (entries V (z_table st))"
  obtain removed t where c: "hash_clean H (z_table st) = (removed, t)" by fastforce
  then have rm: "removed = ?as" "entries V t = []" "next_free V t = 0"
    using hash_lawsD(9-11) [OF laws, of "z_table st"] by simp_all
  have live: "{a. z_cbs st a \<noteq> None} = set ?as" "distinct ?as" using ok by (auto simp: table_ok_def)
  then have "\<forall>a\<in>set ?as. z_cbs st a \<noteq> None" by blast
  then have "\<forall>a\<in>set ?as. z_cbs (st\<lparr>z_table := t\<rparr>) a \<noteq> None" by simp
  from destroy_all_Ret [OF live(2) this] have "destroy_all ?as (st\<lparr>z_table := t\<rparr>) =
      Ret (st\<lparr>z_table := t, z_cbs := (\<lambda>a. if a \<in> set ?as then None else z_cbs st a)\<rparr>)" by (simp cong: if_cong)
  moreover have "(\<lambda>a. if a \<in> set ?as then None else z_cbs st a) = (\<lambda>_. None)"
  proof
    fix a show "(if a \<in> set ?as then None else z_cbs st a) = None"
      using live(1) by (cases "z_cbs st a = None") auto
  qed
  ultimately show ?thesis
    using c rm by (simp add: rshutdown_zookeeper_def table_ok_def indices_ok_def)
qed

lemma rshutdown_double_free:
  assumes laws: "hash_laws H V" and "(i, a) \<in> set (entries V (z_table st))" "z_cbs st a = None"
  shows "rshutdown_zookeeper H st = Fault DoubleFree"
proof -
  obtain removed t where c: "hash_clean H (z_table st) = (removed, t)" by fastforce
  with assms(2) have "a \<in> set removed" using hash_lawsD(9) [OF laws, of "z_table st"] by force
  from destroy_all_dead [OF this, of "st\<lparr>z_table := t\<rparr>"] assms(3) obtain e
    where "destroy_all removed (st\<lparr>z_table := t\<rparr>) = Fault e" by auto
  with destroy_all_fault [OF this] c show ?thesis by (simp add: rshutdown_zookeeper_def)
qed

end
