(* ===== verification/Zookeeper_Class.thy ===== *)
theory Zookeeper_Class
  imports Acl_Stat Callbacks
begin

text \<open>
  The methods of the PHP class \<open>Zookeeper\<close> in \<open>php_zookeeper.c\<close>, one definition each. A
  method gets its parsed arguments, \<open>None\<close> where \<open>zend_parse_parameters\<close> fails, the
  object \<open>this\<close>, and the state; it gives the returned value, the value written to a by-reference
  \<open>stat_info\<close>, the warnings raised, and the new state. A callback argument is the PHP function,
  \<open>None\<close> where \<open>fci.size\<close> is 0. Paths and other \<open>char *\<close> arguments reach the library
  as C strings; \<open>long\<close> arguments that the library takes as \<open>int\<close> are converted.
\<close>

datatype php_warning = NotConnected | BadTimeout | ZError int

record php_result =
  r_value :: zval
  r_stat :: "zval option"
  r_warnings :: "php_warning list"

type_synonym ('w, 'h) reply = "(php_result \<times> ('w, 'h) zk_state) outcome"

definition returns :: "zval \<Rightarrow> ('w, 'h) zk_state \<Rightarrow> ('w, 'h) reply" where
  "returns v st = Ret (\<lparr>r_value = v, r_stat = None, r_warnings = []\<rparr>, st)"

definition returns_stat :: "zval \<Rightarrow> zval option \<Rightarrow> ('w, 'h) zk_state \<Rightarrow> ('w, 'h) reply" where
  "returns_stat v s st = Ret (\<lparr>r_value = v, r_stat = s, r_warnings = []\<rparr>, st)"

text \<open>A warning and a return that leaves \<open>return_value\<close> null, or sets it.\<close>

definition warns :: "php_warning \<Rightarrow> zval \<Rightarrow> ('w, 'h) zk_state \<Rightarrow> ('w, 'h) reply" where
  "warns e v st = Ret (\<lparr>r_value = v, r_stat = None, r_warnings = [e]\<rparr>, st)"

section \<open>The common frame of the methods\<close>

definition with_args :: "'a option \<Rightarrow> ('w, 'h) zk_state \<Rightarrow> ('a \<Rightarrow> ('w, 'h) reply) \<Rightarrow> ('w, 'h) reply" where
  "with_args args st body = (case args of None \<Rightarrow> returns ZNull st | Some a \<Rightarrow> body a)"

text \<open>\<open>ZK_METHOD_FETCH_OBJECT\<close>\<close>

definition fetch_object ::
  "nat \<Rightarrow> ('w, 'h) zk_state \<Rightarrow> (php_zk_t \<Rightarrow> zhandle \<Rightarrow> ('w, 'h) reply) \<Rightarrow> ('w, 'h) reply" where
  "fetch_object this st body = (case z_objs st this of
     None \<Rightarrow> Fault UseAfterFree
   | Some i_obj \<Rightarrow> (case o_zk i_obj of
       None \<Rightarrow> warns NotConnected ZNull st | Some zh \<Rightarrow> body i_obj zh))"

definition new_callback ::
  "'h hash_api \<Rightarrow> nat option \<Rightarrow> bool \<Rightarrow> ('w, 'h) zk_state \<Rightarrow> nat option \<times> ('w, 'h) zk_state" where
  "new_callback H fci oneshot st = (case fci of
     None \<Rightarrow> (None, st) | Some f \<Rightarrow> (let (a, st') = php_cb_data_new H f oneshot st in (Some a, st')))"

abbreviation php_watch :: "nat option \<Rightarrow> watcher option" where
  "php_watch cb \<equiv> map_option PhpWatcher cb"

text \<open>The error exit of the watched calls: release the record, warn, return.\<close>

definition failed_watch :: "int \<Rightarrow> zval \<Rightarrow> nat option \<Rightarrow> ('w, 'h) zk_state \<Rightarrow> ('w, 'h) reply" where
  "failed_watch status v cb st = obind (php_cb_data_destroy cb st) (\<lambda>st'. warns (ZError status) v st')"

section \<open>Connecting\<close>

definition php_zookeeper_connect_impl ::
  "'h hash_api \<Rightarrow> 'w zk_api \<Rightarrow> nat \<Rightarrow> string \<Rightarrow> nat option \<Rightarrow> int \<Rightarrow> ('w, 'h) zk_state \<Rightarrow> ('w, 'h) reply" where
  "php_zookeeper_connect_impl H api this host fci recv_timeout st =
     (if recv_timeout \<le> 0 then warns BadTimeout ZNull (st\<lparr>z_nulled := z_nulled st @ [this]\<rparr>)
      else case z_objs st this of
        None \<Rightarrow> Fault UseAfterFree
      | Some i_obj \<Rightarrow>
          let (cb_data, st1) = new_callback H fci False st;
              (zk, w1) = zookeeper_init api (c_str host) (php_watch cb_data) (to_int32 recv_timeout) (z_world st1)
          in case zk of
               None \<Rightarrow> Bailout ''could not init zookeeper instance''
             | Some zh \<Rightarrow> returns ZNull (st1\<lparr>z_world := w1,
                 z_objs := (z_objs st1)(this \<mapsto> i_obj\<lparr>o_zk := Some zh, o_cb_data := cb_data\<rparr>)\<rparr>))"

text \<open>\<open>recv_timeout\<close> is the given one or the module's setting.\<close>

definition zookeeper_connect ::
  "'h hash_api \<Rightarrow> 'w zk_api \<Rightarrow> int \<Rightarrow> nat \<Rightarrow> (string \<times> nat option \<times> int option) option \<Rightarrow>
   ('w, 'h) zk_state \<Rightarrow> ('w, 'h) reply" where
  "zookeeper_connect H api g_timeout this args st = with_args args st (\<lambda>(host, fci, timeout).
     php_zookeeper_connect_impl H api this host fci (case timeout of None \<Rightarrow> g_timeout | Some t \<Rightarrow> t) st)"

definition zookeeper_construct ::
  "'h hash_api \<Rightarrow> 'w zk_api \<Rightarrow> int \<Rightarrow> nat \<Rightarrow> (string option \<times> nat option \<times> int option) option \<Rightarrow>
   ('w, 'h) zk_state \<Rightarrow> ('w, 'h) reply" where
  "zookeeper_construct H api g_timeout this args st = (case args of
     None \<Rightarrow> returns ZNull (st\<lparr>z_nulled := z_nulled st @ [this]\<rparr>)
   | Some (host, fci, timeout) \<Rightarrow> (case host of
       None \<Rightarrow> returns ZNull st
     | Some h \<Rightarrow> if length h > 0
         then php_zookeeper_connect_impl H api this h fci (case timeout of None \<Rightarrow> g_timeout | Some t \<Rightarrow> t) st
         else returns ZNull st))"

section \<open>Nodes\<close>

definition zookeeper_create ::
  "zend_conv \<Rightarrow> 'w zk_api \<Rightarrow> nat \<Rightarrow> (string \<times> string option \<times> zarray option \<times> int) option \<Rightarrow>
   ('w, 'h) zk_state \<Rightarrow> ('w, 'h) reply" where
  "zookeeper_create C api this args st = with_args args st (\<lambda>(path, val, acl_info, flags).
     fetch_object this st (\<lambda>i_obj zh.
       let realpath_max = length path + 1 + (if and flags ZOO_SEQUENCE \<noteq> 0 then 11 else 0);
           value_len = (case val of None \<Rightarrow> -1 | Some v \<Rightarrow> int (length v));
           aclv = php_parse_acl_list C acl_info (Some [])
       in obind (case acl_info of None \<Rightarrow> Ret None | Some _ \<Rightarrow> obind (read_aclv aclv) (\<lambda>es. Ret (Some es))) (\<lambda>acl.
            let ((status, realpath), w1) = zoo_create api zh (c_str path) val value_len acl
                  (to_int32 flags) realpath_max (z_world st);
                st1 = st\<lparr>z_world := w1\<rparr>
            in if status \<noteq> ZOK then warns (ZError status) ZNull st1
               else returns (ZString realpath) st1)))"

definition zookeeper_delete ::
  "'w zk_api \<Rightarrow> nat \<Rightarrow> (string \<times> int option) option \<Rightarrow> ('w, 'h) zk_state \<Rightarrow> ('w, 'h) reply" where
  "zookeeper_delete api this args st = with_args args st (\<lambda>(path, version).
     fetch_object this st (\<lambda>i_obj zh.
       let (status, w1) = zoo_delete api zh (c_str path)
             (to_int32 (case version of None \<Rightarrow> -1 | Some v \<Rightarrow> v)) (z_world st);
           st1 = st\<lparr>z_world := w1\<rparr>
       in if status \<noteq> ZOK then warns (ZError status) ZNull st1 else returns (ZBool True) st1))"

definition zookeeper_getChildren ::
  "'h hash_api \<Rightarrow> 'w zk_api \<Rightarrow> nat \<Rightarrow> (string \<times> nat option) option \<Rightarrow> ('w, 'h) zk_state \<Rightarrow> ('w, 'h) reply" where
  "zookeeper_getChildren H api this args st = with_args args st (\<lambda>(path, fci).
     fetch_object this st (\<lambda>i_obj zh.
       let (cb_data, st1) = new_callback H fci True st;
           ((status, strings), w1) = zoo_wget_children api zh (c_str path) (php_watch cb_data) (z_world st1);
           st2 = st1\<lparr>z_world := w1\<rparr>
       in if status \<noteq> ZOK then failed_watch status ZNull cb_data st2
          else returns (ZArray (fold (\<lambda>s a. add_next_index a (ZString s)) strings [])) st2))"

text \<open>
  The reading half of \<open>get\<close>: the buffer has \<open>length + 1\<close> bytes, and the terminating byte is
  written at the length that the library reports, before the status is looked at.
\<close>

definition get_data ::
  "'w zk_api \<Rightarrow> zhandle \<Rightarrow> string \<Rightarrow> nat option \<Rightarrow> bool \<Rightarrow> int \<Rightarrow> ('w, 'h) zk_state \<Rightarrow> ('w, 'h) reply" where
  "get_data api zh path cb_data stat_info len st =
     (if len + 1 \<ge> 2 ^ 31 then Fault SignedOverflow
      else let ((status, buffer, len', stat), w1) = zoo_wget api zh path (php_watch cb_data) len (z_world st);
               st1 = st\<lparr>z_world := w1\<rparr>
           in if len' < 0 \<or> len < len' then Fault OutOfBounds
              else if status \<noteq> ZOK
              then failed_watch status (if status = ZMARSHALLINGERROR then ZBool False else ZNull) cb_data st1
              else returns_stat (if len' = -1 then ZNull else ZString (take (nat len') buffer))
                     (if stat_info then Some (ZArray (php_stat_to_array stat)) else None) st1)"

definition zookeeper_get ::
  "'h hash_api \<Rightarrow> 'w zk_api \<Rightarrow> nat \<Rightarrow> (string \<times> nat option \<times> bool \<times> int) option \<Rightarrow>
   ('w, 'h) zk_state \<Rightarrow> ('w, 'h) reply" where
  "zookeeper_get H api this args st = with_args args st (\<lambda>(path, fci, stat_info, max_size).
     fetch_object this st (\<lambda>i_obj zh.
       let (cb_data, st1) = new_callback H fci True st
       in if max_size \<le> 0 then
            let ((status, stat), w1) = zoo_exists api zh (c_str path) True (z_world st1);
                st2 = st1\<lparr>z_world := w1\<rparr>
            in if status \<noteq> ZOK then failed_watch status ZNull cb_data st2
               else if stat_dataLength stat \<le> 0 then returns ZNull st2
               else get_data api zh (c_str path) cb_data stat_info (stat_dataLength stat) st2
          else if to_int32 max_size \<le> 0 then returns ZNull st1
          else get_data api zh (c_str path) cb_data stat_info (to_int32 max_size) st1))"

definition zookeeper_exists ::
  "'h hash_api \<Rightarrow> 'w zk_api \<Rightarrow> nat \<Rightarrow> (string \<times> nat option) option \<Rightarrow> ('w, 'h) zk_state \<Rightarrow> ('w, 'h) reply" where
  "zookeeper_exists H api this args st = with_args args st (\<lambda>(path, fci).
     fetch_object this st (\<lambda>i_obj zh.
       let (cb_data, st1) = new_callback H fci True st;
           ((status, stat), w1) = zoo_wexists api zh (c_str path) (php_watch cb_data) (z_world st1);
           st2 = st1\<lparr>z_world := w1\<rparr>
       in if status \<noteq> ZOK \<and> status \<noteq> ZNONODE then failed_watch status ZNull cb_data st2
          else if status = ZOK then returns (ZArray (php_stat_to_array stat)) st2
          else returns (ZBool False) st2))"

definition zookeeper_set ::
  "'w zk_api \<Rightarrow> nat \<Rightarrow> (string \<times> string option \<times> int option \<times> bool) option \<Rightarrow>
   ('w, 'h) zk_state \<Rightarrow> ('w, 'h) reply" where
  "zookeeper_set api this args st = with_args args st (\<lambda>(path, val, version, stat_info).
     fetch_object this st (\<lambda>i_obj zh.
       let value_len = (case val of None \<Rightarrow> -1 | Some v \<Rightarrow> int (length v));
           ((status, stat), w1) = zoo_set2 api zh (c_str path) val value_len
             (to_int32 (case version of None \<Rightarrow> -1 | Some v \<Rightarrow> v)) (z_world st);
           st1 = st\<lparr>z_world := w1\<rparr>
       in if status \<noteq> ZOK then warns (ZError status) ZNull st1
          else returns_stat (ZBool True)
                 (if stat_info then Some (ZArray (php_stat_to_array stat)) else None) st1))"

section \<open>Connection data and ACLs\<close>

text \<open>\<open>passwd\<close> is an array of 16 bytes that is read as a C string.\<close>

definition zookeeper_getClientId ::
  "'w zk_api \<Rightarrow> nat \<Rightarrow> unit option \<Rightarrow> ('w, 'h) zk_state \<Rightarrow> ('w, 'h) reply" where
  "zookeeper_getClientId api this args st = with_args args st (\<lambda>_.
     fetch_object this st (\<lambda>i_obj zh.
       let (client_id, passwd) = zoo_client_id api zh (z_world st)
       in if CHR 0x00 \<notin> set passwd then Fault OutOfBounds
          else returns (ZArray (add_next_index (add_next_index [] (ZLong (sint client_id)))
                 (ZString (c_str passwd)))) st))"

definition zookeeper_getAcl ::
  "'w zk_api \<Rightarrow> nat \<Rightarrow> string option \<Rightarrow> ('w, 'h) zk_state \<Rightarrow> ('w, 'h) reply" where
  "zookeeper_getAcl api this args st = with_args args st (\<lambda>path.
     fetch_object this st (\<lambda>i_obj zh.
       let ((status, aclv, stat), w1) = zoo_get_acl api zh (c_str path) (z_world st);
           st1 = st\<lparr>z_world := w1\<rparr>
       in if status \<noteq> ZOK then warns (ZError status) ZNull st1
          else returns (ZArray (add_next_index (add_next_index [] (ZArray (php_stat_to_array stat)))
                 (ZArray (php_aclv_to_array aclv)))) st1))"

definition zookeeper_setAcl ::
  "zend_conv \<Rightarrow> 'w zk_api \<Rightarrow> nat \<Rightarrow> (string \<times> int \<times> zarray) option \<Rightarrow>
   ('w, 'h) zk_state \<Rightarrow> ('w, 'h) reply" where
  "zookeeper_setAcl C api this args st = with_args args st (\<lambda>(path, version, acl_info).
     fetch_object this st (\<lambda>i_obj zh.
       let aclv = php_parse_acl_list C (Some acl_info) None
       in obind (read_aclv aclv) (\<lambda>es.
            let (status, w1) = zoo_set_acl api zh (c_str path) (to_int32 version) es (z_world st);
                st1 = st\<lparr>z_world := w1\<rparr>
            in obind (php_aclv_destroy aclv) (\<lambda>_.
                 if status \<noteq> ZOK then warns (ZError status) ZNull st1 else returns (ZBool True) st1))))"

definition zookeeper_getState ::
  "'w zk_api \<Rightarrow> nat \<Rightarrow> unit option \<Rightarrow> ('w, 'h) zk_state \<Rightarrow> ('w, 'h) reply" where
  "zookeeper_getState api this args st = with_args args st (\<lambda>_.
     fetch_object this st (\<lambda>i_obj zh. returns (ZLong (zoo_state api zh (z_world st))) st))"

definition zookeeper_getRecvTimeout ::
  "'w zk_api \<Rightarrow> nat \<Rightarrow> unit option \<Rightarrow> ('w, 'h) zk_state \<Rightarrow> ('w, 'h) reply" where
  "zookeeper_getRecvTimeout api this args st = with_args args st (\<lambda>_.
     fetch_object this st (\<lambda>i_obj zh. returns (ZLong (zoo_recv_timeout api zh (z_world st))) st))"

definition zookeeper_isRecoverable ::
  "'w zk_api \<Rightarrow> nat \<Rightarrow> unit option \<Rightarrow> ('w, 'h) zk_state \<Rightarrow> ('w, 'h) reply" where
  "zookeeper_isRecoverable api this args st = with_args args st (\<lambda>_.
     fetch_object this st (\<lambda>i_obj zh. returns (ZBool (is_unrecoverable api zh (z_world st) = 0)) st))"

definition zookeeper_setDebugLevel ::
  "'w zk_api \<Rightarrow> int option \<Rightarrow> ('w, 'h) zk_state \<Rightarrow> ('w, 'h) reply" where
  "zookeeper_setDebugLevel api args st = with_args args st (\<lambda>level.
     returns (ZBool True) (st\<lparr>z_world := zoo_set_debug_level api (to_int32 level) (z_world st)\<rparr>))"

definition zookeeper_setDeterministicConnOrder ::
  "'w zk_api \<Rightarrow> bool option \<Rightarrow> ('w, 'h) zk_state \<Rightarrow> ('w, 'h) reply" where
  "zookeeper_setDeterministicConnOrder api args st = with_args args st (\<lambda>v.
     returns (ZBool True) (st\<lparr>z_world := zoo_deterministic_conn_order api v (z_world st)\<rparr>))"

definition zookeeper_addAuth ::
  "'h hash_api \<Rightarrow> 'w zk_api \<Rightarrow> nat \<Rightarrow> (string \<times> string \<times> nat option) option \<Rightarrow>
   ('w, 'h) zk_state \<Rightarrow> ('w, 'h) reply" where
  "zookeeper_addAuth H api this args st = with_args args st (\<lambda>(scheme, cert, fci).
     fetch_object this st (\<lambda>i_obj zh.
       let (cb_data, st1) = new_callback H fci False st;
           (status, w1) = zoo_add_auth api zh (c_str scheme) cert cb_data (z_world st1);
           st2 = st1\<lparr>z_world := w1\<rparr>
       in if status \<noteq> ZOK then warns (ZError status) ZNull st2 else returns (ZBool True) st2))"

definition zookeeper_setWatcher ::
  "'h hash_api \<Rightarrow> 'w zk_api \<Rightarrow> nat \<Rightarrow> nat option \<Rightarrow> ('w, 'h) zk_state \<Rightarrow> ('w, 'h) reply" where
  "zookeeper_setWatcher H api this args st = with_args args st (\<lambda>fci.
     fetch_object this st (\<lambda>i_obj zh.
       obind (drop_object_callback H i_obj st) (\<lambda>st1.
         let (a, st2) = php_cb_data_new H fci False st1
         in returns (ZBool True) (st2\<lparr>z_world := zoo_set_watcher api zh (z_world st2),
              z_objs := (z_objs st2)(this \<mapsto> i_obj\<lparr>o_cb_data := Some a\<rparr>)\<rparr>))))"

section \<open>The log stream\<close>

text \<open>The engine's streams and \<open>zoo_set_log_stream\<close>, which the sources only call.\<close>

record 'w log_api =
  stream_from_resource :: "nat \<Rightarrow> 'w \<Rightarrow> nat option \<times> 'w"
  stream_open_wrapper :: "string \<Rightarrow> 'w \<Rightarrow> nat option \<times> 'w"
  stream_cast_stdio :: "nat \<Rightarrow> 'w \<Rightarrow> nat option \<times> 'w"
  zoo_set_log_stream :: "nat \<Rightarrow> 'w \<Rightarrow> 'w"
  stream_free_casted :: "nat \<Rightarrow> 'w \<Rightarrow> 'w"

definition zookeeper_setLogStream ::
  "zend_conv \<Rightarrow> 'w log_api \<Rightarrow> zval option \<Rightarrow> ('w, 'h) zk_state \<Rightarrow> ('w, 'h) reply" where
  "zookeeper_setLogStream C L args st = with_args args st (\<lambda>zstream.
     let (stream, w1) = (case zstream of
            ZResource r \<Rightarrow> stream_from_resource L r (z_world st)
          | v \<Rightarrow> stream_open_wrapper L (c_str (to_str C v)) (z_world st))
     in case stream of
          None \<Rightarrow> returns (ZBool False) (st\<lparr>z_world := w1\<rparr>)
        | Some s \<Rightarrow>
            let (fp, w2) = stream_cast_stdio L s w1
            in case fp of
                 None \<Rightarrow> returns (ZBool False) (st\<lparr>z_world := w2\<rparr>)
               | Some f \<Rightarrow>
                   let w3 = zoo_set_log_stream L f w2;
                       w4 = (case zstream of ZResource _ \<Rightarrow> stream_free_casted L s w3 | _ \<Rightarrow> w3)
                   in returns (ZBool True) (st\<lparr>z_world := w4\<rparr>))"

end
