(* ===== verification/Request.thy ===== *)
theory Request
  imports Zookeeper_Class
begin

text \<open>
  What the methods do to the callback records, and the states one request can reach: objects are
  made and destroyed, methods are called, the library delivers events, and the PHP function that an
  event runs may do all of this again before it returns. Calls that change only the world are one
  kind of step. The watched calls that fail are left out: they are treated on their own.
\<close>

section \<open>A contract that the methods share\<close>

text \<open>
  Every method that talks to the server fails softly: with bad arguments, or before
  \<open>connect\<close>, it returns null and changes nothing.
\<close>

locale guarded_method =
  fixes act :: "'a option \<Rightarrow> ('w, 'h) zk_state \<Rightarrow> ('w, 'h) reply" and this :: nat
  assumes parse_failure: "act None st = returns ZNull st"
    and not_connected: "z_objs st this = Some i_obj \<Longrightarrow> o_zk i_obj = None \<Longrightarrow>
      act (Some a) st = warns NotConnected ZNull st"
begin

lemma soft_failure:
  assumes "args = None \<or> (\<exists>i_obj. z_objs st this = Some i_obj \<and> o_zk i_obj = None)"
  shows "\<exists>r. act args st = Ret (r, st) \<and> r_value r = ZNull \<and> r_stat r = None \<and>
    r_warnings r = (if args = None then [] else [NotConnected])"
  using assms parse_failure not_connected
  by (cases args) (auto simp: returns_def warns_def)

end

lemmas guard_defs = with_args_def fetch_object_def

interpretation create: guarded_method "zookeeper_create C api this" this for C api this
  by unfold_locales (auto simp: zookeeper_create_def guard_defs)

interpretation delete: guarded_method "zookeeper_delete api this" this for api this
  by unfold_locales (auto simp: zookeeper_delete_def guard_defs)

interpretation getChildren: guarded_method "zookeeper_getChildren H api this" this for H api this
  by unfold_locales (auto simp: zookeeper_getChildren_def guard_defs)

interpretation get: guarded_method "zookeeper_get H api this" this for H api this
  by unfold_locales (auto simp: zookeeper_get_def guard_defs)

interpretation exists: guarded_method "zookeeper_exists H api this" this for H api this
  by unfold_locales (auto simp: zookeeper_exists_def guard_defs)

interpretation set: guarded_method "zookeeper_set api this" this for api this
  by unfold_locales (auto simp: zookeeper_set_def guard_defs)

interpretation getClientId: guarded_method "zookeeper_getClientId api this" this for api this
  by unfold_locales (auto simp: zookeeper_getClientId_def guard_defs)

interpretation getAcl: guarded_method "zookeeper_getAcl api this" this for api this
  by unfold_locales (auto simp: zookeeper_getAcl_def guard_defs)

interpretation setAcl: guarded_method "zookeeper_setAcl C api this" this for C api this
  by unfold_locales (auto simp: zookeeper_setAcl_def guard_defs)

interpretation getState: guarded_method "zookeeper_getState api this" this for api this
  by unfold_locales (auto simp: zookeeper_getState_def guard_defs)

interpretation getRecvTimeout: guarded_method "zookeeper_getRecvTimeout api this" this for api this
  by unfold_locales (auto simp: zookeeper_getRecvTimeout_def guard_defs)

interpretation isRecoverable: guarded_method "zookeeper_isRecoverable api this" this for api this
  by unfold_locales (auto simp: zookeeper_isRecoverable_def guard_defs)

interpretation addAuth: guarded_method "zookeeper_addAuth H api this" this for H api this
  by unfold_locales (auto simp: zookeeper_addAuth_def guard_defs)

interpretation setWatcher: guarded_method "zookeeper_setWatcher H api this" this for H api this
  by unfold_locales (auto simp: zookeeper_setWatcher_def guard_defs)

section \<open>Methods and the table\<close>

lemma table_ok_frame [simp]:
  "table_ok V (st\<lparr>z_world := w\<rparr>) = table_ok V st" "table_ok V (st\<lparr>z_objs := ob\<rparr>) = table_ok V st"
  "table_ok V (st\<lparr>z_nulled := n\<rparr>) = table_ok V st" "table_ok V (st\<lparr>z_next_obj := k\<rparr>) = table_ok V st"
  by (simp_all add: table_ok_def)

lemma new_callback_ok:
  assumes "hash_laws H V" "table_ok V st" "new_callback H fci o1 st = (cb, st')"
  shows "table_ok V st' \<and> z_world st' = z_world st \<and> z_objs st' = z_objs st"
  using assms cb_data_new_ok [OF assms(1,2)]
  by (auto simp: new_callback_def split: option.splits prod.splits)

definition no_zerror :: "php_result \<Rightarrow> bool" where
  "no_zerror r \<longleftrightarrow> (\<forall>e. ZError e \<notin> set (r_warnings r))"

lemma failed_watch_zerror: "failed_watch status v cb st = Ret (r, st') \<Longrightarrow> \<not> no_zerror r"
  by (auto simp: failed_watch_def warns_def obind_eq_Ret no_zerror_def)

lemmas reply_defs = returns_def returns_stat_def warns_def

lemma get_data_ok:
  assumes "get_data api zh path cb si len st = Ret (r, st')" "no_zerror r" "table_ok V st"
  shows "table_ok V st'"
  using assms
  by (auto simp: get_data_def Let_def reply_defs dest: failed_watch_zerror split: if_splits prod.splits)

lemma method_ok:
  assumes laws: "hash_laws H V" and ok: "table_ok V st"
  shows "php_zookeeper_connect_impl H api this host fci timeout st = Ret (r, st') \<Longrightarrow> table_ok V st'"
    and "zookeeper_getChildren H api this args1 st = Ret (r, st') \<Longrightarrow> no_zerror r \<Longrightarrow> table_ok V st'"
    and "zookeeper_get H api this args2 st = Ret (r, st') \<Longrightarrow> no_zerror r \<Longrightarrow> table_ok V st'"
    and "zookeeper_exists H api this args3 st = Ret (r, st') \<Longrightarrow> no_zerror r \<Longrightarrow> table_ok V st'"
    and "zookeeper_addAuth H api this args4 st = Ret (r, st') \<Longrightarrow> table_ok V st'"
proof -
  note new = new_callback_ok [OF laws ok]
  show "table_ok V st'" if "php_zookeeper_connect_impl H api this host fci timeout st = Ret (r, st')"
    using that ok new
    by (auto simp: php_zookeeper_connect_impl_def reply_defs Let_def split: if_splits option.splits prod.splits)
  show "table_ok V st'" if "zookeeper_addAuth H api this args4 st = Ret (r, st')"
    using that ok new
    by (auto simp: zookeeper_addAuth_def guard_defs reply_defs Let_def split: if_splits option.splits prod.splits)
  show "table_ok V st'" if "zookeeper_getChildren H api this args1 st = Ret (r, st')" "no_zerror r"
    using that ok new
    by (auto simp: zookeeper_getChildren_def guard_defs reply_defs Let_def dest: failed_watch_zerror
      split: if_splits option.splits prod.splits)
  show "table_ok V st'" if "zookeeper_exists H api this args3 st = Ret (r, st')" "no_zerror r"
    using that ok new
    by (auto simp: zookeeper_exists_def guard_defs reply_defs Let_def dest: failed_watch_zerror
      split: if_splits option.splits prod.splits)
  show "table_ok V st'" if "zookeeper_get H api this args2 st = Ret (r, st')" "no_zerror r"
    using that ok
    by (auto simp: zookeeper_get_def guard_defs reply_defs Let_def dest: failed_watch_zerror dest!: new
      elim!: get_data_ok split: if_splits option.splits prod.splits)
qed

lemma drop_object_callback_ok:
  assumes laws: "hash_laws H V" and ok: "table_ok V st" and call: "drop_object_callback H i_obj st = Ret st'"
  shows "table_ok V st' \<and> z_objs st' = z_objs st \<and> z_world st' = z_world st"
proof (cases "o_cb_data i_obj")
  case None
  with call ok show ?thesis by (simp add: drop_object_callback_def)
next
  case (Some a)
  with call obtain cb :: php_cb_data_t where "callbacks_del H (cb_h cb) st = Ret st'"
    by (auto simp: drop_object_callback_def split: option.splits)
  with callbacks_del_cases [OF laws ok, of "cb_h cb"] show ?thesis by auto
qed

lemma setWatcher_ok:
  assumes laws: "hash_laws H V" and ok: "table_ok V st"
    and call: "zookeeper_setWatcher H api this args st = Ret (r, st')"
  shows "table_ok V st'"
proof (cases "\<exists>fci i_obj zh. args = Some fci \<and> z_objs st this = Some i_obj \<and> o_zk i_obj = Some zh")
  case False
  with call ok show ?thesis
    by (auto simp: zookeeper_setWatcher_def guard_defs reply_defs split: option.splits)
next
  case True
  then obtain fci i_obj zh where *: "args = Some fci" "z_objs st this = Some i_obj" "o_zk i_obj = Some zh" by blast
  with call obtain st1 where st1: "drop_object_callback H i_obj st = Ret st1"
    by (auto simp: zookeeper_setWatcher_def guard_defs obind_eq_Ret)
  obtain a st2 where st2: "php_cb_data_new H fci False st1 = (a, st2)" by fastforce
  have "table_ok V st1" using drop_object_callback_ok [OF laws ok st1] by simp
  from cb_data_new_ok [OF laws this st2] have "table_ok V st2" by simp
  with call * st1 st2 show ?thesis by (auto simp: zookeeper_setWatcher_def guard_defs returns_def)
qed

lemma zk_destroy_ok:
  assumes laws: "hash_laws H V" and ok: "table_ok V st"
    and call: "php_zk_free_storage H api this st = Ret st'"
  shows "table_ok V st'"
proof -
  from call obtain i_obj where ob: "z_objs st this = Some i_obj"
    by (cases "z_objs st this") (simp_all add: php_zk_free_storage_def php_zk_destroy_def)
  with call obtain st1 where st1: "drop_object_callback H i_obj st = Ret st1"
    "st' = st1\<lparr>z_world := (case o_zk i_obj of None \<Rightarrow> z_world st1 | Some zh \<Rightarrow> zookeeper_close api zh (z_world st1)),
       z_objs := (z_objs st1)(this := None)\<rparr>"
    by (auto simp: php_zk_free_storage_def php_zk_destroy_def obind_eq_Ret Let_def)
  from drop_object_callback_ok [OF laws ok st1(1)] st1(2) show ?thesis by simp
qed

lemma run_callback_ok:
  assumes laws: "hash_laws H V" and ok: "table_ok V st1"
    and call: "run_callback H (\<lambda>_ _ _. (res, st1)) params context st = Ret (b', st')"
  shows "table_ok V st'"
  using call
proof (cases rule: run_callback_Ret)
  case (1 a cb r st2 cb1)
  then show ?thesis
    using callbacks_del_cases [OF laws ok, of "cb_h cb1"] ok by (auto split: if_splits)
qed

section \<open>States of a request\<close>

text \<open>
  \<open>zk_run H api st st'\<close>: a part of a request leads from \<open>st\<close> to \<open>st'\<close>. In the two event
  rules the PHP function has taken the state from \<open>st1\<close> to \<open>st2\<close> by such a part itself.
\<close>

inductive zk_run :: "'h hash_api \<Rightarrow> 'w zk_api \<Rightarrow> ('w, 'h) zk_state \<Rightarrow> ('w, 'h) zk_state \<Rightarrow> bool"
  for H api where
  run_refl: "zk_run H api st st"
| run_new: "zk_run H api st st1 \<Longrightarrow> zk_run H api st (snd (php_zk_new st1))"
| run_free: "zk_run H api st st1 \<Longrightarrow> php_zk_free_storage H api this st1 = Ret st2 \<Longrightarrow> zk_run H api st st2"
| run_connect: "zk_run H api st st1 \<Longrightarrow>
    php_zookeeper_connect_impl H api this host fci timeout st1 = Ret (r, st2) \<Longrightarrow> zk_run H api st st2"
| run_getChildren: "zk_run H api st st1 \<Longrightarrow>
    zookeeper_getChildren H api this args1 st1 = Ret (r, st2) \<Longrightarrow> no_zerror r \<Longrightarrow> zk_run H api st st2"
| run_get: "zk_run H api st st1 \<Longrightarrow>
    zookeeper_get H api this args2 st1 = Ret (r, st2) \<Longrightarrow> no_zerror r \<Longrightarrow> zk_run H api st st2"
| run_exists: "zk_run H api st st1 \<Longrightarrow>
    zookeeper_exists H api this args3 st1 = Ret (r, st2) \<Longrightarrow> no_zerror r \<Longrightarrow> zk_run H api st st2"
| run_addAuth: "zk_run H api st st1 \<Longrightarrow>
    zookeeper_addAuth H api this args4 st1 = Ret (r, st2) \<Longrightarrow> zk_run H api st st2"
| run_setWatcher: "zk_run H api st st1 \<Longrightarrow>
    zookeeper_setWatcher H api this args5 st1 = Ret (r, st2) \<Longrightarrow> zk_run H api st st2"
| run_world: "zk_run H api st st1 \<Longrightarrow> zk_run H api st (st1\<lparr>z_world := w\<rparr>)"
| run_watcher: "zk_run H api st st1 \<Longrightarrow> zk_run H api st1 st2 \<Longrightarrow>
    php_zk_watcher_marshal H (\<lambda>_ _ _. (res, st2)) ty state path context st1 = Ret (b', st3) \<Longrightarrow>
    zk_run H api st st3"
| run_completion: "zk_run H api st st1 \<Longrightarrow> zk_run H api st1 st2 \<Longrightarrow>
    php_zk_completion_marshal H (\<lambda>_ _ _. (res, st2)) rc context st1 = Ret (b', st3) \<Longrightarrow>
    zk_run H api st st3"

lemma zk_run_ok:
  assumes "zk_run H api st st'" and laws: "hash_laws H V"
  shows "table_ok V st \<Longrightarrow> table_ok V st'"
  using assms(1)
proof (induction rule: zk_run.induct)
  case (run_new st st1)
  then show ?case by (simp add: php_zk_new_def)
next
  case (run_free st st1 ob st2)
  show ?case by (rule zk_destroy_ok [OF laws run_free.IH [OF run_free.prems] run_free.hyps(2)])
next
  case (run_setWatcher st st1 ob args r st2)
  show ?case by (rule setWatcher_ok [OF laws run_setWatcher.IH [OF run_setWatcher.prems] run_setWatcher.hyps(2)])
next
  case (run_watcher st st1 st2 res ty state path ctx b' st3)
  have "table_ok V st2" using run_watcher.IH run_watcher.prems by simp
  from run_callback_ok [OF laws this run_watcher.hyps(3) [unfolded php_zk_watcher_marshal_def]] show ?case .
next
  case (run_completion st st1 st2 res rc ctx b' st3)
  have "table_ok V st2" using run_completion.IH run_completion.prems by simp
  from run_callback_ok [OF laws this run_completion.hyps(3) [unfolded php_zk_completion_marshal_def]] show ?case .
next
  case (run_connect st st1 ob host fci timeout r st2)
  show ?case by (rule method_ok(1) [OF laws run_connect.IH [OF run_connect.prems] run_connect.hyps(2)])
next
  case (run_getChildren st st1 ob args1 r st2)
  show ?case
    by (rule method_ok(2) [OF laws run_getChildren.IH [OF run_getChildren.prems] run_getChildren.hyps(2,3)])
next
  case (run_get st st1 ob args2 r st2)
  show ?case by (rule method_ok(3) [OF laws run_get.IH [OF run_get.prems] run_get.hyps(2,3)])
next
  case (run_exists st st1 ob args3 r st2)
  show ?case by (rule method_ok(4) [OF laws run_exists.IH [OF run_exists.prems] run_exists.hyps(2,3)])
next
  case (run_addAuth st st1 ob args4 r st2)
  show ?case by (rule method_ok(5) [OF laws run_addAuth.IH [OF run_addAuth.prems] run_addAuth.hyps(2)])
next
  case (run_world st st1 w)
  then show ?case by simp
qed

text \<open>The state of the extension when a request starts.\<close>

definition request_start :: "'h hash_api \<Rightarrow> 'w \<Rightarrow> ('w, 'h) zk_state" where
  "request_start H w = \<lparr>z_world = w, z_cbs = (\<lambda>_. None), z_fresh = 0, z_table = hash_init H,
     z_objs = (\<lambda>_. None), z_next_obj = 0, z_nulled = []\<rparr>"

lemma request_start_ok: "hash_laws H V \<Longrightarrow> table_ok V (request_start H w)"
  by (simp add: table_ok_def request_start_def indices_ok_def hash_lawsD)

end
