(* ===== verification/Method_Table.thy ===== *)
theory Method_Table
  imports Request
begin

text \<open>
  How PHP reaches the methods: the table \<open>zookeeper_class_methods\<close> with its argument tables, the format
  that each method gives to \<open>zend_parse_parameters\<close>, and the call of a method by name. The
  engine's parser is an argument; what is relied on of it is \<open>zpp_laws\<close>: it accepts an argument list only if
  the list fits the format, and then stores one value of the format's type per argument.
\<close>

section \<open>Parsing of arguments\<close>

text \<open>What the parser stores for one argument; \<open>ONull\<close> is the null of a format letter with \<^verbatim>\<open>!\<close>.\<close>

datatype zpp_out = OStr string | OLong int | OBool bool | OArr zarray | OFn nat | OZval zval | ONull

type_synonym zpp = "string \<Rightarrow> zval list \<Rightarrow> zpp_out list option"

text \<open>A format: whether a parameter is optional (after \<^verbatim>\<open>|\<close>), its letter, and whether null is allowed.\<close>

fun spec_params :: "string \<Rightarrow> bool \<Rightarrow> (bool \<times> char \<times> bool) list" where
  "spec_params [] opt = []"
| "spec_params [c] opt = (if c = CHR ''|'' then [] else [(opt, c, False)])"
| "spec_params (c # d # cs) opt =
     (if c = CHR ''|'' then spec_params (d # cs) True
      else if d = CHR ''!'' then (opt, c, True) # spec_params cs opt
      else (opt, c, False) # spec_params (d # cs) opt)"

fun out_fits :: "char \<Rightarrow> bool \<Rightarrow> zpp_out \<Rightarrow> bool" where
  "out_fits c nullable (OStr s) = (c = CHR ''s'')"
| "out_fits c nullable (OLong n) = (c = CHR ''l'')"
| "out_fits c nullable (OBool b) = (c = CHR ''b'')"
| "out_fits c nullable (OArr a) = (c = CHR ''a'')"
| "out_fits c nullable (OFn f) = (c = CHR ''f'')"
| "out_fits c nullable (OZval v) = (c = CHR ''z'')"
| "out_fits c nullable ONull = nullable"

fun accepts :: "(bool \<times> char \<times> bool) list \<Rightarrow> zpp_out list \<Rightarrow> bool" where
  "accepts [] outs = (outs = [])"
| "accepts ((opt, c, nullable) # ps) [] = opt"
| "accepts ((opt, c, nullable) # ps) (out # outs) = (out_fits c nullable out \<and> accepts ps outs)"

definition zpp_laws :: "zpp \<Rightarrow> bool" where
  "zpp_laws zpp \<longleftrightarrow> (\<forall>spec args outs. zpp spec args = Some outs \<longrightarrow>
     length outs = length args \<and> accepts (spec_params spec False) outs)"

text \<open>The fewest and the most arguments that a format allows.\<close>

definition spec_min :: "string \<Rightarrow> nat" where
  "spec_min spec = length (takeWhile (\<lambda>(opt, _). \<not> opt) (spec_params spec False))"

definition spec_max :: "string \<Rightarrow> nat" where
  "spec_max spec = length (spec_params spec False)"

lemma accepts_length:
  "accepts ps outs \<Longrightarrow> length (takeWhile (\<lambda>(opt, _). \<not> opt) ps) \<le> length outs \<and> length outs \<le> length ps"
  by (induction ps outs rule: accepts.induct) auto

lemma zpp_arity:
  assumes "zpp_laws zpp" "zpp spec args = Some outs"
  shows "spec_min spec \<le> length args \<and> length args \<le> spec_max spec"
  using assms accepts_length [of "spec_params spec False" outs]
  by (auto simp: zpp_laws_def spec_min_def spec_max_def)

text \<open>Reading the outputs: an optional parameter that was not given leaves its initial value.\<close>

definition fn_at :: "nat \<Rightarrow> zpp_out list \<Rightarrow> nat option" where
  "fn_at i outs = (if i < length outs then (case outs ! i of OFn f \<Rightarrow> Some f | _ \<Rightarrow> None) else None)"

definition long_at :: "nat \<Rightarrow> zpp_out list \<Rightarrow> int option" where
  "long_at i outs = (if i < length outs then (case outs ! i of OLong n \<Rightarrow> Some n | _ \<Rightarrow> None) else None)"

definition zval_at :: "nat \<Rightarrow> zpp_out list \<Rightarrow> bool" where
  "zval_at i outs \<longleftrightarrow> i < length outs"

fun str_or_null :: "zpp_out \<Rightarrow> string option" where
  "str_or_null (OStr s) = Some s" | "str_or_null _ = None"

fun arr_or_null :: "zpp_out \<Rightarrow> zarray option" where
  "arr_or_null (OArr a) = Some a" | "arr_or_null _ = None"

lemmas out_defs = fn_at_def long_at_def zval_at_def

section \<open>The arguments of each method\<close>

definition construct_args :: "zpp \<Rightarrow> zval list \<Rightarrow> (string option \<times> nat option \<times> int option) option" where
  "construct_args zpp args = (case zpp ''|sf!l'' args of
     Some [] \<Rightarrow> Some (None, None, None)
   | Some (OStr host # outs) \<Rightarrow> Some (Some host, fn_at 0 outs, long_at 1 outs) | _ \<Rightarrow> None)"

definition connect_args :: "zpp \<Rightarrow> zval list \<Rightarrow> (string \<times> nat option \<times> int option) option" where
  "connect_args zpp args = (case zpp ''s|f!l'' args of
     Some (OStr host # outs) \<Rightarrow> Some (host, fn_at 0 outs, long_at 1 outs) | _ \<Rightarrow> None)"

definition create_args :: "zpp \<Rightarrow> zval list \<Rightarrow> (string \<times> string option \<times> zarray option \<times> int) option" where
  "create_args zpp args = (case zpp ''ss!a!|l'' args of
     Some (OStr path # val # acl_info # outs) \<Rightarrow>
       Some (path, str_or_null val, arr_or_null acl_info, case long_at 0 outs of None \<Rightarrow> 0 | Some n \<Rightarrow> n)
   | _ \<Rightarrow> None)"

definition delete_args :: "zpp \<Rightarrow> zval list \<Rightarrow> (string \<times> int option) option" where
  "delete_args zpp args = (case zpp ''s|l'' args of
     Some (OStr path # outs) \<Rightarrow> Some (path, long_at 0 outs) | _ \<Rightarrow> None)"

definition getChildren_args :: "zpp \<Rightarrow> zval list \<Rightarrow> (string \<times> nat option) option" where
  "getChildren_args zpp args = (case zpp ''s|f!'' args of
     Some (OStr path # outs) \<Rightarrow> Some (path, fn_at 0 outs) | _ \<Rightarrow> None)"

definition get_args :: "zpp \<Rightarrow> zval list \<Rightarrow> (string \<times> nat option \<times> bool \<times> int) option" where
  "get_args zpp args = (case zpp ''s|f!zl'' args of
     Some (OStr path # outs) \<Rightarrow>
       Some (path, fn_at 0 outs, zval_at 1 outs, case long_at 2 outs of None \<Rightarrow> 0 | Some n \<Rightarrow> n)
   | _ \<Rightarrow> None)"

definition exists_args :: "zpp \<Rightarrow> zval list \<Rightarrow> (string \<times> nat option) option" where
  "exists_args zpp args = (case zpp ''s|f!'' args of
     Some (OStr path # outs) \<Rightarrow> Some (path, fn_at 0 outs) | _ \<Rightarrow> None)"

definition set_args :: "zpp \<Rightarrow> zval list \<Rightarrow> (string \<times> string option \<times> int option \<times> bool) option" where
  "set_args zpp args = (case zpp ''ss!|lz'' args of
     Some (OStr path # val # outs) \<Rightarrow> Some (path, str_or_null val, long_at 0 outs, zval_at 1 outs) | _ \<Rightarrow> None)"

definition no_args :: "zpp \<Rightarrow> zval list \<Rightarrow> unit option" where
  "no_args zpp args = (case zpp '''' args of Some _ \<Rightarrow> Some () | None \<Rightarrow> None)"

definition getAcl_args :: "zpp \<Rightarrow> zval list \<Rightarrow> string option" where
  "getAcl_args zpp args = (case zpp ''s'' args of Some (OStr path # outs) \<Rightarrow> Some path | _ \<Rightarrow> None)"

definition setAcl_args :: "zpp \<Rightarrow> zval list \<Rightarrow> (string \<times> int \<times> zarray) option" where
  "setAcl_args zpp args = (case zpp ''sla'' args of
     Some (OStr path # OLong version # OArr acl_info # outs) \<Rightarrow> Some (path, version, acl_info) | _ \<Rightarrow> None)"

definition setDebugLevel_args :: "zpp \<Rightarrow> zval list \<Rightarrow> int option" where
  "setDebugLevel_args zpp args = (case zpp ''l'' args of Some (OLong level # outs) \<Rightarrow> Some level | _ \<Rightarrow> None)"

definition setDeterministicConnOrder_args :: "zpp \<Rightarrow> zval list \<Rightarrow> bool option" where
  "setDeterministicConnOrder_args zpp args =
     (case zpp ''b'' args of Some (OBool v # outs) \<Rightarrow> Some v | _ \<Rightarrow> None)"

definition addAuth_args :: "zpp \<Rightarrow> zval list \<Rightarrow> (string \<times> string \<times> nat option) option" where
  "addAuth_args zpp args = (case zpp ''ss|f'' args of
     Some (OStr scheme # OStr cert # outs) \<Rightarrow> Some (scheme, cert, fn_at 0 outs) | _ \<Rightarrow> None)"

definition setWatcher_args :: "zpp \<Rightarrow> zval list \<Rightarrow> nat option" where
  "setWatcher_args zpp args = (case zpp ''f'' args of Some (OFn f # outs) \<Rightarrow> Some f | _ \<Rightarrow> None)"

definition setLogStream_args :: "zpp \<Rightarrow> zval list \<Rightarrow> zval option" where
  "setLogStream_args zpp args = (case zpp ''z'' args of Some (OZval v # outs) \<Rightarrow> Some v | _ \<Rightarrow> None)"

section \<open>The method table\<close>

datatype zk_method = M_construct | M_connect | M_create | M_delete | M_get | M_getChildren | M_exists
  | M_set | M_getAcl | M_setAcl | M_getClientId | M_getState | M_getRecvTimeout | M_isRecoverable
  | M_setDebugLevel | M_setDeterministicConnOrder | M_addAuth | M_setWatcher | M_setLogStream

text \<open>
  An argument table: the number of required arguments, where the engine's \<open>ZEND_BEGIN_ARG_INFO\<close> means all of
  them, and the parameters with their by-reference flags.
\<close>

record arg_info =
  ai_required :: "nat option"
  ai_params :: "(bool \<times> string) list"

primrec method_arginfo :: "zk_method \<Rightarrow> arg_info" where
  "method_arginfo M_construct = \<lparr>ai_required = Some 1,
     ai_params = [(False, ''host''), (False, ''watcher_cb''), (False, ''recv_timeout'')]\<rparr>"
| "method_arginfo M_connect = \<lparr>ai_required = Some 1,
     ai_params = [(False, ''host''), (False, ''watcher_cb''), (False, ''recv_timeout'')]\<rparr>"
| "method_arginfo M_create = \<lparr>ai_required = Some 1,
     ai_params = [(False, ''path''), (False, ''value''), (False, ''acl''), (False, ''flags'')]\<rparr>"
| "method_arginfo M_delete = \<lparr>ai_required = Some 1, ai_params = [(False, ''path''), (False, ''version'')]\<rparr>"
| "method_arginfo M_getChildren = \<lparr>ai_required = Some 1, ai_params = [(False, ''path''), (False, ''watcher_cb'')]\<rparr>"
| "method_arginfo M_get = \<lparr>ai_required = Some 1,
     ai_params = [(False, ''path''), (False, ''watcher_cb''), (True, ''stat_info'')]\<rparr>"
| "method_arginfo M_exists = \<lparr>ai_required = Some 1, ai_params = [(False, ''path''), (False, ''watcher_cb'')]\<rparr>"
| "method_arginfo M_set = \<lparr>ai_required = Some 1,
     ai_params = [(False, ''path''), (False, ''value''), (False, ''version''), (True, ''stat_info'')]\<rparr>"
| "method_arginfo M_getClientId = \<lparr>ai_required = None, ai_params = []\<rparr>"
| "method_arginfo M_getAcl = \<lparr>ai_required = None, ai_params = []\<rparr>"
| "method_arginfo M_setAcl = \<lparr>ai_required = None, ai_params = [(False, ''path''), (False, ''version''), (False, ''acl'')]\<rparr>"
| "method_arginfo M_getState = \<lparr>ai_required = None, ai_params = []\<rparr>"
| "method_arginfo M_getRecvTimeout = \<lparr>ai_required = None, ai_params = []\<rparr>"
| "method_arginfo M_isRecoverable = \<lparr>ai_required = None, ai_params = []\<rparr>"
| "method_arginfo M_setDebugLevel = \<lparr>ai_required = None, ai_params = [(False, ''level'')]\<rparr>"
| "method_arginfo M_setDeterministicConnOrder = \<lparr>ai_required = None, ai_params = [(False, ''trueOrFalse'')]\<rparr>"
| "method_arginfo M_addAuth = \<lparr>ai_required = Some 2,
     ai_params = [(False, ''scheme''), (False, ''cert''), (False, ''completion_cb'')]\<rparr>"
| "method_arginfo M_setWatcher = \<lparr>ai_required = None, ai_params = [(False, ''watcher_cb'')]\<rparr>"
| "method_arginfo M_setLogStream = \<lparr>ai_required = None, ai_params = [(False, ''stream'')]\<rparr>"

record method_entry =
  me_name :: string
  me_handler :: zk_method
  me_arginfo :: arg_info
  me_static :: bool

definition ZK_ME :: "string \<Rightarrow> zk_method \<Rightarrow> method_entry" where
  "ZK_ME name m = \<lparr>me_name = name, me_handler = m, me_arginfo = method_arginfo m, me_static = False\<rparr>"

definition ZK_ME_STATIC :: "string \<Rightarrow> zk_method \<Rightarrow> method_entry" where
  "ZK_ME_STATIC name m = \<lparr>me_name = name, me_handler = m, me_arginfo = method_arginfo m, me_static = True\<rparr>"

definition zookeeper_class_methods :: "method_entry list" where
  "zookeeper_class_methods =
     [ZK_ME ''__construct'' M_construct, ZK_ME ''connect'' M_connect,
      ZK_ME ''create'' M_create, ZK_ME ''delete'' M_delete, ZK_ME ''get'' M_get,
      ZK_ME ''getChildren'' M_getChildren, ZK_ME ''exists'' M_exists, ZK_ME ''set'' M_set,
      ZK_ME ''getAcl'' M_getAcl, ZK_ME ''setAcl'' M_setAcl,
      ZK_ME ''getClientId'' M_getClientId, ZK_ME ''getState'' M_getState,
      ZK_ME ''getRecvTimeout'' M_getRecvTimeout, ZK_ME ''isRecoverable'' M_isRecoverable,
      ZK_ME_STATIC ''setDebugLevel'' M_setDebugLevel,
      ZK_ME_STATIC ''setDeterministicConnOrder'' M_setDeterministicConnOrder,
      ZK_ME ''addAuth'' M_addAuth, ZK_ME ''setWatcher'' M_setWatcher, ZK_ME ''setLogStream'' M_setLogStream]"

section \<open>Calling a method\<close>

record ('w, 'h) engine =
  en_hash :: "'h hash_api"
  en_zk :: "'w zk_api"
  en_conv :: zend_conv
  en_log :: "'w log_api"
  en_zpp :: zpp
  en_recv_timeout :: int

primrec run_method ::
  "('w, 'h) engine \<Rightarrow> zk_method \<Rightarrow> nat \<Rightarrow> zval list \<Rightarrow> ('w, 'h) zk_state \<Rightarrow> ('w, 'h) reply"
where
  "run_method E M_construct = (\<lambda>this args.
     zookeeper_construct (en_hash E) (en_zk E) (en_recv_timeout E) this (construct_args (en_zpp E) args))"
| "run_method E M_connect = (\<lambda>this args.
     zookeeper_connect (en_hash E) (en_zk E) (en_recv_timeout E) this (connect_args (en_zpp E) args))"
| "run_method E M_create = (\<lambda>this args. zookeeper_create (en_conv E) (en_zk E) this (create_args (en_zpp E) args))"
| "run_method E M_delete = (\<lambda>this args. zookeeper_delete (en_zk E) this (delete_args (en_zpp E) args))"
| "run_method E M_get = (\<lambda>this args. zookeeper_get (en_hash E) (en_zk E) this (get_args (en_zpp E) args))"
| "run_method E M_getChildren = (\<lambda>this args.
     zookeeper_getChildren (en_hash E) (en_zk E) this (getChildren_args (en_zpp E) args))"
| "run_method E M_exists = (\<lambda>this args. zookeeper_exists (en_hash E) (en_zk E) this (exists_args (en_zpp E) args))"
| "run_method E M_set = (\<lambda>this args. zookeeper_set (en_zk E) this (set_args (en_zpp E) args))"
| "run_method E M_getAcl = (\<lambda>this args. zookeeper_getAcl (en_zk E) this (getAcl_args (en_zpp E) args))"
| "run_method E M_setAcl = (\<lambda>this args. zookeeper_setAcl (en_conv E) (en_zk E) this (setAcl_args (en_zpp E) args))"
| "run_method E M_getClientId = (\<lambda>this args. zookeeper_getClientId (en_zk E) this (no_args (en_zpp E) args))"
| "run_method E M_getState = (\<lambda>this args. zookeeper_getState (en_zk E) this (no_args (en_zpp E) args))"
| "run_method E M_getRecvTimeout = (\<lambda>this args. zookeeper_getRecvTimeout (en_zk E) this (no_args (en_zpp E) args))"
| "run_method E M_isRecoverable = (\<lambda>this args. zookeeper_isRecoverable (en_zk E) this (no_args (en_zpp E) args))"
| "run_method E M_setDebugLevel = (\<lambda>this args. zookeeper_setDebugLevel (en_zk E) (setDebugLevel_args (en_zpp E) args))"
| "run_method E M_setDeterministicConnOrder = (\<lambda>this args.
     zookeeper_setDeterministicConnOrder (en_zk E) (setDeterministicConnOrder_args (en_zpp E) args))"
| "run_method E M_addAuth = (\<lambda>this args. zookeeper_addAuth (en_hash E) (en_zk E) this (addAuth_args (en_zpp E) args))"
| "run_method E M_setWatcher = (\<lambda>this args.
     zookeeper_setWatcher (en_hash E) (en_zk E) this (setWatcher_args (en_zpp E) args))"
| "run_method E M_setLogStream = (\<lambda>this args.
     zookeeper_setLogStream (en_conv E) (en_log E) (setLogStream_args (en_zpp E) args))"

text \<open>A call by name: the handler of the table's entry, or no call at all.\<close>

definition call_method ::
  "('w, 'h) engine \<Rightarrow> string \<Rightarrow> nat \<Rightarrow> zval list \<Rightarrow> ('w, 'h) zk_state \<Rightarrow> ('w, 'h) reply option" where
  "call_method E name this args st =
     map_option (\<lambda>e. run_method E (me_handler e) this args st) (find (\<lambda>e. me_name e = name) zookeeper_class_methods)"

text \<open>The format that each method gives to the parser, as one table.\<close>

primrec method_spec :: "zk_method \<Rightarrow> string" where
  "method_spec M_construct = ''|sf!l''" | "method_spec M_connect = ''s|f!l''"
| "method_spec M_create = ''ss!a!|l''" | "method_spec M_delete = ''s|l''"
| "method_spec M_get = ''s|f!zl''" | "method_spec M_getChildren = ''s|f!''"
| "method_spec M_exists = ''s|f!''" | "method_spec M_set = ''ss!|lz''"
| "method_spec M_getAcl = ''s''" | "method_spec M_setAcl = ''sla''"
| "method_spec M_getClientId = ''''" | "method_spec M_getState = ''''"
| "method_spec M_getRecvTimeout = ''''" | "method_spec M_isRecoverable = ''''"
| "method_spec M_setDebugLevel = ''l''" | "method_spec M_setDeterministicConnOrder = ''b''"
| "method_spec M_addAuth = ''ss|f''" | "method_spec M_setWatcher = ''f''" | "method_spec M_setLogStream = ''z''"

section \<open>The documented interface\<close>

text \<open>
  The methods of the stub \<open>zookeeper-api.php\<close>: name, required and total number of parameters, the
  positions of by-reference parameters, and whether the method is static.
\<close>

definition api_methods :: "(string \<times> nat \<times> nat \<times> nat list \<times> bool) list" where
  "api_methods =
     [(''__construct'', 0, 3, [], False), (''connect'', 1, 3, [], False), (''create'', 3, 4, [], False),
      (''delete'', 1, 2, [], False), (''set'', 2, 4, [3], False), (''get'', 1, 4, [2], False),
      (''getChildren'', 1, 2, [], False), (''exists'', 1, 2, [], False), (''getAcl'', 1, 1, [], False),
      (''setAcl'', 3, 3, [], False), (''getClientId'', 0, 0, [], False), (''setWatcher'', 1, 1, [], False),
      (''getState'', 0, 0, [], False), (''getRecvTimeout'', 0, 0, [], False), (''addAuth'', 2, 3, [], False),
      (''isRecoverable'', 0, 0, [], False), (''setLogStream'', 1, 1, [], False), (''getResultMessage'', 0, 0, [], False),
      (''setDebugLevel'', 1, 1, [], True), (''setDeterministicConnOrder'', 1, 1, [], True)]"

definition by_ref_positions :: "arg_info \<Rightarrow> nat list" where
  "by_ref_positions a = map fst (filter (\<lambda>(i, r, n). r) (zip [0..<length (ai_params a)] (ai_params a)))"

text \<open>What the table tells reflection: required and total number of arguments.\<close>

definition declared_arity :: "arg_info \<Rightarrow> nat \<times> nat" where
  "declared_arity a = (case ai_required a of None \<Rightarrow> length (ai_params a) | Some n \<Rightarrow> n, length (ai_params a))"

definition parsed_arity :: "zk_method \<Rightarrow> nat \<times> nat" where
  "parsed_arity m = (spec_min (method_spec m), spec_max (method_spec m))"

text \<open>What a table entry and its parser say, in the form of the stub.\<close>

definition entry_signature :: "method_entry \<Rightarrow> string \<times> nat \<times> nat \<times> nat list \<times> bool" where
  "entry_signature e = (me_name e, fst (parsed_arity (me_handler e)), snd (parsed_arity (me_handler e)),
     by_ref_positions (me_arginfo e), me_static e)"

end
