(* ===== verification/Zoo_Lock.thy ===== *)
theory Zoo_Lock
  imports Zk_Client
begin

text \<open>
  The distributed lock of \<open>zoo_lock.c\<close> and \<open>zoo_lock.h\<close>: a waiter creates an ephemeral
  sequential child of the lock's path and owns the lock while its child is the first one in the
  order of the sequence numbers. One definition per C function; the pthread mutex of the struct
  is part of its state, so that a call which waits for a mutex its own thread holds is the
  outcome \<open>Fault Deadlock\<close>. Log calls and \<open>nanosleep\<close> have no effect on the modelled state.
\<close>

section \<open>The mutex\<close>

datatype pthread_mutex = PUninit | PUnlocked | PLocked

record zkr_lock_mutex =
  m_zh :: zhandle
  m_path :: cptr
  m_acl :: "acl_vector option"
  m_id :: cptr
  m_cbdata :: nat
  m_completion :: "nat option"
  m_pmutex :: pthread_mutex
  m_isOwner :: int
  m_ownerid :: cptr

definition pthread_mutex_lock :: "zkr_lock_mutex \<Rightarrow> zkr_lock_mutex outcome" where
  "pthread_mutex_lock m = (case m_pmutex m of
     PUninit \<Rightarrow> Fault BadMutex | PLocked \<Rightarrow> Fault Deadlock
   | PUnlocked \<Rightarrow> Ret (m\<lparr>m_pmutex := PLocked\<rparr>))"

definition pthread_mutex_unlock :: "zkr_lock_mutex \<Rightarrow> zkr_lock_mutex" where
  "pthread_mutex_unlock m = m\<lparr>m_pmutex := PUnlocked\<rparr>"

definition pthread_mutex_destroy :: "zkr_lock_mutex \<Rightarrow> zkr_lock_mutex outcome" where
  "pthread_mutex_destroy m =
     (if m_pmutex m = PUnlocked then Ret (m\<lparr>m_pmutex := PUninit\<rparr>) else Fault BadMutex)"

definition zkr_lock_init ::
  "zkr_lock_mutex \<Rightarrow> zhandle \<Rightarrow> cptr \<Rightarrow> acl_vector option \<Rightarrow> int \<times> zkr_lock_mutex" where
  "zkr_lock_init m zh path acl =
     (0, m\<lparr>m_zh := zh, m_path := path, m_acl := acl, m_completion := None, m_cbdata := 0,
           m_id := Null, m_ownerid := Null, m_isOwner := 0, m_pmutex := PUnlocked\<rparr>)"

definition zkr_lock_init_cb ::
  "zkr_lock_mutex \<Rightarrow> zhandle \<Rightarrow> cptr \<Rightarrow> acl_vector option \<Rightarrow> nat option \<Rightarrow> nat \<Rightarrow>
   int \<times> zkr_lock_mutex" where
  "zkr_lock_init_cb m zh path acl completion cbdata =
     (0, m\<lparr>m_zh := zh, m_path := path, m_acl := acl, m_completion := completion,
           m_cbdata := cbdata, m_isOwner := 0, m_ownerid := Null, m_id := Null,
           m_pmutex := PUnlocked\<rparr>)"

definition call_completion :: "'w zk_api \<Rightarrow> zkr_lock_mutex \<Rightarrow> int \<Rightarrow> 'w \<Rightarrow> 'w" where
  "call_completion api m rc w = (case m_completion m of
     None \<Rightarrow> w | Some f \<Rightarrow> run_completion api f rc (m_cbdata m) w)"

definition child_path :: "string \<Rightarrow> string \<Rightarrow> string" where
  "child_path p c = p @ ''/'' @ c"

section \<open>Unlock\<close>

definition zkr_lock_unlock ::
  "'w zk_api \<Rightarrow> zkr_lock_mutex \<Rightarrow> 'w \<Rightarrow> (int \<times> zkr_lock_mutex \<times> 'w) outcome" where
  "zkr_lock_unlock api m0 w = obind (pthread_mutex_lock m0) (\<lambda>m.
     if m_id m \<noteq> Null then
       obind (deref (m_path m)) (\<lambda>path. obind (deref (m_id m)) (\<lambda>ident.
         let buf = child_path path ident;
             ((ret, _), w1) =
               retry_upto (status_op (zoo_delete api (m_zh m) buf (-1))) 3 (ZCONNECTIONLOSS, ()) w
         in if ret = ZOK \<or> ret = ZNONODE then
              Ret (0, pthread_mutex_unlock (m\<lparr>m_id := Null\<rparr>), call_completion api m 1 w1)
            else Ret (ZCONNECTIONLOSS, pthread_mutex_unlock m, w1)))
     else Ret (ZSYSTEMERROR, pthread_mutex_unlock m, w))"

section \<open>Children of the lock's path\<close>

text \<open>The comparison reads through \<open>strrchr(..) + 1\<close>: without a dash it is undefined.\<close>

definition vstrcmp :: "string \<Rightarrow> string \<Rightarrow> int option" where
  "vstrcmp a b = (case (strrchr a (CHR ''-''), strrchr b (CHR ''-'')) of
     (Some x, Some y) \<Rightarrow> Some (strcmp (tl x) (tl y)) | _ \<Rightarrow> None)"

text \<open>
  \<open>qsort\<close> compares nothing in an array of fewer than two elements, and every element at
  least once in a longer one.
\<close>

definition sort_children :: "string list \<Rightarrow> string list outcome" where
  "sort_children v =
     (if length v < 2 then Ret v
      else if list_all (\<lambda>c. strrchr c (CHR ''-'') \<noteq> None) v
      then Ret (qsort (\<lambda>a b. the (vstrcmp a b)) v) else Fault NullDeref)"

fun child_floor_loop :: "string list \<Rightarrow> string \<Rightarrow> string option \<Rightarrow> string option" where
  "child_floor_loop [] element ret = ret"
| "child_floor_loop (c # cs) element ret =
     child_floor_loop cs element (if strcmp c element < 0 then Some c else ret)"

definition child_floor :: "string list \<Rightarrow> string \<Rightarrow> string option" where
  "child_floor sorted_data element = child_floor_loop sorted_data element None"

definition getName :: "string \<Rightarrow> cptr" where
  "getName str = (case strrchr str (CHR ''/'') of None \<Rightarrow> Null | Some name \<Rightarrow> Str (tl name))"

definition retry_getchildren ::
  "'w zk_api \<Rightarrow> zhandle \<Rightarrow> string \<Rightarrow> nat \<Rightarrow> ('w, string list) zk_op" where
  "retry_getchildren api zh path retry =
     retry_upto (zoo_get_children api zh path False) retry (ZCONNECTIONLOSS, [])"

fun lookupnode :: "string list \<Rightarrow> string \<Rightarrow> string option" where
  "lookupnode [] prefix = None"
| "lookupnode (child # rest) prefix =
     (if strncmp prefix child (length prefix) = 0 then Some child else lookupnode rest prefix)"

definition no_stat :: Stat where
  "no_stat = \<lparr>stat_czxid = 0, stat_mzxid = 0, stat_ctime = 0, stat_mtime = 0, stat_version = 0,
     stat_cversion = 0, stat_aversion = 0, stat_ephemeralOwner = 0, stat_dataLength = 0,
     stat_numChildren = 0, stat_pzxid = 0\<rparr>"

definition retry_zoowexists ::
  "'w zk_api \<Rightarrow> zhandle \<Rightarrow> string \<Rightarrow> watcher \<Rightarrow> nat \<Rightarrow> ('w, Stat) zk_op" where
  "retry_zoowexists api zh path watcher retry =
     retry_upto (zoo_wexists api zh path (Some watcher)) retry (ZCONNECTIONLOSS, no_stat)"

section \<open>The lock operation\<close>

definition lock_prefix :: "64 word \<Rightarrow> string" where
  "lock_prefix session = snprintf 30 (''x-'' @ printf_016lx session @ ''-'')"

text \<open>Giving up a child whose predecessor cannot be watched: unlock until unlock fails.\<close>

partial_function (option) unlock_until_error ::
  "'w zk_api \<Rightarrow> zkr_lock_mutex \<Rightarrow> 'w \<Rightarrow> (int \<times> zkr_lock_mutex \<times> 'w) run" where
  "unlock_until_error api m w = (case zkr_lock_unlock api m w of
     Fault e \<Rightarrow> Some (Fault e) | Bailout s \<Rightarrow> Some (Bailout s)
   | Ret r \<Rightarrow> (case r of (ret, m', w') \<Rightarrow>
       if ret = 0 then unlock_until_error api m' w' else Some (Ret (ret, m', w'))))"

declare unlock_until_error.simps [code]

text \<open>The first half of the loop body: find our child, or create it. \<open>Inl\<close> is a return.\<close>

definition lock_find_or_create ::
  "'w zk_api \<Rightarrow> zkr_lock_mutex \<Rightarrow> string \<Rightarrow> 'w \<Rightarrow> (int + unit) \<times> zkr_lock_mutex \<times> 'w" where
  "lock_find_or_create api m path w =
     (let zh = m_zh m;
          (session, _) = zoo_client_id api zh w;
          prefix = lock_prefix session;
          ((ret, kids), w1) = retry_getchildren api zh path 3 w
      in if ret \<noteq> ZOK then (Inl ret, m, w1)
         else let m1 = m\<lparr>m_id := ptr_of (lookupnode kids prefix)\<rparr> in
           if m_id m1 = Null then
             let len = length path + length prefix + 2;
                 buf = snprintf len (child_path path prefix);
                 ((ret, retbuf), w2) = zoo_create api zh buf None 0 (m_acl m1)
                    (or ZOO_EPHEMERAL ZOO_SEQUENCE) (len + 20) w1
             in if ret \<noteq> ZOK then (Inl ret, m1, w2)
                else (Inr (), m1\<lparr>m_id := getName retbuf\<rparr>, w2)
           else (Inr (), m1, w1))"

text \<open>The second half: list the children again, decide, and watch the child before ours.\<close>

definition lock_decide ::
  "'w zk_api \<Rightarrow> zkr_lock_mutex \<Rightarrow> string \<Rightarrow> string \<Rightarrow> 'w \<Rightarrow> (int \<times> zkr_lock_mutex \<times> 'w) run" where
  "lock_decide api m path ident w =
     (let zh = m_zh m; ((ret, kids), w1) = retry_getchildren api zh path 3 w
      in if ret \<noteq> ZOK then Some (Ret (ret, m, w1))
         else xbind (Some (sort_children kids)) (\<lambda>sorted_data. case sorted_data of
           [] \<Rightarrow> Some (Fault OutOfBounds)
         | owner_id # _ \<Rightarrow>
             let m1 = m\<lparr>m_ownerid := Str owner_id\<rparr> in
             case child_floor sorted_data ident of
               Some lessthanme \<Rightarrow>
                 let last_child = child_path path lessthanme;
                     ((ret, _), w2) = retry_zoowexists api zh last_child LockWatcher 3 w1
                 in if ret \<noteq> ZOK then unlock_until_error api m1 w2
                    else Some (Ret (ZOK, m1\<lparr>m_isOwner := 0\<rparr>, w2))
             | None \<Rightarrow>
                 if strcmp ident owner_id = 0 then
                   let m2 = m1\<lparr>m_isOwner := 1\<rparr>
                   in Some (Ret (ZOK, m2, call_completion api m2 0 w1))
                 else Some (Ret (ZOK, m1, w1))))"

partial_function (option) zkr_lock_operation ::
  "'w zk_api \<Rightarrow> zkr_lock_mutex \<Rightarrow> 'w \<Rightarrow> (int \<times> zkr_lock_mutex \<times> 'w) run" where
  "zkr_lock_operation api m w = (case deref (m_path m) of
     Fault e \<Rightarrow> Some (Fault e) | Bailout s \<Rightarrow> Some (Bailout s)
   | Ret path \<Rightarrow> (case lock_find_or_create api m path w of (res, m1, w1) \<Rightarrow>
       (case res of
          Inl ret \<Rightarrow> Some (Ret (ret, m1, w1))
        | Inr _ \<Rightarrow> (case m_id m1 of
            Null \<Rightarrow> zkr_lock_operation api m1 w1
          | Freed \<Rightarrow> Some (Fault UseAfterFree)
          | Str ident \<Rightarrow> lock_decide api m1 path ident w1))))"

declare zkr_lock_operation.simps [code]

definition zkr_lock_isowner :: "zkr_lock_mutex \<Rightarrow> bool outcome" where
  "zkr_lock_isowner m =
     (if m_id m \<noteq> Null \<and> m_ownerid m \<noteq> Null
      then obind (deref (m_id m)) (\<lambda>i. obind (deref (m_ownerid m)) (\<lambda>o'. Ret (strcmp i o' = 0)))
      else Ret False)"

section \<open>Lock\<close>

text \<open>\<^verbatim>\<open>while ((exists == ZCONNECTIONLOSS || exists == ZNONODE) && (count < 4)) { count++; ... }\<close>\<close>

fun ensure_path ::
  "'w zk_api \<Rightarrow> zhandle \<Rightarrow> string \<Rightarrow> acl_vector option \<Rightarrow> nat \<Rightarrow> int \<Rightarrow> 'w \<Rightarrow> int \<times> 'w" where
  "ensure_path api zh path acl 0 ex w = (ex, w)"
| "ensure_path api zh path acl (Suc n) ex w =
     (if ex = ZCONNECTIONLOSS then
        (let ((ex', _), w') = zoo_exists api zh path False w in ensure_path api zh path acl n ex' w')
      else if ex = ZNONODE then
        (let ((ex', _), w') = zoo_create api zh path None 0 acl 0 0 w
         in ensure_path api zh path acl n ex' w')
      else (ex, w))"

text \<open>\<^verbatim>\<open>while (check_retry != ZOK && count < 4) { check_retry = zkr_lock_operation(mutex, &ts); ... }\<close>\<close>

fun lock_op_loop ::
  "'w zk_api \<Rightarrow> nat \<Rightarrow> int \<Rightarrow> zkr_lock_mutex \<Rightarrow> 'w \<Rightarrow> (int \<times> zkr_lock_mutex \<times> 'w) run" where
  "lock_op_loop api 0 check_retry m w = Some (Ret (check_retry, m, w))"
| "lock_op_loop api (Suc n) check_retry m w =
     (if check_retry \<noteq> ZOK then
        xbind (zkr_lock_operation api m w) (\<lambda>(r, m', w'). lock_op_loop api n r m' w')
      else Some (Ret (check_retry, m, w)))"

definition zkr_lock_lock ::
  "'w zk_api \<Rightarrow> zkr_lock_mutex \<Rightarrow> 'w \<Rightarrow> (bool \<times> zkr_lock_mutex \<times> 'w) run" where
  "zkr_lock_lock api m0 w0 = xbind (Some (pthread_mutex_lock m0)) (\<lambda>m.
     xbind (Some (deref (m_path m))) (\<lambda>path.
       let ((ex, _), w1) = zoo_exists api (m_zh m) path False w0;
           (_, w2) = ensure_path api (m_zh m) path (m_acl m) 4 ex w1
       in xbind (lock_op_loop api 4 ZCONNECTIONLOSS m w2) (\<lambda>(_, m1, w3).
            let m2 = pthread_mutex_unlock m1
            in xbind (Some (zkr_lock_isowner m2)) (\<lambda>b. Some (Ret (b, m2, w3))))))"

definition lock_watcher_fn ::
  "'w zk_api \<Rightarrow> zkr_lock_mutex \<Rightarrow> 'w \<Rightarrow> (bool \<times> zkr_lock_mutex \<times> 'w) run" where
  "lock_watcher_fn api m w = zkr_lock_lock api m w"

definition zkr_lock_getpath :: "zkr_lock_mutex \<Rightarrow> cptr" where
  "zkr_lock_getpath m = m_path m"

definition zkr_lock_getid :: "zkr_lock_mutex \<Rightarrow> cptr" where
  "zkr_lock_getid m = m_ownerid m"

definition zkr_lock_destroy :: "zkr_lock_mutex \<Rightarrow> (int \<times> zkr_lock_mutex) outcome" where
  "zkr_lock_destroy m = obind (free_ptr (m_id m)) (\<lambda>i.
     obind (pthread_mutex_destroy
         (m\<lparr>m_id := i, m_path := Null, m_acl := None, m_completion := None\<rparr>)) (\<lambda>m1.
       obind (free_ptr (m_ownerid m1)) (\<lambda>o'. Ret (0, m1\<lparr>m_isOwner := 0, m_ownerid := o'\<rparr>))))"

section \<open>Names of the lock's children\<close>

text \<open>
  ZooKeeper names a sequential node by the requested path and a ten-digit counter, so the child
  that session \<open>s\<close> creates with counter value \<open>n\<close> is \<open>lock_child s n\<close>. The counter is a
  signed 32-bit number; names are well formed below \<open>2 ^ 31\<close>.
\<close>

definition lock_child :: "64 word \<Rightarrow> nat \<Rightarrow> string" where
  "lock_child s n = lock_prefix s @ printf_010d n"

abbreviation seq_max :: nat where "seq_max \<equiv> 2 ^ 31"

lemma lock_prefix_eq: "lock_prefix s = ''x-'' @ printf_016lx s @ ''-''"
  unfolding lock_prefix_def by (rule snprintf_fits) simp

lemma length_lock_prefix [simp]: "length (lock_prefix s) = 19"
  by (simp add: lock_prefix_eq)

lemma lock_prefix_inj [simp]: "lock_prefix s = lock_prefix t \<longleftrightarrow> s = t"
  by (simp add: lock_prefix_eq)

lemma seq_small: "n < seq_max \<Longrightarrow> n < 10 ^ 10"
  by simp

lemma take_lock_child [simp]: "take 19 (lock_child s n) = lock_prefix s"
  by (simp add: lock_child_def)

lemma lock_child_inj:
  assumes "m < seq_max" "n < seq_max"
  shows "lock_child s m = lock_child t n \<longleftrightarrow> s = t \<and> m = n"
proof
  assume eq: "lock_child s m = lock_child t n"
  then have "take 19 (lock_child s m) = take 19 (lock_child t n)" by simp
  then have st: "s = t" by simp
  with eq have "printf_010d m = printf_010d n" by (simp add: lock_child_def)
  then have "m = n" using printf_010d_less [of m n] printf_010d_less [of n m] assms
    by (simp add: nat_neq_iff)
  with st show "s = t \<and> m = n" by simp
qed simp

lemma strrchr_lock_child:
  assumes "n < seq_max"
  shows "strrchr (lock_child s n) (CHR ''-'') = Some (CHR ''-'' # printf_010d n)"
proof -
  have "lock_child s n = (''x-'' @ printf_016lx s) @ CHR ''-'' # printf_010d n"
    by (simp add: lock_child_def lock_prefix_eq)
  then show ?thesis
    using strrchr_append [of "CHR ''-''" "printf_010d n"] printf_010d_no_sep [of n] assms by simp
qed

lemma vstrcmp_lock_child:
  assumes "m < seq_max" "n < seq_max"
  shows "vstrcmp (lock_child s m) (lock_child t n) = Some (strcmp (printf_010d m) (printf_010d n))"
  using assms by (simp add: vstrcmp_def strrchr_lock_child)

lemma lock_child_no_slash: "n < seq_max \<Longrightarrow> CHR ''/'' \<notin> set (lock_child s n)"
  using printf_010d_no_sep [of n] printf_016lx_no_sep [of s]
  by (auto simp: lock_child_def lock_prefix_eq)

lemma getName_child_path: "CHR ''/'' \<notin> set c \<Longrightarrow> getName (child_path p c) = Str c"
  by (simp add: getName_def child_path_def strrchr_append)

lemma lookupnode_SomeD:
  "lookupnode kids prefix = Some c \<Longrightarrow> c \<in> set kids \<and> take (length prefix) c = prefix"
  by (induction kids) (auto simp: strncmp_prefix split: if_splits)

lemma lookupnode_None:
  "lookupnode kids prefix = None \<longleftrightarrow> (\<forall>c\<in>set kids. take (length prefix) c \<noteq> prefix)"
  by (induction kids) (auto simp: strncmp_prefix)

section \<open>Sorting the children\<close>

text \<open>On names with a dash the comparison of \<open>sort_children\<close> is a total preorder.\<close>

interpretation by_suffix: c_comparator "\<lambda>a b. the (vstrcmp a b)" "{c. strrchr c (CHR ''-'') \<noteq> None}"
proof unfold_locales
  fix a b c
  assume "a \<in> {c. strrchr c (CHR ''-'') \<noteq> None}" "b \<in> {c. strrchr c (CHR ''-'') \<noteq> None}"
  then obtain x y where xy: "strrchr a (CHR ''-'') = Some x" "strrchr b (CHR ''-'') = Some y"
    by blast
  then show "the (vstrcmp a b) < 0 \<longleftrightarrow> 0 < the (vstrcmp b a)"
    using strcmp_sym [of "tl x" "tl y"] by (simp add: vstrcmp_def)
  assume "c \<in> {c. strrchr c (CHR ''-'') \<noteq> None}"
  then obtain z where "strrchr c (CHR ''-'') = Some z" by blast
  with xy show "the (vstrcmp a b) \<le> 0 \<Longrightarrow> the (vstrcmp b c) \<le> 0 \<Longrightarrow> the (vstrcmp a c) \<le> 0"
    by (simp add: vstrcmp_def strcmp_le)
qed

lemma sort_children_perm: "sort_children v = Ret sv \<Longrightarrow> mset sv = mset v"
  by (auto simp: sort_children_def split: if_splits)

lemma sort_children_set: "sort_children v = Ret sv \<Longrightarrow> set sv = set v"
  using sort_children_perm [of v sv] by (metis set_mset_mset)

lemma sort_children_Ret:
  "list_all (\<lambda>c. strrchr c (CHR ''-'') \<noteq> None) v \<Longrightarrow> \<exists>sv. sort_children v = Ret sv"
  by (simp add: sort_children_def)

text \<open>The first child of the sorted array is the least one in the order of the suffixes.\<close>

lemma sort_children_least:
  assumes "sort_children v = Ret (c # cs)" "x \<in> set v" "strrchr x (CHR ''-'') \<noteq> None"
  shows "the (vstrcmp c x) \<le> 0"
proof (cases "length v < 2")
  case True
  with assms(1,2) have "x = c" by (auto simp: sort_children_def length_Suc_conv less_Suc_eq numeral_2_eq_2)
  then show ?thesis using assms(3) by (auto simp: vstrcmp_def strcmp_le simp del: strrchr_None)
next
  case False
  with assms(1) have "list_all (\<lambda>c. strrchr c (CHR ''-'') \<noteq> None) v"
    "qsort (\<lambda>a b. the (vstrcmp a b)) v = c # cs" by (auto simp: sort_children_def split: if_splits)
  then show ?thesis using assms(2)
    by (intro by_suffix.hd_qsort_least [of v]) (auto simp: list_all_iff)
qed

definition lock_names :: "(64 word \<times> nat) list \<Rightarrow> string list" where
  "lock_names ps = map (\<lambda>(s, n). lock_child s n) ps"

definition seqs_ok :: "(64 word \<times> nat) list \<Rightarrow> bool" where
  "seqs_ok ps \<longleftrightarrow> distinct (map snd ps) \<and> (\<forall>(s, n)\<in>set ps. n < seq_max)"

lemma lock_names_dash: "seqs_ok ps \<Longrightarrow> set (lock_names ps) \<subseteq> {c. strrchr c (CHR ''-'') \<noteq> None}"
  by (auto simp: lock_names_def seqs_ok_def strrchr_lock_child simp del: strrchr_None)

lemma mset_lock_names: "mset ps = mset qs \<Longrightarrow> mset (lock_names ps) = mset (lock_names qs)"
  by (simp add: lock_names_def)

text \<open>The children come out in the order of their counters, whatever the session prefixes.\<close>

lemma sort_children_by_seq:
  assumes ok: "seqs_ok ps"
  shows "sort_children (lock_names ps) = Ret (lock_names (sort_key snd ps))"
proof (cases "length ps < 2")
  case True
  then have "sort_key snd ps = ps" by (cases ps rule: list.exhaust; cases "tl ps") auto
  with True show ?thesis by (simp add: sort_children_def lock_names_def)
next
  case False
  let ?cmp = "\<lambda>a b. the (vstrcmp a b)" and ?qs = "sort_key snd ps"
  have len: "set ?qs = set ps" by simp
  have cmp: "?cmp (lock_child s m) (lock_child t n) \<le> 0 \<longleftrightarrow> m \<le> n" if "m < seq_max" "n < seq_max" for s t m n
    using that by (simp add: vstrcmp_lock_child strcmp_le printf_010d_le)
  have "sorted_wrt (\<lambda>a b. ?cmp a b \<le> 0) (lock_names ?qs)"
  proof -
    have "sorted_wrt (\<lambda>p q. snd p \<le> snd q) ?qs"
      using sorted_sort_key [of snd ps] by (simp add: sorted_map)
    then show ?thesis
      unfolding lock_names_def sorted_wrt_map using ok
      by (rule_tac sorted_wrt_mono_rel) (auto simp: cmp seqs_ok_def split: prod.splits)
  qed
  moreover have "a = b" if "a \<in> set (lock_names ps)" "b \<in> set (lock_names ps)" "?cmp a b = 0" for a b
  proof -
    from that obtain s m t n where a: "a = lock_child s m" "(s, m) \<in> set ps"
      and b: "b = lock_child t n" "(t, n) \<in> set ps" by (auto simp: lock_names_def)
    then have "m < seq_max" "n < seq_max" using ok by (auto simp: seqs_ok_def)
    with that(3) a b have "m = n"
      using printf_010d_less [of m n] printf_010d_less [of n m]
      by (auto simp: vstrcmp_lock_child nat_neq_iff)
    with a b ok show ?thesis
      using inj_onD [of snd "set ps" "(s, m)" "(t, n)"] by (auto simp: seqs_ok_def distinct_map)
  qed
  ultimately have "lock_names ?qs = qsort ?cmp (lock_names ps)"
    using ok by (intro by_suffix.qsort_unique lock_names_dash mset_lock_names) auto
  moreover have "list_all (\<lambda>c. strrchr c (CHR ''-'') \<noteq> None) (lock_names ps)"
    using lock_names_dash [OF ok] by (auto simp: list_all_iff)
  ultimately show ?thesis using False by (simp add: sort_children_def lock_names_def)
qed

section \<open>child\_floor\<close>

lemma child_floor_loop_eq:
  "child_floor_loop cs e r = (case filter (\<lambda>c. c < e) cs of [] \<Rightarrow> r | xs \<Rightarrow> Some (last xs))"
  by (induction cs arbitrary: r) (auto simp: strcmp_less split: list.splits)

text \<open>It returns the last element of the array whose whole name is below the given one.\<close>

lemma child_floor_eq:
  "child_floor cs e = (if filter (\<lambda>c. c < e) cs = [] then None else Some (last (filter (\<lambda>c. c < e) cs)))"
  by (simp add: child_floor_def child_floor_loop_eq split: list.splits)

lemma child_floor_SomeD: "child_floor cs e = Some c \<Longrightarrow> c \<in> set cs \<and> c < e"
  using last_in_set [of "filter (\<lambda>c. c < e) cs"] by (auto simp: child_floor_eq split: if_splits)

lemma child_floor_None: "child_floor cs e = None \<longleftrightarrow> (\<forall>c\<in>set cs. \<not> c < e)"
  by (auto simp: child_floor_eq filter_empty_conv)

section \<open>Invariant of the mutex\<close>

text \<open>
  Between calls the pthread mutex is free, the path is set and no string of the struct dangles;
  inside a call the same holds with the pthread mutex taken.
\<close>

definition strings_ok :: "zkr_lock_mutex \<Rightarrow> bool" where
  "strings_ok m \<longleftrightarrow> (\<exists>p. m_path m = Str p) \<and> m_id m \<noteq> Freed \<and> m_ownerid m \<noteq> Freed"

definition mutex_ok :: "zkr_lock_mutex \<Rightarrow> bool" where
  "mutex_ok m \<longleftrightarrow> m_pmutex m = PUnlocked \<and> strings_ok m"

definition mutex_held :: "zkr_lock_mutex \<Rightarrow> bool" where
  "mutex_held m \<longleftrightarrow> m_pmutex m = PLocked \<and> strings_ok m"

text \<open>What a call never changes: handle, path, ACL and completion.\<close>

definition same_config :: "zkr_lock_mutex \<Rightarrow> zkr_lock_mutex \<Rightarrow> bool" where
  "same_config m m' \<longleftrightarrow> m_zh m' = m_zh m \<and> m_path m' = m_path m \<and> m_acl m' = m_acl m \<and>
     m_completion m' = m_completion m \<and> m_cbdata m' = m_cbdata m"

lemma same_config_refl [simp]: "same_config m m"
  by (simp add: same_config_def)

lemma same_config_trans: "same_config a b \<Longrightarrow> same_config b c \<Longrightarrow> same_config a c"
  by (simp add: same_config_def)

lemmas mutex_defs = mutex_ok_def mutex_held_def strings_ok_def same_config_def
  pthread_mutex_lock_def pthread_mutex_unlock_def

lemma mutex_ok_init: "mutex_ok (snd (zkr_lock_init m zh (Str p) acl))"
  by (simp add: zkr_lock_init_def mutex_defs)

lemma isowner_ok: "strings_ok m \<Longrightarrow>
   zkr_lock_isowner m = Ret (m_id m \<noteq> Null \<and> m_id m = m_ownerid m)"
  by (cases "m_id m"; cases "m_ownerid m") (auto simp: zkr_lock_isowner_def strings_ok_def)

text \<open>The deletion loop of unlock: its answer and the state after it.\<close>

definition delete_result :: "'w zk_api \<Rightarrow> zkr_lock_mutex \<Rightarrow> string \<Rightarrow> string \<Rightarrow> 'w \<Rightarrow> int \<times> 'w" where
  "delete_result api m p i w =
     (let ((ret, _), w1) =
        retry_upto (status_op (zoo_delete api (m_zh m) (child_path p i) (-1))) 3 (ZCONNECTIONLOSS, ()) w
      in (ret, w1))"

lemma call_completion_update [simp]:
  "call_completion api (m\<lparr>m_pmutex := x\<rparr>) rc w = call_completion api m rc w"
  "call_completion api (m\<lparr>m_isOwner := b\<rparr>) rc w = call_completion api m rc w"
  "call_completion api (m\<lparr>m_ownerid := y\<rparr>) rc w = call_completion api m rc w"
  "call_completion api (m\<lparr>m_id := y\<rparr>) rc w = call_completion api m rc w"
  by (simp_all add: call_completion_def split: option.split)

lemma unlock_eq:
  assumes "m_pmutex m = PUnlocked" "m_path m = Str p"
  shows "zkr_lock_unlock api m w = (case m_id m of
      Null \<Rightarrow> Ret (ZSYSTEMERROR, m, w) | Freed \<Rightarrow> Fault UseAfterFree
    | Str i \<Rightarrow> (let (ret, w1) = delete_result api m p i w in
        if ret = ZOK \<or> ret = ZNONODE then Ret (0, m\<lparr>m_id := Null\<rparr>, call_completion api m 1 w1)
        else Ret (ZCONNECTIONLOSS, m, w1)))"
proof -
  have "m\<lparr>m_id := Null, m_pmutex := PUnlocked\<rparr> = m\<lparr>m_id := Null\<rparr>" "m\<lparr>m_pmutex := PUnlocked\<rparr> = m"
    using assms(1) by (cases m; simp)+
  with assms show ?thesis
    by (cases "m_id m") (simp_all add: zkr_lock_unlock_def mutex_defs delete_result_def split_beta Let_def)
qed

lemma unlock_held: "m_pmutex m = PLocked \<Longrightarrow> zkr_lock_unlock api m w = Fault Deadlock"
  by (simp add: zkr_lock_unlock_def pthread_mutex_lock_def)

lemma unlock_ok:
  assumes "mutex_ok m"
  shows "\<exists>r m' w'. zkr_lock_unlock api m w = Ret (r, m', w') \<and> mutex_ok m' \<and> same_config m m' \<and>
    m_ownerid m' = m_ownerid m \<and> (r = 0 \<longrightarrow> m_id m \<noteq> Null \<and> m_id m' = Null) \<and> (r \<noteq> 0 \<longrightarrow> m' = m)"
proof -
  from assms obtain p where p: "m_pmutex m = PUnlocked" "m_path m = Str p" "m_id m \<noteq> Freed"
    by (auto simp: mutex_defs)
  show ?thesis
  proof (cases "m_id m")
    case Null
    then show ?thesis using p assms by (simp add: unlock_eq)
  next
    case (Str i)
    obtain ret w1 where "delete_result api m p i w = (ret, w1)" by fastforce
    then show ?thesis using Str p assms
      by (cases "ret = ZOK \<or> ret = ZNONODE") (auto simp: unlock_eq mutex_defs)
  qed (use p in simp)
qed

lemma unlock_until_error_held:
  "m_pmutex m = PLocked \<Longrightarrow> unlock_until_error api m w = Some (Fault Deadlock)"
  by (simp add: unlock_until_error.simps [of api m w] unlock_held)

section \<open>The operation under the invariant\<close>

lemma getName_not_Freed [simp]: "getName s \<noteq> Freed"
  by (simp add: getName_def split: option.splits)

lemma ptr_of_not_Freed [simp]: "ptr_of x \<noteq> Freed"
  by (cases x) auto

text \<open>The three ways out of the first half, and of the second one.\<close>

lemma find_or_create_cases:
  assumes "lock_find_or_create api m path w = (res, m1, w1)"
  obtains
    (lost) ret kids where "retry_getchildren api (m_zh m) path 3 w = ((ret, kids), w1)"
      "ret \<noteq> ZOK" "res = Inl ret" "m1 = m"
  | (found) kids c where "retry_getchildren api (m_zh m) path 3 w = ((ZOK, kids), w1)"
      "lookupnode kids (lock_prefix (fst (zoo_client_id api (m_zh m) w))) = Some c"
      "res = Inr ()" "m1 = m\<lparr>m_id := Str c\<rparr>"
  | (created) kids w2 len ret retbuf where
      "retry_getchildren api (m_zh m) path 3 w = ((ZOK, kids), w2)"
      "lookupnode kids (lock_prefix (fst (zoo_client_id api (m_zh m) w))) = None"
      "len = length path + 21"
      "zoo_create api (m_zh m)
         (snprintf len (child_path path (lock_prefix (fst (zoo_client_id api (m_zh m) w))))) None 0
         (m_acl m) (or ZOO_EPHEMERAL ZOO_SEQUENCE) (len + 20) w2 = ((ret, retbuf), w1)"
      "ret = ZOK \<and> res = Inr () \<and> m1 = m\<lparr>m_id := getName retbuf\<rparr> \<or>
       ret \<noteq> ZOK \<and> res = Inl ret \<and> m1 = m\<lparr>m_id := Null\<rparr>"
proof -
  let ?prefix = "lock_prefix (fst (zoo_client_id api (m_zh m) w))"
  obtain ret kids w2 where g: "retry_getchildren api (m_zh m) path 3 w = ((ret, kids), w2)"
    by (metis prod.collapse)
  show thesis
  proof (cases "ret = ZOK")
    case False
    with g assms show thesis
      by (intro lost) (auto simp: lock_find_or_create_def split_beta)
  next
    case True
    show thesis
    proof (cases "lookupnode kids ?prefix")
      case (Some c)
      with True g assms show thesis
        by (intro found) (auto simp: lock_find_or_create_def split_beta)
    next
      case None
      obtain ret' retbuf w3 where c: "zoo_create api (m_zh m)
          (snprintf (length path + 21) (child_path path ?prefix)) None 0
          (m_acl m) (or ZOO_EPHEMERAL ZOO_SEQUENCE) (length path + 21 + 20) w2 = ((ret', retbuf), w3)"
        by (metis prod.collapse)
      with True None g assms show thesis
        by (intro created [of kids w2 "length path + 21" ret' retbuf])
          (auto simp: lock_find_or_create_def split_beta Let_def add_ac split: if_splits)
    qed
  qed
qed

lemma decide_cases:
  assumes "lock_decide api m path ident w = Some (Ret (r, m', w'))" "m_pmutex m = PLocked"
  obtains
    (lost) kids where "retry_getchildren api (m_zh m) path 3 w = ((r, kids), w')" "r \<noteq> ZOK" "m' = m"
  | (waits) kids w1 owner rest pred stat where
      "retry_getchildren api (m_zh m) path 3 w = ((ZOK, kids), w1)"
      "sort_children kids = Ret (owner # rest)" "child_floor (owner # rest) ident = Some pred"
      "retry_zoowexists api (m_zh m) (child_path path pred) LockWatcher 3 w1 = ((ZOK, stat), w')"
      "r = ZOK" "m' = m\<lparr>m_ownerid := Str owner, m_isOwner := 0\<rparr>"
  | (owns) kids w1 owner rest where
      "retry_getchildren api (m_zh m) path 3 w = ((ZOK, kids), w1)"
      "sort_children kids = Ret (owner # rest)" "child_floor (owner # rest) ident = None"
      "ident = owner" "w' = call_completion api m 0 w1"
      "r = ZOK" "m' = m\<lparr>m_ownerid := Str owner, m_isOwner := 1\<rparr>"
  | (stranded) kids owner rest where
      "retry_getchildren api (m_zh m) path 3 w = ((ZOK, kids), w')"
      "sort_children kids = Ret (owner # rest)" "child_floor (owner # rest) ident = None"
      "ident \<noteq> owner" "r = ZOK" "m' = m\<lparr>m_ownerid := Str owner\<rparr>"
proof -
  obtain ret kids w1 where g: "retry_getchildren api (m_zh m) path 3 w = ((ret, kids), w1)"
    by (metis prod.collapse)
  show thesis
  proof (cases "ret = ZOK")
    case False
    with g assms(1) show thesis by (intro lost) (auto simp: lock_decide_def)
  next
    case True
    with g assms(1) obtain sv where "sort_children kids = Ret sv" "sv \<noteq> []"
      by (cases "sort_children kids") (auto simp: lock_decide_def split: list.splits)
    then obtain owner rest where s: "sort_children kids = Ret (owner # rest)" by (cases sv) auto
    show thesis
    proof (cases "child_floor (owner # rest) ident")
      case None
      with True g s assms(1) show thesis
        by (cases "ident = owner") (auto simp: lock_decide_def Let_def intro: owns stranded)
    next
      case (Some pred)
      obtain ret' st w2 where
        "retry_zoowexists api (m_zh m) (child_path path pred) LockWatcher 3 w1 = ((ret', st), w2)"
        by (metis prod.collapse)
      with Some True g s assms show thesis
        by (intro waits [of kids w1 owner rest pred st])
          (auto simp: lock_decide_def Let_def unlock_until_error_held split: if_splits)
    qed
  qed
qed

lemma find_or_create_frame:
  assumes "lock_find_or_create api m path w = (res, m1, w1)" "mutex_held m"
  shows "mutex_held m1 \<and> same_config m m1 \<and> m_ownerid m1 = m_ownerid m"
  using assms(1) by (cases rule: find_or_create_cases) (use assms(2) in \<open>auto simp: mutex_defs\<close>)

lemma decide_frame:
  assumes "lock_decide api m path ident w = Some (Ret (r, m', w'))" "mutex_held m"
  shows "mutex_held m' \<and> same_config m m' \<and> m_id m' = m_id m"
proof -
  have "m_pmutex m = PLocked" using assms(2) by (simp add: mutex_defs)
  with assms(1) show ?thesis
    by (cases rule: decide_cases) (use assms(2) in \<open>auto simp: mutex_defs\<close>)
qed

text \<open>
  The loop rule of the operation: \<open>I\<close> holds at the top of the body, \<open>J\<close> between its
  halves, and \<open>Q\<close> when it returns.
\<close>

lemma operation_rule:
  assumes ret: "zkr_lock_operation api m w = Some (Ret (r, m', w'))"
    and start: "I m w" "m_path m = Str path"
    and first_ret: "\<And>m w ret m1 w1. I m w \<Longrightarrow>
      lock_find_or_create api m path w = (Inl ret, m1, w1) \<Longrightarrow> Q ret m1 w1"
    and first: "\<And>m w m1 w1. I m w \<Longrightarrow>
      lock_find_or_create api m path w = (Inr (), m1, w1) \<Longrightarrow> J m1 w1"
    and again: "\<And>m w. J m w \<Longrightarrow> m_id m = Null \<Longrightarrow> I m w"
    and second: "\<And>m w i r m' w'. J m w \<Longrightarrow> m_id m = Str i \<Longrightarrow>
      lock_decide api m path i w = Some (Ret (r, m', w')) \<Longrightarrow> Q r m' w'"
  shows "Q r m' w'"
proof -
  let ?P = "\<lambda>(api' :: 'a zk_api) m w out. api' = api \<longrightarrow> I m w \<longrightarrow> m_path m = Str path \<longrightarrow>
    (\<forall>r m' w'. out = Ret (r, m', w') \<longrightarrow> Q r m' w')"
  have "?P api m w (Ret (r, m', w'))"
  proof (rule zkr_lock_operation.raw_induct [where P = ?P, OF _ ret])
    fix f :: "'a zk_api \<Rightarrow> zkr_lock_mutex \<Rightarrow> 'a \<Rightarrow> (int \<times> zkr_lock_mutex \<times> 'a) run"
      and api' m w out
    assume IH: "\<And>api' m w out. f api' m w = Some out \<Longrightarrow> ?P api' m w out"
      and eq: "(case deref (m_path m) of Fault e \<Rightarrow> Some (Fault e) | Bailout s \<Rightarrow> Some (Bailout s)
        | Ret path \<Rightarrow> (case lock_find_or_create api' m path w of (res, m1, w1) \<Rightarrow>
          (case res of Inl ret \<Rightarrow> Some (Ret (ret, m1, w1))
           | Inr _ \<Rightarrow> (case m_id m1 of Null \<Rightarrow> f api' m1 w1 | Freed \<Rightarrow> Some (Fault UseAfterFree)
             | Str ident \<Rightarrow> lock_decide api' m1 path ident w1)))) = Some out"
    show "?P api' m w out"
    proof (intro impI allI)
      fix r m' w'
      assume a: "api' = api" "I m w" "m_path m = Str path" "out = Ret (r, m', w')"
      obtain res m1 w1 where fc: "lock_find_or_create api m path w = (res, m1, w1)"
        by (metis prod.collapse)
      have p1: "m_path m1 = Str path"
        using fc a(3) by (cases rule: find_or_create_cases) auto
      show "Q r m' w'"
      proof (cases res)
        case (Inl ret)
        with eq fc a first_ret show ?thesis by simp
      next
        case (Inr u)
        with fc a first have J: "J m1 w1" by simp
        show ?thesis
        proof (cases "m_id m1")
          case Null
          with eq fc a Inr have "f api m1 w1 = Some out" by simp
          from IH [OF this] again [OF J Null] p1 a show ?thesis by simp
        next
          case (Str i)
          with eq fc a Inr second [OF J Str] show ?thesis by simp
        next
          case Freed
          with eq fc a Inr show ?thesis by simp
        qed
      qed
    qed
  qed
  then show ?thesis using start by simp
qed

lemma operation_frame:
  assumes "zkr_lock_operation api m w = Some (Ret (r, m', w'))" "mutex_held m"
  shows "mutex_held m' \<and> same_config m m'"
proof -
  from assms(2) obtain path where p: "m_path m = Str path" by (auto simp: mutex_defs)
  show ?thesis
    by (rule operation_rule [where I = "\<lambda>m1 w. mutex_held m1 \<and> same_config m m1" and
          J = "\<lambda>m1 w. mutex_held m1 \<and> same_config m m1", OF assms(1) _ p])
      (use assms(2) in \<open>auto dest: find_or_create_frame decide_frame intro: same_config_trans\<close>)
qed

lemma op_loop_rule:
  assumes "lock_op_loop api n s m w = Some (Ret (r, m', w'))" "I m w"
    and "\<And>m w r m' w'. I m w \<Longrightarrow> zkr_lock_operation api m w = Some (Ret (r, m', w')) \<Longrightarrow> I m' w'"
  shows "I m' w'"
  using assms(1,2)
proof (induction n arbitrary: s m w)
  case 0
  then show ?case by simp
next
  case (Suc n)
  show ?case
  proof (cases "s = ZOK")
    case True
    with Suc.prems show ?thesis by simp
  next
    case False
    with Suc.prems obtain r1 m1 w1 where "zkr_lock_operation api m w = Some (Ret (r1, m1, w1))"
      "lock_op_loop api n r1 m1 w1 = Some (Ret (r, m', w'))" by (auto simp: xbind_eq_Ret)
    with Suc.IH Suc.prems(2) assms(3) show ?thesis by blast
  qed
qed

text \<open>A call of lock that returns, taken apart into its two phases.\<close>

lemma lock_phases:
  assumes "zkr_lock_lock api m w = Some (Ret (b, m', w'))"
  obtains path ex st w1 ex' w2 r m1 where "m_pmutex m = PUnlocked" "m_path m = Str path"
    "zoo_exists api (m_zh m) path False w = ((ex, st), w1)"
    "ensure_path api (m_zh m) path (m_acl m) 4 ex w1 = (ex', w2)"
    "lock_op_loop api 4 ZCONNECTIONLOSS (m\<lparr>m_pmutex := PLocked\<rparr>) w2 = Some (Ret (r, m1, w'))"
    "m' = m1\<lparr>m_pmutex := PUnlocked\<rparr>" "zkr_lock_isowner m' = Ret b"
proof -
  from assms obtain path where p: "m_pmutex m = PUnlocked" "m_path m = Str path"
    by (cases "m_pmutex m"; cases "m_path m") (auto simp: zkr_lock_lock_def pthread_mutex_lock_def)
  obtain ex st w1 where e: "zoo_exists api (m_zh m) path False w = ((ex, st), w1)"
    by (metis prod.collapse)
  obtain ex' w2 where en: "ensure_path api (m_zh m) path (m_acl m) 4 ex w1 = (ex', w2)"
    by (metis prod.collapse)
  from assms p e en that show thesis
    by (auto simp: zkr_lock_lock_def pthread_mutex_lock_def pthread_mutex_unlock_def xbind_eq_Ret Let_def)
qed

lemma lock_ok:
  assumes "mutex_ok m" "zkr_lock_lock api m w = Some (Ret (b, m', w'))"
  shows "mutex_ok m' \<and> same_config m m' \<and> zkr_lock_isowner m' = Ret b"
  using assms(2)
proof (cases rule: lock_phases)
  case (1 path ex st w1 ex' w2 r m1)
  have "mutex_held (m\<lparr>m_pmutex := PLocked\<rparr>)" using assms(1) by (simp add: mutex_defs)
  with 1(5) have "mutex_held m1 \<and> same_config (m\<lparr>m_pmutex := PLocked\<rparr>) m1"
    by (rule_tac op_loop_rule [where I = "\<lambda>m1 w. mutex_held m1 \<and> same_config (m\<lparr>m_pmutex := PLocked\<rparr>) m1"])
      (auto dest: operation_frame intro: same_config_trans)
  with 1(6,7) show ?thesis by (auto simp: mutex_defs)
qed

section \<open>Returning\<close>

text \<open>
  The library fills the path buffer with an absolute path, so a successful create gives a name.
\<close>

definition create_gives_path :: "'w zk_api \<Rightarrow> bool" where
  "create_gives_path api \<longleftrightarrow> (\<forall>zh p v l acl fl sz w q w'. 1 < sz \<longrightarrow>
     zoo_create api zh p v l acl fl sz w = ((ZOK, q), w') \<longrightarrow> CHR ''/'' \<in> set q)"

lemma find_or_create_named:
  assumes gives: "create_gives_path api" and call: "lock_find_or_create api m path w = (Inr u, m1, w1)"
  shows "\<exists>i. m_id m1 = Str i"
  using call
proof (cases rule: find_or_create_cases)
  case (created kids w2 len ret retbuf)
  have "CHR ''/'' \<in> set retbuf"
    using gives [unfolded create_gives_path_def, rule_format, of "len + 20", OF _ _] created(3-5) by fastforce
  then have "strrchr retbuf (CHR ''/'') \<noteq> None" by simp
  with created(5) show ?thesis by (auto simp: getName_def simp del: strrchr_None)
qed auto

lemma unlock_zero: "zkr_lock_unlock api m w = Ret (0, m', w') \<Longrightarrow> m_id m' = Null"
  by (cases "m_pmutex m"; cases "m_path m"; cases "m_id m")
    (auto simp: zkr_lock_unlock_def pthread_mutex_lock_def pthread_mutex_unlock_def split_beta Let_def
      split: if_splits)

lemma unlock_null: "m_id m = Null \<Longrightarrow> zkr_lock_unlock api m w \<noteq> Ret (0, r)"
  by (cases "m_pmutex m") (auto simp: zkr_lock_unlock_def pthread_mutex_lock_def)

lemma unlock_until_error_null: "m_id m = Null \<Longrightarrow> \<exists>out. unlock_until_error api m w = Some out"
  using unlock_null [of m api w]
  by (auto simp: unlock_until_error.simps [of api m w] split: outcome.split)

lemma unlock_until_error_returns: "\<exists>out. unlock_until_error api m w = Some out"
  using unlock_until_error_null unlock_zero [of api m w]
  by (auto simp: unlock_until_error.simps [of api m w] split: outcome.split)

lemma xbind_returns:
  "\<exists>out. x = Some out \<Longrightarrow> (\<And>a. \<exists>out. f a = Some out) \<Longrightarrow> \<exists>out. xbind x f = Some out"
  by (auto simp: xbind_def split: outcome.splits)

lemma decide_returns: "\<exists>out. lock_decide api m path ident w = Some out"
proof -
  obtain ret kids w1 where g: "retry_getchildren api (m_zh m) path 3 w = ((ret, kids), w1)"
    by (metis prod.collapse)
  show ?thesis
  proof (cases "ret = ZOK")
    case False
    with g show ?thesis by (simp add: lock_decide_def)
  next
    case True
    with g show ?thesis
      by (cases "sort_children kids")
        (auto simp: lock_decide_def Let_def unlock_until_error_returns split_beta
          split: list.splits option.splits)
  qed
qed

lemma operation_returns:
  assumes "create_gives_path api"
  shows "\<exists>out. zkr_lock_operation api m w = Some out"
proof (cases "m_path m")
  case (Str path)
  obtain res m1 w1 where fc: "lock_find_or_create api m path w = (res, m1, w1)"
    by (metis prod.collapse)
  show ?thesis
  proof (cases res)
    case (Inl ret)
    with Str fc show ?thesis by (simp add: zkr_lock_operation.simps [of api m w])
  next
    case (Inr u)
    with fc find_or_create_named [OF assms, of m path w u m1 w1] obtain i where "m_id m1 = Str i" by auto
    with Str fc Inr show ?thesis
      by (simp add: zkr_lock_operation.simps [of api m w] decide_returns)
  qed
qed (simp_all add: zkr_lock_operation.simps [of api m w])

lemma op_loop_returns: "create_gives_path api \<Longrightarrow> \<exists>out. lock_op_loop api n s m w = Some out"
proof (induction n arbitrary: s m w)
  case 0
  then show ?case by simp
next
  case (Suc n)
  then show ?case by (auto intro!: xbind_returns operation_returns split: prod.split)
qed

lemma lock_returns: "create_gives_path api \<Longrightarrow> \<exists>out. zkr_lock_lock api m w = Some out"
  unfolding zkr_lock_lock_def Let_def split_beta
  by (intro xbind_returns op_loop_returns) auto

section \<open>Faults\<close>

text \<open>
  What can end a call on a sound mutex other than a return: after a listing of the children was
  answered, no child is in it, or one of several has no dash in its name, or one of them
  can not be watched, so that the thread waits for the mutex that it holds.
\<close>

definition lock_fault_cause :: "'w zk_api \<Rightarrow> zhandle \<Rightarrow> string \<Rightarrow> fault \<Rightarrow> bool" where
  "lock_fault_cause api zh path e \<longleftrightarrow> (\<exists>w kids w1. retry_getchildren api zh path 3 w = ((ZOK, kids), w1) \<and>
     (e = OutOfBounds \<and> kids = [] \<or>
      e = NullDeref \<and> 2 \<le> length kids \<and> (\<exists>c\<in>set kids. CHR ''-'' \<notin> set c) \<or>
      e = Deadlock \<and> (\<exists>c\<in>set kids.
        fst (fst (retry_zoowexists api zh (child_path path c) LockWatcher 3 w1)) \<noteq> ZOK)))"

lemma decide_outcome:
  assumes call: "lock_decide api m path ident w = Some out" and held: "m_pmutex m = PLocked"
  shows "(\<exists>r m' w'. out = Ret (r, m', w')) \<or> (\<exists>e. out = Fault e \<and> lock_fault_cause api (m_zh m) path e)"
proof -
  obtain ret kids w1 where g: "retry_getchildren api (m_zh m) path 3 w = ((ret, kids), w1)"
    by (metis prod.collapse)
  show ?thesis
  proof (cases "ret = ZOK")
    case False
    with g call show ?thesis by (auto simp: lock_decide_def)
  next
    case True
    note cause = lock_fault_cause_def [THEN iffD2, OF exI, OF exI, OF exI, OF conjI, OF g [unfolded True]]
    show ?thesis
    proof (cases "sort_children kids")
      case (Ret sv)
      show ?thesis
      proof (cases sv)
        case Nil
        with Ret have "kids = []" using sort_children_set [of kids sv] by simp
        with cause [of OutOfBounds] g True Ret Nil call show ?thesis by (auto simp: lock_decide_def)
      next
        case (Cons owner rest)
        show ?thesis
        proof (cases "child_floor sv ident")
          case None
          with g True Ret Cons call show ?thesis
            by (cases "strcmp ident owner = 0") (auto simp: lock_decide_def Let_def)
        next
          case (Some pred)
          then have "pred \<in> set kids" using child_floor_SomeD [OF Some] sort_children_set [OF Ret] by simp
          then have "fst (fst (retry_zoowexists api (m_zh m) (child_path path pred) LockWatcher 3 w1)) \<noteq> ZOK \<Longrightarrow>
              lock_fault_cause api (m_zh m) path Deadlock" using cause [of Deadlock] by blast
          with g True Ret Cons Some call held show ?thesis
            by (cases "retry_zoowexists api (m_zh m) (child_path path pred) LockWatcher 3 w1")
              (auto simp: lock_decide_def Let_def unlock_until_error_held split: if_splits)
        qed
      qed
    next
      case (Fault e)
      then have "e = NullDeref" "2 \<le> length kids" "\<exists>c\<in>set kids. CHR ''-'' \<notin> set c"
        by (auto simp: sort_children_def list_all_iff split: if_splits)
      with cause [of NullDeref] g True Fault call show ?thesis by (auto simp: lock_decide_def)
    next
      case (Bailout b)
      then show ?thesis by (simp add: sort_children_def split: if_splits)
    qed
  qed
qed

lemma operation_outcome:
  assumes gives: "create_gives_path api" and held: "mutex_held m" "m_path m = Str path"
  shows "\<exists>out. zkr_lock_operation api m w = Some out \<and>
    ((\<exists>r m' w'. out = Ret (r, m', w')) \<or> (\<exists>e. out = Fault e \<and> lock_fault_cause api (m_zh m) path e))"
proof -
  obtain res m1 w1 where fc: "lock_find_or_create api m path w = (res, m1, w1)"
    by (metis prod.collapse)
  show ?thesis
  proof (cases res)
    case (Inl ret)
    with held fc show ?thesis by (simp add: zkr_lock_operation.simps [of api m w])
  next
    case (Inr u)
    with fc find_or_create_named [OF gives, of m path w u m1 w1] obtain i where i: "m_id m1 = Str i" by auto
    have m1: "m_pmutex m1 = PLocked" "m_zh m1 = m_zh m"
      using find_or_create_frame [OF fc held(1)] by (simp_all add: mutex_defs)
    obtain out where d: "lock_decide api m1 path i w1 = Some out" using decide_returns [of api m1 path i w1] by blast
    with decide_outcome [OF d m1(1)] m1(2) held(2) fc Inr i show ?thesis
      by (simp add: zkr_lock_operation.simps [of api m w])
  qed
qed

lemma op_loop_outcome:
  assumes "create_gives_path api" "mutex_held m" "m_path m = Str path"
  shows "\<exists>out. lock_op_loop api n s m w = Some out \<and>
    ((\<exists>r m' w'. out = Ret (r, m', w') \<and> mutex_held m') \<or> (\<exists>e. out = Fault e \<and> lock_fault_cause api (m_zh m) path e))"
  using assms(2,3)
proof (induction n arbitrary: s m w)
  case 0
  then show ?case by simp
next
  case (Suc n)
  show ?case
  proof (cases "s = ZOK")
    case True
    with Suc.prems show ?thesis by simp
  next
    case False
    obtain out where op: "zkr_lock_operation api m w = Some out" and
      out: "(\<exists>r m' w'. out = Ret (r, m', w')) \<or> (\<exists>e. out = Fault e \<and> lock_fault_cause api (m_zh m) path e)"
      using operation_outcome [OF assms(1) Suc.prems, of w] by blast
    from out show ?thesis
    proof (elim disjE exE conjE)
      fix r m' w' assume r: "out = Ret (r, m', w')"
      with op Suc.prems(1) have "mutex_held m'" "same_config m m'" by (auto dest: operation_frame)
      with Suc.IH [of m' r w'] Suc.prems(2) op r False show ?thesis by (simp add: same_config_def)
    qed (use op False in simp)
  qed
qed

lemma lock_outcome:
  assumes "create_gives_path api" "mutex_ok m" "m_path m = Str path"
  shows "\<exists>out. zkr_lock_lock api m w = Some out \<and>
    ((\<exists>b m' w'. out = Ret (b, m', w')) \<or> (\<exists>e. out = Fault e \<and> lock_fault_cause api (m_zh m) path e))"
proof -
  let ?m = "m\<lparr>m_pmutex := PLocked\<rparr>"
  obtain ex st w1 where e: "zoo_exists api (m_zh m) path False w = ((ex, st), w1)"
    by (metis prod.collapse)
  obtain ex' w2 where en: "ensure_path api (m_zh m) path (m_acl m) 4 ex w1 = (ex', w2)"
    by (metis prod.collapse)
  have "mutex_held ?m" "m_path ?m = Str path" "m_zh ?m = m_zh m" using assms(2,3) by (simp_all add: mutex_defs)
  from op_loop_outcome [OF assms(1) this(1,2), of 4 ZCONNECTIONLOSS w2] this(3) obtain out where
    l: "lock_op_loop api 4 ZCONNECTIONLOSS ?m w2 = Some out" and
    out: "(\<exists>r m' w'. out = Ret (r, m', w') \<and> mutex_held m') \<or> (\<exists>e. out = Fault e \<and> lock_fault_cause api (m_zh m) path e)"
    by auto
  have start: "zkr_lock_lock api m w = xbind (Some out) (\<lambda>(_, m1, w3).
      let m2 = pthread_mutex_unlock m1 in xbind (Some (zkr_lock_isowner m2)) (\<lambda>b. Some (Ret (b, m2, w3))))"
    using assms(2,3) e en l by (simp add: zkr_lock_lock_def pthread_mutex_lock_def mutex_defs Let_def)
  from out show ?thesis
  proof (elim disjE exE conjE)
    fix r m' w' assume r: "out = Ret (r, m', w')" "mutex_held m'"
    then have "strings_ok (pthread_mutex_unlock m')" by (auto simp: mutex_defs)
    from isowner_ok [OF this] start r(1) show ?thesis by (simp add: Let_def)
  qed (use start in simp)
qed

section \<open>Destroy\<close>

lemma destroy_ok:
  assumes "mutex_ok m \<or> m_pmutex m = PUnlocked \<and> m_id m \<noteq> Freed \<and> m_ownerid m \<noteq> Freed"
  shows "\<exists>m'. zkr_lock_destroy m = Ret (0, m') \<and> m_pmutex m' = PUninit \<and> m_path m' = Null \<and>
    (m_id m' = Null \<or> m_id m' = Freed) \<and> (m_ownerid m' = Null \<or> m_ownerid m' = Freed)"
  using assms
  by (cases "m_id m"; cases "m_ownerid m")
    (auto simp: zkr_lock_destroy_def pthread_mutex_destroy_def mutex_ok_def strings_ok_def)

end
