(* ===== verification/Session.thy ===== *)
theory Session
  imports Zoo_Lock
begin

text \<open>
  The PHP session save handler of \<open>php_zookeeper_session.c\<close>: one persistent connection per save
  path, a node \<open>/php-sessid/<key>\<close> per session, and the lock of \<open>zoo_lock.c\<close> on
  \<open>/php-sessid/<key>-lock\<close>. One definition per function and handler. The engine's values the
  handlers read are a record \<open>php_env\<close>; sessions live in an explicit store, since the
  persistent list and the module data share them by address.
\<close>

section \<open>State\<close>

record php_zookeeper_session =
  s_zk :: zhandle
  s_lock :: zkr_lock_mutex
  s_is_locked :: bool
  s_path :: string

text \<open>
  What the handlers read of the engine: the module globals, \<open>max_execution_time\<close>,
  \<open>SG(global_request_time)\<close>, \<open>PS(gc_maxlifetime)\<close>, \<open>PS(save_path)\<close>, the resource type
  of the connections, whether \<open>zend_hash_update\<close> fails, and the engine's \<open>spprintf\<close>
  (a maximal length, 0 for none, and the formatted text).
\<close>

record php_env =
  g_recv_timeout :: int
  g_session_lock :: bool
  g_sess_lock_wait :: int
  e_max_execution_time :: int
  e_request_time :: int
  e_gc_maxlifetime :: int
  e_save_path :: string
  e_le_connection :: int
  e_hash_update_fails :: bool
  e_spprintf :: "nat \<Rightarrow> string \<Rightarrow> string"

record 'w php_state =
  ps_world :: 'w
  ps_heap :: "nat \<Rightarrow> php_zookeeper_session option"
  ps_fresh :: nat
  ps_plist :: "string \<Rightarrow> (int \<times> nat option) option"
  ps_mod_data :: "nat option"

datatype allocator = Persistent | Request

text \<open>\<open>efree\<close> releases memory of the request allocator only.\<close>

definition efree :: "allocator \<Rightarrow> unit outcome" where
  "efree a = (case a of Request \<Rightarrow> Ret () | Persistent \<Rightarrow> Fault BadFree)"

abbreviation PHP_ZK_PARENT_NODE :: string where "PHP_ZK_PARENT_NODE \<equiv> ''/php-sessid''"
abbreviation PHP_ZK_SESS_DEFAULT_LOCK_WAIT :: int where "PHP_ZK_SESS_DEFAULT_LOCK_WAIT \<equiv> 150000"
abbreviation PHP_ZK_SESS_LOCK_EXPIRATION :: int where "PHP_ZK_SESS_LOCK_EXPIRATION \<equiv> 30"

definition ZOO_OPEN_ACL_UNSAFE :: acl_vector where
  "ZOO_OPEN_ACL_UNSAFE = [\<lparr>acl_perms = 31, acl_scheme = ''world'', acl_ident = ''anyone''\<rparr>]"

definition zeroed_session :: php_zookeeper_session where
  "zeroed_session = \<lparr>s_zk = 0,
     s_lock = \<lparr>m_zh = 0, m_path = Null, m_acl = None, m_id = Null, m_cbdata = 0, m_completion = None,
               m_pmutex = PUninit, m_isOwner = 0, m_ownerid = Null\<rparr>,
     s_is_locked = False, s_path = []\<rparr>"

text \<open>Reading the module data and the session it points to.\<close>

definition with_session ::
  "'w php_state \<Rightarrow> (nat \<Rightarrow> php_zookeeper_session \<Rightarrow> 'b run) \<Rightarrow> 'b run" where
  "with_session st f = (case ps_mod_data st of
     None \<Rightarrow> Some (Fault NullDeref)
   | Some p \<Rightarrow> (case ps_heap st p of None \<Rightarrow> Some (Fault UseAfterFree) | Some s \<Rightarrow> f p s))"

definition put_session :: "'w php_state \<Rightarrow> nat \<Rightarrow> php_zookeeper_session \<Rightarrow> 'w \<Rightarrow> 'w php_state" where
  "put_session st p s w = st\<lparr>ps_heap := (ps_heap st)(p := Some s), ps_world := w\<rparr>"

text \<open>A library call with the retry loop of this file, from \<^verbatim>\<open>retry_count = 3\<close>.\<close>

definition retried :: "('w, 'a) zk_op \<Rightarrow> 'w \<Rightarrow> (int \<times> 'a \<times> 'w) run" where
  "retried op w = (case retry_loop op 3 w of
     None \<Rightarrow> None | Some ((status, r), w') \<Rightarrow> Some (Ret (status, r, w')))"

section \<open>Connections\<close>

definition php_zookeeper_session_init ::
  "php_env \<Rightarrow> 'w zk_api \<Rightarrow> string \<Rightarrow> 'w php_state \<Rightarrow> (nat option \<times> 'w php_state) run" where
  "php_zookeeper_session_init env api save_path st =
     (let p = ps_fresh st;
          (zk, w1) = zookeeper_init api save_path None (to_int32 (g_recv_timeout env)) (ps_world st)
      in case zk of
           None \<Rightarrow> xbind (Some (efree Persistent)) (\<lambda>_. Some (Ret (None, st\<lparr>ps_world := w1\<rparr>)))
         | Some zh \<Rightarrow>
             let s = zeroed_session\<lparr>s_zk := zh\<rparr>;
                 ((ex, _), w2) = zoo_exists api zh PHP_ZK_PARENT_NODE True w1;
                 alloc = (\<lambda>w. (put_session st p s w)\<lparr>ps_fresh := Suc p\<rparr>)
             in if ex = ZNONODE then
                  xbind (retried (zoo_create api zh PHP_ZK_PARENT_NODE None 0
                      (Some ZOO_OPEN_ACL_UNSAFE) 0 0) w2) (\<lambda>(status, _, w3).
                    if status \<noteq> ZOK then
                      let w4 = zookeeper_close api zh w3
                      in xbind (Some (efree Persistent)) (\<lambda>_.
                           Some (Bailout ''Failed to create parent node for sessions''))
                    else Some (Ret (Some p, alloc w3)))
                else Some (Ret (Some p, alloc w2)))"

definition plist_key :: "php_env \<Rightarrow> string \<Rightarrow> string" where
  "plist_key env save_path = e_spprintf env 0 (''zk-conn:['' @ save_path @ '']'')"

text \<open>The second half of \<open>php_zookeeper_session_get\<close>: a new connection is made and registered.\<close>

definition session_connect ::
  "php_env \<Rightarrow> 'w zk_api \<Rightarrow> string \<Rightarrow> 'w php_state \<Rightarrow> (nat option \<times> 'w php_state) run" where
  "session_connect env api save_path st =
     xbind (php_zookeeper_session_init env api save_path st) (\<lambda>(session, st1).
       if e_hash_update_fails env
       then Some (Bailout ''Could not register persistent entry for the zk handle'')
       else let st2 = st1\<lparr>ps_plist :=
              (ps_plist st1)(plist_key env save_path := Some (e_le_connection env, session))\<rparr>
         in case session of
              None \<Rightarrow> Some (Fault NullDeref)
            | Some p \<Rightarrow> (case ps_heap st2 p of
                None \<Rightarrow> Some (Fault UseAfterFree)
              | Some s \<Rightarrow> Some (Ret (Some p, put_session st2 p (s\<lparr>s_is_locked := False\<rparr>) (ps_world st2)))))"

definition php_zookeeper_session_get ::
  "php_env \<Rightarrow> 'w zk_api \<Rightarrow> string \<Rightarrow> 'w php_state \<Rightarrow> (nat option \<times> 'w php_state) run" where
  "php_zookeeper_session_get env api save_path st = (case ps_plist st (plist_key env save_path) of
     Some (ty, ptr) \<Rightarrow> if ty = e_le_connection env then Some (Ret (ptr, st))
                      else session_connect env api save_path st
   | None \<Rightarrow> session_connect env api save_path st)"

definition ps_open_zookeeper :: "php_env \<Rightarrow> 'w zk_api \<Rightarrow> 'w php_state \<Rightarrow> (bool \<times> 'w php_state) run" where
  "ps_open_zookeeper env api st =
     xbind (php_zookeeper_session_get env api (e_save_path env) st) (\<lambda>(session, st1).
       case session of
         None \<Rightarrow> Some (Ret (False, st1\<lparr>ps_mod_data := None\<rparr>))
       | Some p \<Rightarrow> Some (Ret (True, st1\<lparr>ps_mod_data := Some p\<rparr>)))"

text \<open>The destructor of a persistent connection, from \<open>php_zookeeper.c\<close>.\<close>

definition php_zookeeper_connection_dtor ::
  "'w zk_api \<Rightarrow> string \<Rightarrow> 'w php_state \<Rightarrow> 'w php_state outcome" where
  "php_zookeeper_connection_dtor api key st = (case ps_plist st key of
     Some (ty, Some p) \<Rightarrow> (case ps_heap st p of
         None \<Rightarrow> Fault UseAfterFree
       | Some s \<Rightarrow> Ret (st\<lparr>ps_world := zookeeper_close api (s_zk s) (ps_world st),
            ps_heap := (ps_heap st)(p := None), ps_plist := (ps_plist st)(key := Some (ty, None))\<rparr>))
   | _ \<Rightarrow> Ret st)"

section \<open>Locking a session\<close>

text \<open>\<^verbatim>\<open>do { if (lock) return 1; ... } while (--attempts > 0); return 0;\<close> over any lock function.\<close>

function lock_attempts ::
  "('m \<Rightarrow> 'w \<Rightarrow> (bool \<times> 'm \<times> 'w) run) \<Rightarrow> int \<Rightarrow> 'm \<Rightarrow> 'w \<Rightarrow> (bool \<times> 'm \<times> 'w) run" where
  "lock_attempts lock attempts m w = xbind (lock m w) (\<lambda>(b, m', w').
     if b then Some (Ret (True, m', w'))
     else if attempts - 1 > 0 then lock_attempts lock (attempts - 1) m' w'
     else Some (Ret (False, m', w')))"
  by pat_completeness auto
termination
  by (relation "measure (\<lambda>(lock, attempts, m, w). nat attempts)") auto

declare lock_attempts.simps [simp del]

definition lock_path_of :: "php_env \<Rightarrow> string \<Rightarrow> string" where
  "lock_path_of env key = e_spprintf env (512 + 5) (PHP_ZK_PARENT_NODE @ ''/'' @ key @ ''-lock'')"

definition lock_maxwait_of :: "php_env \<Rightarrow> int" where
  "lock_maxwait_of env =
     (if e_max_execution_time env \<le> 0 then PHP_ZK_SESS_LOCK_EXPIRATION else e_max_execution_time env)"

definition lock_wait_of :: "php_env \<Rightarrow> int" where
  "lock_wait_of env = (if g_sess_lock_wait env = 0 then PHP_ZK_SESS_DEFAULT_LOCK_WAIT else g_sess_lock_wait env)"

definition lock_attempts_of :: "php_env \<Rightarrow> int outcome" where
  "lock_attempts_of env =
     (if lock_maxwait_of env * 1000000 > long_max then Fault SignedOverflow
      else Ret (c_div (lock_maxwait_of env * 1000000) (lock_wait_of env)))"

definition php_zookeeper_sess_lock ::
  "php_env \<Rightarrow> 'w zk_api \<Rightarrow> php_zookeeper_session \<Rightarrow> string \<Rightarrow> 'w \<Rightarrow>
   (bool \<times> php_zookeeper_session \<times> 'w) run" where
  "php_zookeeper_sess_lock env api s key w =
     (let (r, m) = zkr_lock_init (s_lock s) (s_zk s) (Str (lock_path_of env key)) (Some ZOO_OPEN_ACL_UNSAFE)
      in if r \<noteq> 0 then Some (Ret (False, s\<lparr>s_lock := m\<lparr>m_path := Freed\<rparr>\<rparr>, w))
         else xbind (Some (lock_attempts_of env)) (\<lambda>attempts.
           xbind (lock_attempts (zkr_lock_lock api) attempts m w) (\<lambda>(b, m', w').
             if b then Some (Ret (True, s\<lparr>s_lock := m', s_is_locked := True\<rparr>, w'))
             else Some (Ret (False, s\<lparr>s_lock := m'\<rparr>, w')))))"

section \<open>Handlers\<close>

definition session_path :: "string \<Rightarrow> string" where
  "session_path key = snprintf 512 (PHP_ZK_PARENT_NODE @ ''/'' @ key)"

text \<open>Both operations are signed and of 64 bits: either may leave the type.\<close>

definition expiration_time_of :: "php_env \<Rightarrow> int outcome" where
  "expiration_time_of env = obind (checked_long (e_request_time env - e_gc_maxlifetime env))
     (\<lambda>age. checked_long (age * 1000))"

text \<open>The result of a read: status, the value (\<open>None\<close> for the null pointer) and its length.\<close>

type_synonym read_result = "bool \<times> string option \<times> int"

definition read_node ::
  "php_env \<Rightarrow> 'w zk_api \<Rightarrow> php_zookeeper_session \<Rightarrow> 'w \<Rightarrow> (read_result \<times> 'w) run" where
  "read_node env api s w =
     xbind (retried (zoo_exists api (s_zk s) (s_path s) True) w) (\<lambda>(status, stat, w1).
       if status \<noteq> ZOK then Some (Ret ((False, None, 0), w1))
       else xbind (Some (expiration_time_of env)) (\<lambda>expiration_time.
         if stat_mtime stat < expiration_time then
           xbind (retried (status_op (zoo_delete api (s_zk s) (s_path s) (-1))) w1) (\<lambda>(_, _, w2).
             Some (Ret ((False, None, 0), w2)))
         else
           xbind (retried (zoo_get api (s_zk s) (s_path s) False (stat_dataLength stat)) w1)
             (\<lambda>(status, (val, vallen, _), w2).
               if status \<noteq> ZOK then Some (Ret ((False, None, 0), w2))
               else Some (Ret ((True, Some val, vallen), w2)))))"

text \<open>The locking of a read, where the setting asks for it.\<close>

definition read_lock ::
  "php_env \<Rightarrow> 'w zk_api \<Rightarrow> php_zookeeper_session \<Rightarrow> string \<Rightarrow> 'w \<Rightarrow>
   (bool \<times> php_zookeeper_session \<times> 'w) run" where
  "read_lock env api s key w =
     (if g_session_lock env then php_zookeeper_sess_lock env api s key w else Some (Ret (True, s, w)))"

definition ps_read_zookeeper ::
  "php_env \<Rightarrow> 'w zk_api \<Rightarrow> string \<Rightarrow> 'w php_state \<Rightarrow> (read_result \<times> 'w php_state) run" where
  "ps_read_zookeeper env api key st = with_session st (\<lambda>p s.
     xbind (read_lock env api s key (ps_world st)) (\<lambda>(locked, s1, w1).
       if \<not> locked then Some (Bailout ''Failed to create session mutex'')
       else let s2 = s1\<lparr>s_path := session_path key\<rparr>
         in xbind (read_node env api s2 w1) (\<lambda>(r, w2). Some (Ret (r, put_session st p s2 w2)))))"

text \<open>The writing loop: what it calls depends on the status of the call before it.\<close>

definition write_op :: "'w zk_api \<Rightarrow> zhandle \<Rightarrow> string \<Rightarrow> string \<Rightarrow> (int \<times> 'w, unit) zk_op" where
  "write_op api zh path val x =
     (let (status, w) = x;
          (status', w') = (if status \<noteq> ZOK
            then (let ((r, _), w1) = zoo_create api zh path (Some val) (int (length val))
                        (Some ZOO_OPEN_ACL_UNSAFE) 0 0 w in (r, w1))
            else zoo_set api zh path (Some val) (int (length val)) (-1) w)
      in ((status', ()), (status', w')))"

text \<open>Neither writing nor destroying looks at the key: both work on the path of the last read.\<close>

definition ps_write_zookeeper ::
  "'w zk_api \<Rightarrow> string \<Rightarrow> string \<Rightarrow> 'w php_state \<Rightarrow> (bool \<times> 'w php_state) run" where
  "ps_write_zookeeper api key val st = with_session st (\<lambda>p s.
     xbind (retried (zoo_exists api (s_zk s) (s_path s) True) (ps_world st)) (\<lambda>(status, _, w1).
       xbind (retried (write_op api (s_zk s) (s_path s) val) (status, w1)) (\<lambda>(status', _, (_, w2)).
         Some (Ret (status' = ZOK, st\<lparr>ps_world := w2\<rparr>)))))"

definition ps_destroy_zookeeper :: "'w zk_api \<Rightarrow> string \<Rightarrow> 'w php_state \<Rightarrow> (bool \<times> 'w php_state) run" where
  "ps_destroy_zookeeper api key st = with_session st (\<lambda>p s.
     xbind (retried (status_op (zoo_delete api (s_zk s) (s_path s) (-1))) (ps_world st)) (\<lambda>(status, _, w1).
       Some (Ret (status = ZOK, st\<lparr>ps_world := w1\<rparr>))))"

fun gc_loop :: "'w zk_api \<Rightarrow> zhandle \<Rightarrow> int \<Rightarrow> string list \<Rightarrow> 'w \<Rightarrow> 'w" where
  "gc_loop api zh expiration_time [] w = w"
| "gc_loop api zh expiration_time (node # nodes) w =
     (let path = session_path node;
          ((status, stat), w1) = zoo_exists api zh path True w;
          w2 = (if status = ZOK \<and> stat_mtime stat < expiration_time
                then snd (zoo_delete api zh path (-1) w1) else w1)
      in gc_loop api zh expiration_time nodes w2)"

definition ps_gc_zookeeper :: "php_env \<Rightarrow> 'w zk_api \<Rightarrow> 'w php_state \<Rightarrow> (bool \<times> 'w php_state) run" where
  "ps_gc_zookeeper env api st = with_session st (\<lambda>p s.
     xbind (Some (expiration_time_of env)) (\<lambda>expiration_time.
       let ((status, nodes), w1) = zoo_get_children api (s_zk s) PHP_ZK_PARENT_NODE False (ps_world st);
           w2 = (if status = ZOK then gc_loop api (s_zk s) expiration_time nodes w1 else w1)
       in Some (Ret (True, st\<lparr>ps_world := w2\<rparr>))))"

definition ps_close_zookeeper :: "'w zk_api \<Rightarrow> 'w php_state \<Rightarrow> (bool \<times> 'w php_state) run" where
  "ps_close_zookeeper api st = with_session st (\<lambda>p s.
     xbind (if s_is_locked s then
         xbind (Some (zkr_lock_unlock api (s_lock s) (ps_world st))) (\<lambda>(_, m1, w1).
           xbind (Some (free_ptr (m_path m1))) (\<lambda>path.
             xbind (Some (zkr_lock_destroy (m1\<lparr>m_path := path\<rparr>))) (\<lambda>(_, m2).
               Some (Ret (s\<lparr>s_lock := m2, s_is_locked := False\<rparr>, w1)))))
       else Some (Ret (s, ps_world st)))
     (\<lambda>(s1, w1). Some (Ret (True, (put_session st p s1 w1)\<lparr>ps_mod_data := None\<rparr>))))"

section \<open>The lock as the session handlers see it\<close>

lemma lock_attempts_rule:
  assumes "lock_attempts lock n m w = Some (Ret (b, m', w'))" "I m w"
    and "\<And>m w b m' w'. I m w \<Longrightarrow> lock m w = Some (Ret (b, m', w')) \<Longrightarrow> I m' w' \<and> Q b m' w'"
  shows "I m' w' \<and> Q b m' w'"
  using assms
proof (induction lock n m w rule: lock_attempts.induct)
  case (1 l n m w)
  from 1(2) obtain b1 m1 w1 where l: "l m w = Some (Ret (b1, m1, w1))"
    by (subst (asm) lock_attempts.simps) (auto simp: xbind_eq_Ret)
  with 1(3,4) have ok: "I m1 w1 \<and> Q b1 m1 w1" by blast
  show ?case
  proof (cases "b1 \<or> \<not> n - 1 > 0")
    case True
    with 1(2) l have "b = b1 \<and> m' = m1 \<and> w' = w1"
      by (subst (asm) lock_attempts.simps) (auto split: if_splits)
    with ok show ?thesis by simp
  next
    case False
    then have rec: "lock_attempts l (n - 1) m1 w1 = Some (Ret (b, m', w'))"
      using 1(2) l by (subst (asm) lock_attempts.simps) (auto split: if_splits)
    show ?thesis
      by (rule 1(1) [where ?x = b1, OF _ _ rec]) (use False ok 1(4) in auto)
  qed
qed

text \<open>
  What the handlers rely on: locking and unlocking keep the mutex sound, a returned lock says
  whether it is owned, unlocking a sound mutex comes back, and a sound mutex can be given up by
  releasing its path and destroying it.
\<close>

locale lock_service =
  fixes lock :: "'m \<Rightarrow> 'w \<Rightarrow> (bool \<times> 'm \<times> 'w) run"
    and unlock :: "'m \<Rightarrow> 'w \<Rightarrow> (int \<times> 'm \<times> 'w) outcome"
    and sound :: "'m \<Rightarrow> bool" and owner :: "'m \<Rightarrow> bool outcome"
  assumes lock_sound: "sound m \<Longrightarrow> lock m w = Some (Ret (b, m', w')) \<Longrightarrow> sound m' \<and> owner m' = Ret b"
    and unlock_total: "sound m \<Longrightarrow> \<exists>r m' w'. unlock m w = Ret (r, m', w') \<and> sound m'"
begin

text \<open>Trying again keeps the mutex sound and ends with the truth about the ownership.\<close>

lemma attempts_sound:
  assumes "sound m" "lock_attempts lock n m w = Some (Ret (b, m', w'))"
  shows "sound m' \<and> owner m' = Ret b"
  by (rule lock_attempts_rule [OF assms(2), of "\<lambda>m w. sound m" "\<lambda>b m w. owner m = Ret b"])
    (use assms(1) in \<open>auto dest: lock_sound\<close>)

end

locale disposable_lock = lock_service +
  fixes free_path :: "'a \<Rightarrow> 'a outcome" and destroy :: "'a \<Rightarrow> (int \<times> 'a) outcome"
  assumes dispose: "sound m \<Longrightarrow> \<exists>m1 m2. free_path m = Ret m1 \<and> destroy m1 = Ret (0, m2)"
begin

lemma release_total:
  "sound m \<Longrightarrow> \<exists>r m1 w1 m2 m3. unlock m w = Ret (r, m1, w1) \<and> free_path m1 = Ret m2 \<and> destroy m2 = Ret (0, m3)"
  using unlock_total dispose by meson

end

definition free_lock_path :: "zkr_lock_mutex \<Rightarrow> zkr_lock_mutex outcome" where
  "free_lock_path m = obind (free_ptr (m_path m)) (\<lambda>p. Ret (m\<lparr>m_path := p\<rparr>))"

interpretation zkr: disposable_lock "zkr_lock_lock api" "zkr_lock_unlock api" mutex_ok zkr_lock_isowner
  free_lock_path zkr_lock_destroy for api :: "'w zk_api"
proof unfold_locales
  fix m w b m' w'
  assume "mutex_ok m" "zkr_lock_lock api m w = Some (Ret (b, m', w'))"
  then show "mutex_ok m' \<and> zkr_lock_isowner m' = Ret b" using lock_ok [of m api w b m' w'] by blast
next
  fix m w
  assume "mutex_ok m"
  then show "\<exists>r m' w'. zkr_lock_unlock api m w = Ret (r, m', w') \<and> mutex_ok m'"
    using unlock_ok by meson
next
  fix m
  assume "mutex_ok m"
  then show "\<exists>m1 m2. free_lock_path m = Ret m1 \<and> zkr_lock_destroy m1 = Ret (0, m2)"
    using destroy_ok [of "m\<lparr>m_path := Freed\<rparr>"]
    by (auto simp: free_lock_path_def mutex_ok_def strings_ok_def)
qed

section \<open>Handlers that return\<close>

text \<open>A locking that returns is a series of attempts on a freshly initialised mutex.\<close>

lemma sess_lock_attempts:
  assumes "php_zookeeper_sess_lock env api s key w = Some (Ret (b, s', w'))"
  obtains n m' where "lock_attempts (zkr_lock_lock api) n
      (snd (zkr_lock_init (s_lock s) (s_zk s) (Str (lock_path_of env key)) (Some ZOO_OPEN_ACL_UNSAFE))) w =
      Some (Ret (b, m', w'))"
    "s' = (if b then s\<lparr>s_lock := m', s_is_locked := True\<rparr> else s\<lparr>s_lock := m'\<rparr>)"
proof -
  let ?m = "snd (zkr_lock_init (s_lock s) (s_zk s) (Str (lock_path_of env key)) (Some ZOO_OPEN_ACL_UNSAFE))"
  have init: "zkr_lock_init (s_lock s) (s_zk s) (Str (lock_path_of env key)) (Some ZOO_OPEN_ACL_UNSAFE) = (0, ?m)"
    by (simp add: zkr_lock_init_def)
  show thesis
    using assms that unfolding php_zookeeper_sess_lock_def
    by (subst (asm) init) (auto simp: xbind_eq_Ret split: if_splits)
qed

lemma sess_lock_Ret:
  assumes "php_zookeeper_sess_lock env api s key w = Some (Ret (b, s', w'))"
  shows "mutex_ok (s_lock s') \<and> zkr_lock_isowner (s_lock s') = Ret b \<and> s_zk s' = s_zk s \<and>
    s_is_locked s' = (b \<or> s_is_locked s) \<and> s_path s' = s_path s"
  using assms
proof (cases rule: sess_lock_attempts)
  case (1 n m')
  then show ?thesis using zkr.attempts_sound [OF mutex_ok_init 1(1)] by (cases b) auto
qed

lemma retried_Some: "retried op w = Some out \<Longrightarrow> \<exists>s r w'. out = Ret (s, r, w') \<and> retry_loop op 3 w = Some ((s, r), w')"
  by (auto simp: retried_def split: option.splits)

lemma retried_None: "retried op w = None \<longleftrightarrow> (\<forall>k. lost op k w)"
  using retry_loop_None [of 3 op w] by (auto simp: retried_def split: option.splits)

lemma retried_first: "\<not> lost op 0 w \<Longrightarrow> op w = ((s, r), w') \<Longrightarrow> retried op w = Some (Ret (s, r, w'))"
  using retry_loop_returns [of 0 op w 3] by (simp add: retried_def)

text \<open>The rule for a retried call: what every call keeps, and what the answered one says.\<close>

lemma retried_rule:
  assumes "retried op w = Some out" "I w"
    and "\<And>w r w'. I w \<Longrightarrow> op w = (r, w') \<Longrightarrow> I w'"
  obtains s r w0 w' where "out = Ret (s, r, w')" "s \<noteq> ZCONNECTIONLOSS" "I w0" "op w0 = ((s, r), w')" "I w'"
proof -
  from retried_Some [OF assms(1)] obtain s r w' where out: "out = Ret (s, r, w')"
    and "retry_loop op 3 w = Some ((s, r), w')" by blast
  then show thesis using retry_loop_invariant [of I op w 3 "(s, r)" w'] assms(2,3) that by auto
qed

end
