(* ===== verification/Module.thy ===== *)
theory Module
  imports Method_Table Session
begin

text \<open>
  The module: its globals and settings, the class constants, and the hooks that PHP calls at start
  and end of the module and of a request. The values of the library's symbols come from its
  headers, and the engine's parsers of settings from the engine; both are arguments.
\<close>

section \<open>Globals\<close>

record 'h zk_globals =
  mg_callbacks :: 'h
  mg_recv_timeout :: int
  mg_session_lock :: bool
  mg_sess_lock_wait :: int

definition php_zk_init_globals :: "'h hash_api \<Rightarrow> 'h zk_globals \<Rightarrow> 'h zk_globals" where
  "php_zk_init_globals H g =
     g\<lparr>mg_callbacks := hash_init H, mg_recv_timeout := 10000, mg_session_lock := True\<rparr>"

text \<open>The table is destroyed with the records in it.\<close>

definition php_zk_destroy_globals ::
  "'h hash_api \<Rightarrow> ('w, 'h) zk_state \<Rightarrow> ('w, 'h) zk_state outcome" where
  "php_zk_destroy_globals H st = destroy_all (hash_destroy H (z_table st)) st"

section \<open>Settings\<close>

datatype ini_mode = PHP_INI_ALL | PHP_INI_SYSTEM
datatype ini_handler = OnUpdateLongGEZero | OnUpdateBool
datatype ini_target = Recv_timeout | Session_lock | Sess_lock_wait

record ini_entry =
  ini_name :: string
  ini_default :: string
  ini_mode :: ini_mode
  ini_handler :: ini_handler
  ini_target :: ini_target

definition ini_entries :: "ini_entry list" where
  "ini_entries =
     [\<lparr>ini_name = ''zookeeper.recv_timeout'', ini_default = ''10000'', ini_mode = PHP_INI_ALL,
       ini_handler = OnUpdateLongGEZero, ini_target = Recv_timeout\<rparr>,
      \<lparr>ini_name = ''zookeeper.session_lock'', ini_default = ''1'', ini_mode = PHP_INI_SYSTEM,
       ini_handler = OnUpdateBool, ini_target = Session_lock\<rparr>,
      \<lparr>ini_name = ''zookeeper.sess_lock_wait'', ini_default = ''150000'', ini_mode = PHP_INI_ALL,
       ini_handler = OnUpdateLongGEZero, ini_target = Sess_lock_wait\<rparr>]"

text \<open>The engine reads a setting as a number; the first handler refuses a negative one.\<close>

definition apply_ini :: "(string \<Rightarrow> int) \<Rightarrow> ini_entry \<Rightarrow> string \<Rightarrow> 'h zk_globals \<Rightarrow> 'h zk_globals" where
  "apply_ini parse e val g =
     (if ini_handler e = OnUpdateLongGEZero \<and> parse val < 0 then g
      else case ini_target e of
        Recv_timeout \<Rightarrow> g\<lparr>mg_recv_timeout := parse val\<rparr>
      | Session_lock \<Rightarrow> g\<lparr>mg_session_lock := (parse val \<noteq> 0)\<rparr>
      | Sess_lock_wait \<Rightarrow> g\<lparr>mg_sess_lock_wait := parse val\<rparr>)"

definition register_ini_entries :: "(string \<Rightarrow> int) \<Rightarrow> 'h zk_globals \<Rightarrow> 'h zk_globals" where
  "register_ini_entries parse g = fold (\<lambda>e. apply_ini parse e (ini_default e)) ini_entries g"

section \<open>Constants\<close>

definition php_zk_register_constants :: "(string \<Rightarrow> int) \<Rightarrow> (string \<times> int) list" where
  "php_zk_register_constants c = [
     (''PERM_READ'', c ''ZOO_PERM_READ''), (''PERM_WRITE'', c ''ZOO_PERM_WRITE''),
     (''PERM_CREATE'', c ''ZOO_PERM_CREATE''), (''PERM_DELETE'', c ''ZOO_PERM_DELETE''),
     (''PERM_ALL'', c ''ZOO_PERM_ALL''), (''PERM_ADMIN'', c ''ZOO_PERM_ADMIN''),
     (''EPHEMERAL'', c ''ZOO_EPHEMERAL''), (''SEQUENCE'', c ''ZOO_SEQUENCE''),
     (''EXPIRED_SESSION_STATE'', c ''ZOO_EXPIRED_SESSION_STATE''),
     (''AUTH_FAILED_STATE'', c ''ZOO_AUTH_FAILED_STATE''),
     (''CONNECTING_STATE'', c ''ZOO_CONNECTING_STATE''),
     (''ASSOCIATING_STATE'', c ''ZOO_ASSOCIATING_STATE''),
     (''CONNECTED_STATE'', c ''ZOO_CONNECTED_STATE''), (''NOTCONNECTED_STATE'', 999),
     (''CREATED_EVENT'', c ''ZOO_CREATED_EVENT''), (''DELETED_EVENT'', c ''ZOO_DELETED_EVENT''),
     (''CHANGED_EVENT'', c ''ZOO_CHANGED_EVENT''), (''CHILD_EVENT'', c ''ZOO_CHILD_EVENT''),
     (''SESSION_EVENT'', c ''ZOO_SESSION_EVENT''), (''NOTWATCHING_EVENT'', c ''ZOO_NOTWATCHING_EVENT''),
     (''LOG_LEVEL_ERROR'', c ''ZOO_LOG_LEVEL_ERROR''), (''LOG_LEVEL_WARN'', c ''ZOO_LOG_LEVEL_WARN''),
     (''LOG_LEVEL_INFO'', c ''ZOO_LOG_LEVEL_INFO''), (''LOG_LEVEL_DEBUG'', c ''ZOO_LOG_LEVEL_DEBUG''),
     (''SYSTEMERROR'', c ''ZSYSTEMERROR''), (''RUNTIMEINCONSISTENCY'', c ''ZRUNTIMEINCONSISTENCY''),
     (''DATAINCONSISTENCY'', c ''ZDATAINCONSISTENCY''), (''CONNECTIONLOSS'', c ''ZCONNECTIONLOSS''),
     (''MARSHALLINGERROR'', c ''ZMARSHALLINGERROR''), (''UNIMPLEMENTED'', c ''ZUNIMPLEMENTED''),
     (''OPERATIONTIMEOUT'', c ''ZOPERATIONTIMEOUT''), (''BADARGUMENTS'', c ''ZBADARGUMENTS''),
     (''INVALIDSTATE'', c ''ZINVALIDSTATE''), (''OK'', c ''ZOK''), (''APIERROR'', c ''ZAPIERROR''),
     (''NONODE'', c ''ZNONODE''), (''NOAUTH'', c ''ZNOAUTH''), (''BADVERSION'', c ''ZBADVERSION''),
     (''NOCHILDRENFOREPHEMERALS'', c ''ZNOCHILDRENFOREPHEMERALS''), (''NODEEXISTS'', c ''ZNODEEXISTS''),
     (''NOTEMPTY'', c ''ZNOTEMPTY''), (''SESSIONEXPIRED'', c ''ZSESSIONEXPIRED''),
     (''INVALIDCALLBACK'', c ''ZINVALIDCALLBACK''), (''INVALIDACL'', c ''ZINVALIDACL''),
     (''AUTHFAILED'', c ''ZAUTHFAILED''), (''CLOSING'', c ''ZCLOSING''), (''NOTHING'', c ''ZNOTHING''),
     (''SESSIONMOVED'', c ''ZSESSIONMOVED'')]"

text \<open>The constants that the stub \<open>zookeeper-api.php\<close> documents.\<close>

definition api_constants :: "(string \<times> int) list" where
  "api_constants = [
     (''PERM_READ'', 1), (''PERM_WRITE'', 2), (''PERM_CREATE'', 4), (''PERM_DELETE'', 8),
     (''PERM_ADMIN'', 16), (''PERM_ALL'', 31), (''EPHEMERAL'', 1), (''SEQUENCE'', 2),
     (''EXPIRED_SESSION_STATE'', -112), (''AUTH_FAILED_STATE'', -113), (''CONNECTING_STATE'', 1),
     (''ASSOCIATING_STATE'', 2), (''CONNECTED_STATE'', 3), (''NOTCONNECTED_STATE'', 999),
     (''CREATED_EVENT'', 1), (''DELETED_EVENT'', 2), (''CHANGED_EVENT'', 3), (''CHILD_EVENT'', 4),
     (''SESSION_EVENT'', -1), (''NOTWATCHING_EVENT'', -2), (''LOG_LEVEL_ERROR'', 1),
     (''LOG_LEVEL_WARN'', 2), (''LOG_LEVEL_INFO'', 3), (''LOG_LEVEL_DEBUG'', 4), (''SYSTEMERROR'', -1),
     (''RUNTIMEINCONSISTENCY'', -2), (''DATAINCONSISTENCY'', -3), (''CONNECTIONLOSS'', -4),
     (''MARSHALLINGERROR'', -5), (''UNIMPLEMENTED'', -6), (''OPERATIONTIMEOUT'', -7),
     (''BADARGUMENTS'', -8), (''INVALIDSTATE'', -9), (''OK'', 0), (''APIERROR'', -100), (''NONODE'', -101),
     (''NOAUTH'', -102), (''BADVERSION'', -103), (''NOCHILDRENFOREPHEMERALS'', -108),
     (''NODEEXISTS'', -110), (''NOTEMPTY'', -111), (''SESSIONEXPIRED'', -112), (''INVALIDCALLBACK'', -113),
     (''INVALIDACL'', -114), (''AUTHFAILED'', -115), (''CLOSING'', -116), (''NOTHING'', -117),
     (''SESSIONMOVED'', -118)]"

section \<open>The class and the session module\<close>

text \<open>A class entry: its name, its methods, and how an object of it is made.\<close>

record ('w, 'h) zend_class_entry =
  ce_name :: string
  ce_methods :: "method_entry list"
  ce_create_object :: "('w, 'h) zk_state \<Rightarrow> nat \<times> ('w, 'h) zk_state"

text \<open>A save handler as PHP sees it: the name of a setting and six functions.\<close>

record 'w ps_module =
  ps_name :: string
  ps_open :: "php_env \<Rightarrow> 'w zk_api \<Rightarrow> 'w php_state \<Rightarrow> (bool \<times> 'w php_state) run"
  ps_close :: "'w zk_api \<Rightarrow> 'w php_state \<Rightarrow> (bool \<times> 'w php_state) run"
  ps_read :: "php_env \<Rightarrow> 'w zk_api \<Rightarrow> string \<Rightarrow> 'w php_state \<Rightarrow> (read_result \<times> 'w php_state) run"
  ps_write :: "'w zk_api \<Rightarrow> string \<Rightarrow> string \<Rightarrow> 'w php_state \<Rightarrow> (bool \<times> 'w php_state) run"
  ps_destroy :: "'w zk_api \<Rightarrow> string \<Rightarrow> 'w php_state \<Rightarrow> (bool \<times> 'w php_state) run"
  ps_gc :: "php_env \<Rightarrow> 'w zk_api \<Rightarrow> 'w php_state \<Rightarrow> (bool \<times> 'w php_state) run"

definition ps_mod_zookeeper :: "'w ps_module" where
  "ps_mod_zookeeper = \<lparr>ps_name = ''zookeeper'', ps_open = ps_open_zookeeper, ps_close = ps_close_zookeeper,
     ps_read = ps_read_zookeeper, ps_write = ps_write_zookeeper, ps_destroy = ps_destroy_zookeeper,
     ps_gc = ps_gc_zookeeper\<rparr>"

section \<open>Hooks\<close>

record ('w, 'h) module_state =
  ms_world :: 'w
  ms_globals :: "'h zk_globals"
  ms_le_connection :: int
  ms_class :: "('w, 'h) zend_class_entry option"
  ms_constants :: "(string \<times> int) list"
  ms_session_module :: "'w ps_module option"

definition php_zk_get_ce :: "('w, 'h) module_state \<Rightarrow> ('w, 'h) zend_class_entry option" where
  "php_zk_get_ce m = ms_class m"

definition php_zookeeper_get_connection_le :: "('w, 'h) module_state \<Rightarrow> int" where
  "php_zookeeper_get_connection_le m = ms_le_connection m"

text \<open>\<open>le\<close> is the resource type that the engine hands out.\<close>

definition minit_zookeeper ::
  "'h hash_api \<Rightarrow> 'w zk_api \<Rightarrow> (string \<Rightarrow> int) \<Rightarrow> (string \<Rightarrow> int) \<Rightarrow> int \<Rightarrow>
   ('w, 'h) module_state \<Rightarrow> ('w, 'h) module_state" where
  "minit_zookeeper H api c parse le m =
     (let m1 = m\<lparr>ms_le_connection := le,
                 ms_class := Some \<lparr>ce_name = ''Zookeeper'', ce_methods = zookeeper_class_methods,
                   ce_create_object = php_zk_new\<rparr>\<rparr>;
          m2 = m1\<lparr>ms_world := zoo_set_debug_level api (c ''ZOO_LOG_LEVEL_WARN'') (ms_world m1)\<rparr>;
          m3 = m2\<lparr>ms_constants := php_zk_register_constants c\<rparr>;
          m4 = m3\<lparr>ms_globals := php_zk_init_globals H (ms_globals m3)\<rparr>;
          m5 = m4\<lparr>ms_globals := register_ini_entries parse (ms_globals m4)\<rparr>
      in m5\<lparr>ms_session_module := Some ps_mod_zookeeper\<rparr>)"

definition mshutdown_zookeeper :: "'h hash_api \<Rightarrow> ('w, 'h) zk_state \<Rightarrow> ('w, 'h) zk_state outcome" where
  "mshutdown_zookeeper H st = php_zk_destroy_globals H st"

text \<open>\<open>phpinfo\<close>: the rows of the table; the library's version goes through a buffer of 32 bytes.\<close>

abbreviation PHP_ZOOKEEPER_VERSION :: string where "PHP_ZOOKEEPER_VERSION \<equiv> ''0.2.3''"

definition minfo_zookeeper :: "(string \<Rightarrow> int) \<Rightarrow> string list list" where
  "minfo_zookeeper c =
     [[''zookeeper support'', ''enabled''], [''version'', PHP_ZOOKEEPER_VERSION],
      [''libzookeeper version'', snprintf 32 (printf_ld (c ''ZOO_MAJOR_VERSION'') @ ''.'' @
         printf_ld (c ''ZOO_MINOR_VERSION'') @ ''.'' @ printf_ld (c ''ZOO_PATCH_VERSION''))]]"

text \<open>The hooks as the engine finds them; there is none for the start of a request.\<close>

record ('w, 'h) zend_module_entry =
  mo_name :: string
  mo_module_startup :: "('w, 'h) module_state \<Rightarrow> ('w, 'h) module_state"
  mo_module_shutdown :: "('w, 'h) zk_state \<Rightarrow> ('w, 'h) zk_state outcome"
  mo_request_startup :: "(('w, 'h) zk_state \<Rightarrow> ('w, 'h) zk_state outcome) option"
  mo_request_shutdown :: "(('w, 'h) zk_state \<Rightarrow> ('w, 'h) zk_state outcome) option"
  mo_info :: "string list list"
  mo_version :: string

definition zookeeper_module_entry ::
  "'h hash_api \<Rightarrow> 'w zk_api \<Rightarrow> (string \<Rightarrow> int) \<Rightarrow> (string \<Rightarrow> int) \<Rightarrow> int \<Rightarrow> ('w, 'h) zend_module_entry"
where
  "zookeeper_module_entry H api c parse le =
     \<lparr>mo_name = ''zookeeper'', mo_module_startup = minit_zookeeper H api c parse le,
      mo_module_shutdown = mshutdown_zookeeper H, mo_request_startup = None,
      mo_request_shutdown = Some (rshutdown_zookeeper H), mo_info = minfo_zookeeper c,
      mo_version = PHP_ZOOKEEPER_VERSION\<rparr>"

text \<open>What the session handlers read of the module's globals.\<close>

definition env_of_globals :: "'h zk_globals \<Rightarrow> php_env \<Rightarrow> php_env" where
  "env_of_globals g env = env\<lparr>g_recv_timeout := mg_recv_timeout g, g_session_lock := mg_session_lock g,
     g_sess_lock_wait := mg_sess_lock_wait g\<rparr>"

lemma register_ini_entries_eq:
  assumes "0 \<le> parse ''10000''" "0 \<le> parse ''150000''"
  shows "register_ini_entries parse g = g\<lparr>mg_recv_timeout := parse ''10000'',
    mg_session_lock := (parse ''1'' \<noteq> 0), mg_sess_lock_wait := parse ''150000''\<rparr>"
  using assms by (simp add: register_ini_entries_def ini_entries_def apply_ini_def)

end
