(* ===== verification/Lock_Exclusion.thy ===== *)
theory Lock_Exclusion
  imports Zoo_Lock
begin

text \<open>
  Mutual exclusion of the lock of \<open>zoo_lock.c\<close> between any number of clients. What ZooKeeper
  documents about the children of the lock's path is stated over a view of the library's state
  (the set of children and the sequence counter); every library call may be interleaved with the
  actions of the other clients, which the view records as an evolution: children disappear, and
  children with counters from the present value on appear. The proof follows one client through
  any sequence of its calls and of such evolutions.
\<close>

section \<open>The lock directory and its evolution\<close>

record 'w lock_dir =
  dir_nodes :: "'w \<Rightarrow> string set"
  dir_next :: "'w \<Rightarrow> nat"

definition dir_ok :: "'w lock_dir \<Rightarrow> 'w \<Rightarrow> bool" where
  "dir_ok D w \<longleftrightarrow> dir_next D w \<le> seq_max \<and>
     (\<forall>c\<in>dir_nodes D w. \<exists>s n. c = lock_child s n \<and> n < dir_next D w) \<and>
     (\<forall>s t n. n < seq_max \<longrightarrow> lock_child s n \<in> dir_nodes D w \<longrightarrow> lock_child t n \<in> dir_nodes D w \<longrightarrow> s = t)"

definition evolves :: "'w lock_dir \<Rightarrow> 'w \<Rightarrow> 'w \<Rightarrow> bool" where
  "evolves D w w' \<longleftrightarrow> dir_next D w \<le> dir_next D w' \<and>
     (\<forall>c\<in>dir_nodes D w'. c \<in> dir_nodes D w \<or>
        (\<exists>s n. c = lock_child s n \<and> dir_next D w \<le> n \<and> n < dir_next D w'))"

definition dir_step :: "'w lock_dir \<Rightarrow> 'w \<Rightarrow> 'w \<Rightarrow> bool" where
  "dir_step D w w' \<longleftrightarrow> dir_ok D w' \<and> evolves D w w'"

text \<open>
  What is relied on of ZooKeeper, for the handle \<open>zh\<close> of session \<open>sid\<close>: every call keeps the
  directory well formed and only evolves it; a successful listing is the set of children at some
  moment of the call; a successful sequential create returns the path of a child with a counter
  taken during the call, cut to the size of the buffer.
\<close>

definition zk_lock_laws ::
  "'w zk_api \<Rightarrow> 'w lock_dir \<Rightarrow> zhandle \<Rightarrow> string \<Rightarrow> 64 word \<Rightarrow> bool" where
  "zk_lock_laws api D zh path sid \<longleftrightarrow>
     (\<forall>w. fst (zoo_client_id api zh w) = sid) \<and>
     (\<forall>w. dir_ok D w \<longrightarrow> dir_step D w (snd (zoo_exists api zh path False w))) \<and>
     (\<forall>w acl. dir_ok D w \<longrightarrow> dir_step D w (snd (zoo_create api zh path None 0 acl 0 0 w))) \<and>
     (\<forall>w ret kids w'. dir_ok D w \<longrightarrow> zoo_get_children api zh path False w = ((ret, kids), w') \<longrightarrow>
        dir_step D w w' \<and> (ret = ZOK \<longrightarrow>
          (\<exists>w1. dir_step D w w1 \<and> evolves D w1 w' \<and> set kids = dir_nodes D w1))) \<and>
     (\<forall>w acl sz ret p w'. dir_ok D w \<longrightarrow>
        zoo_create api zh (child_path path (lock_prefix sid)) None 0 acl
          (or ZOO_EPHEMERAL ZOO_SEQUENCE) sz w = ((ret, p), w') \<longrightarrow>
        dir_step D w w' \<and> (ret = ZOK \<longrightarrow> (\<exists>n. dir_next D w \<le> n \<and> n < dir_next D w' \<and>
          p = snprintf sz (child_path path (lock_child sid n))))) \<and>
     (\<forall>w c. dir_ok D w \<longrightarrow>
        dir_step D w (snd (zoo_wexists api zh (child_path path c) (Some LockWatcher) w))) \<and>
     (\<forall>w c. dir_ok D w \<longrightarrow> dir_step D w (snd (zoo_delete api zh (child_path path c) (-1) w))) \<and>
     (\<forall>w f rc cb. dir_ok D w \<longrightarrow> dir_step D w (run_completion api f rc cb w))"

lemma evolves_refl [simp]: "evolves D w w"
  by (simp add: evolves_def)

lemma evolves_trans: "evolves D a b \<Longrightarrow> evolves D b c \<Longrightarrow> evolves D a c"
  by (auto simp: evolves_def) (metis less_le_trans order_trans)

lemma dir_step_refl: "dir_ok D w \<Longrightarrow> dir_step D w w"
  by (simp add: dir_step_def)

lemma dir_step_trans [trans]: "dir_step D a b \<Longrightarrow> dir_step D b c \<Longrightarrow> dir_step D a c"
  by (auto simp: dir_step_def intro: evolves_trans)

lemma dir_step_ok: "dir_step D a b \<Longrightarrow> dir_ok D b"
  by (simp add: dir_step_def)

lemma dir_step_evolves: "dir_step D a b \<Longrightarrow> evolves D a b"
  by (simp add: dir_step_def)

lemma dir_okD: "dir_ok D w \<Longrightarrow> c \<in> dir_nodes D w \<Longrightarrow> \<exists>s n. c = lock_child s n \<and> n < dir_next D w \<and> n < seq_max"
  by (auto simp: dir_ok_def) (metis less_le_trans)

section \<open>The invariant of one client\<close>

definition least_child :: "'w lock_dir \<Rightarrow> 'w \<Rightarrow> nat \<Rightarrow> bool" where
  "least_child D w n \<longleftrightarrow> (\<forall>t k. k < seq_max \<longrightarrow> lock_child t k \<in> dir_nodes D w \<longrightarrow> n \<le> k)"

definition owner_inv :: "'w lock_dir \<Rightarrow> 64 word \<Rightarrow> zkr_lock_mutex \<Rightarrow> 'w \<Rightarrow> bool" where
  "owner_inv D sid m w \<longleftrightarrow>
     (\<forall>x. m_ownerid m = Str x \<longrightarrow> (\<exists>s n. x = lock_child s n \<and> n < dir_next D w \<and>
        (x \<in> dir_nodes D w \<longrightarrow> least_child D w n))) \<and>
     (\<forall>i. m_id m = Str i \<longrightarrow> (\<exists>n. i = lock_child sid n \<and> n < dir_next D w))"

text \<open>Neither clause can be broken by the other clients.\<close>

text \<open>A child whose counter is used up does not come back.\<close>

lemma child_was_there:
  assumes ok: "dir_ok D w" "dir_ok D w'" and ev: "evolves D w w'" and n: "n < dir_next D w"
    and mem: "lock_child s n \<in> dir_nodes D w'"
  shows "lock_child s n \<in> dir_nodes D w"
proof (rule ccontr)
  have bound: "dir_next D w \<le> seq_max" "dir_next D w' \<le> seq_max" using ok by (auto simp: dir_ok_def)
  assume "lock_child s n \<notin> dir_nodes D w"
  then obtain t k where "lock_child s n = lock_child t k" "dir_next D w \<le> k" "k < dir_next D w'"
    using ev mem by (auto simp: evolves_def)
  then show False using lock_child_inj [of n k s t] n bound by auto
qed

lemma least_child_stable:
  assumes ok: "dir_ok D w" "dir_ok D w'" and ev: "evolves D w w'" and n: "n < dir_next D w"
    and least: "lock_child s n \<in> dir_nodes D w \<Longrightarrow> least_child D w n"
    and mem: "lock_child s n \<in> dir_nodes D w'"
  shows "least_child D w' n"
proof -
  have old: "least_child D w n" using least child_was_there [OF ok ev n mem] .
  have bound: "dir_next D w \<le> seq_max" using ok by (auto simp: dir_ok_def)
  show ?thesis unfolding least_child_def
  proof (intro allI impI)
    fix t k assume k: "k < seq_max" "lock_child t k \<in> dir_nodes D w'"
    show "n \<le> k"
    proof (cases "k < dir_next D w")
      case True
      with old k child_was_there [OF ok ev _ k(2)] show ?thesis by (simp add: least_child_def)
    next
      case False
      with n show ?thesis by simp
    qed
  qed
qed

lemma owner_inv_stable:
  assumes "dir_ok D w" "dir_step D w w'" "owner_inv D sid m w"
  shows "owner_inv D sid m w'"
proof -
  have le: "dir_next D w \<le> dir_next D w'" using assms(2) by (simp add: dir_step_def evolves_def)
  show ?thesis unfolding owner_inv_def
  proof (intro conjI allI impI)
    fix x assume "m_ownerid m = Str x"
    with assms(3) obtain s n where x: "x = lock_child s n" "n < dir_next D w"
      "x \<in> dir_nodes D w \<longrightarrow> least_child D w n" by (auto simp: owner_inv_def)
    then have "x \<in> dir_nodes D w' \<longrightarrow> least_child D w' n"
      using least_child_stable [of D w w' n s] assms by (auto simp: dir_step_def)
    with x le show "\<exists>s n. x = lock_child s n \<and> n < dir_next D w' \<and>
        (x \<in> dir_nodes D w' \<longrightarrow> least_child D w' n)" using less_le_trans by blast
  next
    fix i assume "m_id m = Str i"
    with assms(3) obtain n where "i = lock_child sid n" "n < dir_next D w" by (auto simp: owner_inv_def)
    with le show "\<exists>n. i = lock_child sid n \<and> n < dir_next D w'" using less_le_trans by blast
  qed
qed

lemma owner_inv_update [simp]:
  "owner_inv D sid (m\<lparr>m_isOwner := b\<rparr>) w = owner_inv D sid m w"
  "owner_inv D sid (m\<lparr>m_pmutex := p\<rparr>) w = owner_inv D sid m w"
  by (simp_all add: owner_inv_def)

section \<open>The calls under the laws\<close>

lemma lawsD:
  assumes "zk_lock_laws api D zh path sid"
  shows law_client: "fst (zoo_client_id api zh w) = sid"
    and law_exists: "dir_ok D w \<Longrightarrow> dir_step D w (snd (zoo_exists api zh path False w))"
    and law_mkdir: "dir_ok D w \<Longrightarrow> dir_step D w (snd (zoo_create api zh path None 0 acl 0 0 w))"
    and law_watch: "dir_ok D w \<Longrightarrow>
      dir_step D w (snd (zoo_wexists api zh (child_path path c) (Some LockWatcher) w))"
    and law_delete: "dir_ok D w \<Longrightarrow> dir_step D w (snd (zoo_delete api zh (child_path path c) (-1) w))"
    and law_completion: "dir_ok D w \<Longrightarrow> dir_step D w (run_completion api f rc cb w)"
  using assms by (simp_all add: zk_lock_laws_def)

lemma law_list:
  assumes "zk_lock_laws api D zh path sid" "dir_ok D w"
    "zoo_get_children api zh path False w = (r, w')"
  shows "dir_step D w w'"
    and "fst r = ZOK \<Longrightarrow> \<exists>w1. dir_step D w w1 \<and> evolves D w1 w' \<and> set (snd r) = dir_nodes D w1"
  using assms by (cases r; simp add: zk_lock_laws_def)+

lemma law_create:
  assumes "zk_lock_laws api D zh path sid" "dir_ok D w"
    "zoo_create api zh (child_path path (lock_prefix sid)) None 0 acl
       (or ZOO_EPHEMERAL ZOO_SEQUENCE) sz w = ((ret, p), w')"
  shows "dir_step D w w'"
    and "ret = ZOK \<Longrightarrow> \<exists>n. dir_next D w \<le> n \<and> n < dir_next D w' \<and>
      p = snprintf sz (child_path path (lock_child sid n))"
  using assms unfolding zk_lock_laws_def by blast+

lemma laws_getchildren:
  assumes laws: "zk_lock_laws api D zh path sid" and ok: "dir_ok D w"
    and call: "retry_getchildren api zh path n w = ((ret, kids), w')"
  shows "dir_step D w w' \<and> (ret = ZOK \<longrightarrow>
    (\<exists>w1. dir_step D w w1 \<and> evolves D w1 w' \<and> set kids = dir_nodes D w1))"
proof -
  let ?Q = "\<lambda>r w'. fst r = ZOK \<longrightarrow> (\<exists>w1. dir_step D w w1 \<and> evolves D w1 w' \<and> set (snd r) = dir_nodes D w1)"
  have "dir_step D w w' \<and> (fst (ret, kids) \<noteq> ZCONNECTIONLOSS \<longrightarrow> ?Q (ret, kids) w')"
  proof (rule retry_upto_invariant [where I = "\<lambda>w'. dir_step D w w'" and Q = ?Q])
    fix v r v' assume v: "dir_step D w v" "zoo_get_children api zh path False v = (r, v')"
    note list = law_list [OF laws dir_step_ok [OF v(1)] v(2)]
    have "?Q r v'" using list(2) dir_step_trans [OF v(1)] by blast
    with dir_step_trans [OF v(1) list(1)]
    show "dir_step D w v' \<and> (fst r \<noteq> ZCONNECTIONLOSS \<longrightarrow> ?Q r v')" by blast
  qed (use ok call in \<open>auto simp: retry_getchildren_def intro: dir_step_refl\<close>)
  then show ?thesis by auto
qed

text \<open>A retried call whose single call only evolves the directory only evolves it.\<close>

lemma laws_retry:
  assumes "\<And>v. dir_ok D v \<Longrightarrow> dir_step D v (snd (op v))" and ok: "dir_ok D w"
    and call: "retry_upto op n (ZCONNECTIONLOSS, d) w = (r, w')"
  shows "dir_step D w w'"
proof -
  have "dir_step D w w' \<and> (fst r \<noteq> ZCONNECTIONLOSS \<longrightarrow> True)"
  proof (rule retry_upto_invariant [where I = "\<lambda>w'. dir_step D w w'", OF _ dir_step_refl [OF ok] call])
    fix v r v' assume "dir_step D w v" "op v = (r, v')"
    then show "dir_step D w v' \<and> (fst r \<noteq> ZCONNECTIONLOSS \<longrightarrow> True)"
      using assms(1) [of v] dir_step_trans [of D w v v'] by (auto dest: dir_step_ok)
  qed
  then show ?thesis by simp
qed

lemma laws_ensure_path:
  "zk_lock_laws api D zh path sid \<Longrightarrow> dir_ok D w \<Longrightarrow>
   dir_step D w (snd (ensure_path api zh path acl n ex w))"
proof (induction n arbitrary: ex w)
  case 0
  then show ?case by (simp add: dir_step_refl)
next
  case (Suc n)
  note exists = law_exists [OF Suc.prems] and mkdir = law_mkdir [OF Suc.prems, of acl]
  show ?case
    using Suc.IH [OF Suc.prems(1) dir_step_ok [OF exists]] Suc.IH [OF Suc.prems(1) dir_step_ok [OF mkdir]]
      exists mkdir Suc.prems
    by (auto simp: split_beta dir_step_refl intro: dir_step_trans)
qed

lemma laws_call_completion:
  "zk_lock_laws api D zh path sid \<Longrightarrow> dir_ok D w \<Longrightarrow> dir_step D w (call_completion api m rc w)"
  by (auto simp: call_completion_def dir_step_refl law_completion split: option.split)

section \<open>Invariants of a client\<close>

lemma snprintf_lock_buf: "snprintf (length p + 21) (child_path p (lock_prefix s)) = child_path p (lock_prefix s)"
  by (rule snprintf_fits) (simp add: child_path_def)

lemma snprintf_retbuf:
  "n < seq_max \<Longrightarrow> snprintf (length p + 41) (child_path p (lock_child s n)) = child_path p (lock_child s n)"
  by (rule snprintf_fits) (simp add: child_path_def lock_child_def length_printf_010d)

text \<open>The first child of a sorted listing has the least counter.\<close>

lemma sorted_head_least:
  assumes ok: "dir_ok D w" and kids: "set kids = dir_nodes D w"
    and sorted: "sort_children kids = Ret (c # rest)"
  obtains s n where "c = lock_child s n" "n < dir_next D w" "c \<in> dir_nodes D w" "least_child D w n"
proof -
  have c: "c \<in> dir_nodes D w" using sort_children_set [OF sorted] kids by auto
  then obtain s n where n: "c = lock_child s n" "n < dir_next D w" "n < seq_max"
    using dir_okD [OF ok] by blast
  have "least_child D w n" unfolding least_child_def
  proof (intro allI impI)
    fix t k assume k: "k < seq_max" "lock_child t k \<in> dir_nodes D w"
    show "n \<le> k" using sort_children_least [OF sorted, of "lock_child t k"] k n kids strrchr_lock_child [OF k(1)]
      by (simp add: vstrcmp_lock_child strcmp_le printf_010d_le)
  qed
  with n c that show thesis by blast
qed

definition client_inv ::
  "'w lock_dir \<Rightarrow> zhandle \<Rightarrow> string \<Rightarrow> (zkr_lock_mutex \<Rightarrow> 'w \<Rightarrow> bool) \<Rightarrow> zkr_lock_mutex \<Rightarrow> 'w \<Rightarrow> bool" where
  "client_inv D zh path I m w \<longleftrightarrow> m_zh m = zh \<and> m_path m = Str path \<and> dir_ok D w \<and> I m w"

text \<open>
  What makes a predicate on the mutex struct and the directory an invariant of lock and unlock: the
  other clients do not break it; it allows the struct to name a child with the least counter as the
  owner, and a child of the own session as its own; and it does not depend on the flag and the pthread
  mutex.
\<close>

locale lock_invariant =
  fixes D :: "'w lock_dir" and sid :: "64 word" and I :: "zkr_lock_mutex \<Rightarrow> 'w \<Rightarrow> bool"
  assumes stable: "dir_ok D w \<Longrightarrow> dir_step D w w' \<Longrightarrow> I m w \<Longrightarrow> I m w'"
    and takes_owner: "dir_ok D w \<Longrightarrow> I m w \<Longrightarrow> lock_child s n \<in> dir_nodes D w \<Longrightarrow> n < dir_next D w \<Longrightarrow>
      least_child D w n \<Longrightarrow> I (m\<lparr>m_ownerid := Str (lock_child s n)\<rparr>) w"
    and takes_id: "I m w \<Longrightarrow> (\<And>i. c = Str i \<Longrightarrow> \<exists>n. i = lock_child sid n \<and> n < dir_next D w) \<Longrightarrow>
      I (m\<lparr>m_id := c\<rparr>) w"
    and flag: "I (m\<lparr>m_isOwner := b\<rparr>) w = I m w"
    and pmutex: "I (m\<lparr>m_pmutex := p\<rparr>) w = I m w"
begin

lemma inv_step: "client_inv D zh path I m w \<Longrightarrow> dir_step D w w' \<Longrightarrow> client_inv D zh path I m w'"
  by (auto simp: client_inv_def intro: stable dir_step_ok)

lemma inv_flag: "client_inv D zh path I (m\<lparr>m_isOwner := b\<rparr>) w = client_inv D zh path I m w"
  by (simp add: client_inv_def flag)

lemma inv_pmutex: "client_inv D zh path I (m\<lparr>m_pmutex := p\<rparr>) w = client_inv D zh path I m w"
  by (simp add: client_inv_def pmutex)

lemma inv_id:
  "client_inv D zh path I m w \<Longrightarrow> (\<And>i. c = Str i \<Longrightarrow> \<exists>n. i = lock_child sid n \<and> n < dir_next D w) \<Longrightarrow>
   client_inv D zh path I (m\<lparr>m_id := c\<rparr>) w"
  by (auto simp: client_inv_def intro: takes_id)

lemma find_or_create_inv:
  assumes laws: "zk_lock_laws api D zh path sid" and inv: "client_inv D zh path I m w"
    and call: "lock_find_or_create api m path w = (res, m1, w1)"
  shows "client_inv D zh path I m1 w1"
  using call
proof (cases rule: find_or_create_cases)
  case (lost ret kids)
  with laws inv show ?thesis
    using laws_getchildren [OF laws, of w 3 ret kids w1] inv_step [OF inv]
    by (auto simp: client_inv_def)
next
  case (found kids c)
  have zh: "m_zh m = zh" and ok: "dir_ok D w" using inv by (auto simp: client_inv_def)
  from laws_getchildren [OF laws ok] found(1) zh obtain wl where
    wl: "dir_step D w w1" "dir_step D w wl" "evolves D wl w1" "set kids = dir_nodes D wl" by blast
  have c: "c \<in> set kids" "take 19 c = lock_prefix sid"
    using lookupnode_SomeD [OF found(2)] zh by (simp_all add: law_client [OF laws])
  then obtain s n where "c = lock_child s n" "n < dir_next D wl"
    using dir_okD [OF dir_step_ok [OF wl(2)], of c] wl(4) by auto
  with c wl(3) have "c = lock_child sid n" "n < dir_next D w1" by (auto simp: evolves_def)
  then show ?thesis unfolding found(4) by (intro inv_id inv_step [OF inv wl(1)]) auto
next
  case (created kids w2 len ret retbuf)
  have zh: "m_zh m = zh" and ok: "dir_ok D w" using inv by (auto simp: client_inv_def)
  from laws_getchildren [OF laws ok] created(1) zh have w2: "dir_step D w w2" by blast
  have cr: "zoo_create api zh (child_path path (lock_prefix sid)) None 0 (m_acl m)
      (or ZOO_EPHEMERAL ZOO_SEQUENCE) (length path + 41) w2 = ((ret, retbuf), w1)"
    using created(3,4) zh by (simp add: law_client [OF laws] snprintf_lock_buf add.commute)
  note w1 = law_create [OF laws dir_step_ok [OF w2] cr]
  have inv1: "client_inv D zh path I m w1"
    by (rule inv_step [OF inv_step [OF inv w2] w1(1)])
  from created(5) show ?thesis
  proof
    assume ret: "ret = ZOK \<and> res = Inr () \<and> m1 = m\<lparr>m_id := getName retbuf\<rparr>"
    with w1(2) obtain n where n: "n < dir_next D w1"
      "retbuf = snprintf (length path + 41) (child_path path (lock_child sid n))" by auto
    moreover have "n < seq_max" using n(1) inv1 by (auto simp: client_inv_def dir_ok_def)
    ultimately have "getName retbuf = Str (lock_child sid n)"
      by (simp add: snprintf_retbuf getName_child_path lock_child_no_slash)
    with ret n(1) show ?thesis using inv_id [OF inv1, of "Str (lock_child sid n)"] by auto
  qed (use inv_id [OF inv1, of Null] in auto)
qed

lemma listing_inv:
  assumes laws: "zk_lock_laws api D zh path sid" and inv: "client_inv D zh path I m w"
    and list: "retry_getchildren api (m_zh m) path 3 w = ((ZOK, kids), w1)"
    and sorted: "sort_children kids = Ret (owner # rest)"
  shows "client_inv D zh path I (m\<lparr>m_ownerid := Str owner\<rparr>) w1"
proof -
  have zh: "m_zh m = zh" and ok: "dir_ok D w" using inv by (auto simp: client_inv_def)
  from laws_getchildren [OF laws ok list [unfolded zh]] obtain wl where
    wl: "dir_step D w w1" "dir_step D w wl" "evolves D wl w1" "set kids = dir_nodes D wl" by blast
  from sorted_head_least [OF dir_step_ok [OF wl(2)] wl(4) sorted] obtain s n where
    "owner = lock_child s n" "n < dir_next D wl" "owner \<in> dir_nodes D wl" "least_child D wl n" .
  then have "client_inv D zh path I (m\<lparr>m_ownerid := Str owner\<rparr>) wl"
    using inv_step [OF inv wl(2)] by (auto simp: client_inv_def intro: takes_owner)
  moreover have "dir_step D wl w1" using wl by (simp add: dir_step_def)
  ultimately show ?thesis by (rule inv_step)
qed

lemma decide_inv:
  assumes laws: "zk_lock_laws api D zh path sid" and inv: "client_inv D zh path I m w"
    and held: "m_pmutex m = PLocked"
    and call: "lock_decide api m path ident w = Some (Ret (r, m', w'))"
  shows "client_inv D zh path I m' w'"
  using call held
proof (cases rule: decide_cases)
  case (lost kids)
  have zh: "m_zh m = zh" and ok: "dir_ok D w" using inv by (auto simp: client_inv_def)
  have "dir_step D w w'" using laws_getchildren [OF laws ok lost(1) [unfolded zh]] by simp
  then show ?thesis unfolding lost(3) by (rule inv_step [OF inv])
next
  case (waits kids w1 owner rest pred stat)
  note l = listing_inv [OF laws inv waits(1,2)]
  have zh: "m_zh m = zh" and ok: "dir_ok D w1" using inv l by (auto simp: client_inv_def)
  have "dir_step D w1 w'"
    by (rule laws_retry [OF law_watch [OF laws] ok waits(4) [unfolded retry_zoowexists_def zh]])
  then show ?thesis unfolding waits(6) using l by (simp add: inv_flag inv_step)
next
  case (owns kids w1 owner rest)
  note l = listing_inv [OF laws inv owns(1,2)]
  have "dir_step D w1 w'"
    unfolding owns(5) by (rule laws_call_completion [OF laws]) (use l in \<open>simp add: client_inv_def\<close>)
  then show ?thesis unfolding owns(7) using l by (simp add: inv_flag inv_step)
next
  case (stranded kids owner rest)
  then show ?thesis using listing_inv [OF laws inv stranded(1,2)] by simp
qed

lemma operation_inv:
  assumes laws: "zk_lock_laws api D zh path sid" and inv: "client_inv D zh path I m w"
    and held: "mutex_held m" and call: "zkr_lock_operation api m w = Some (Ret (r, m', w'))"
  shows "client_inv D zh path I m' w' \<and> mutex_held m'"
proof -
  have p: "m_path m = Str path" using inv by (simp add: client_inv_def)
  show ?thesis
    by (rule operation_rule [where I = "\<lambda>m w. client_inv D zh path I m w \<and> mutex_held m"
        and J = "\<lambda>m w. client_inv D zh path I m w \<and> mutex_held m", OF call _ p])
      (use inv held in \<open>auto dest: find_or_create_frame decide_frame
        intro: find_or_create_inv [OF laws] decide_inv [OF laws] simp: mutex_held_def\<close>)
qed

lemma lock_inv:
  assumes laws: "zk_lock_laws api D zh path sid" and inv: "client_inv D zh path I m w"
    and ok: "mutex_ok m" and call: "zkr_lock_lock api m w = Some (Ret (b, m', w'))"
  shows "client_inv D zh path I m' w' \<and> mutex_ok m'"
  using call
proof (cases rule: lock_phases)
  case (1 p ex st w1 ex' w2 r m1)
  have p: "p = path" "m_zh m = zh" "dir_ok D w" using 1(2) inv by (auto simp: client_inv_def)
  have "dir_step D w w1" using law_exists [OF laws p(3)] 1(3) p by simp
  moreover have "dir_step D w1 w2"
    using laws_ensure_path [OF laws, of w1 "m_acl m" 4 ex] dir_step_ok [OF calculation] 1(4) p by simp
  ultimately have "client_inv D zh path I (m\<lparr>m_pmutex := PLocked\<rparr>) w2"
    using inv_step [OF inv_step [OF inv]] by (simp add: inv_pmutex)
  moreover have "mutex_held (m\<lparr>m_pmutex := PLocked\<rparr>)" using ok by (simp add: mutex_defs)
  ultimately have "client_inv D zh path I m1 w' \<and> mutex_held m1"
    using op_loop_rule [OF 1(5), of "\<lambda>m w. client_inv D zh path I m w \<and> mutex_held m"]
      operation_inv [OF laws] by blast
  with 1(6) lock_ok [OF ok call] show ?thesis by (simp add: inv_pmutex)
qed

lemma unlock_inv:
  assumes laws: "zk_lock_laws api D zh path sid" and inv: "client_inv D zh path I m w"
    and ok: "mutex_ok m" and call: "zkr_lock_unlock api m w = Ret (r, m', w')"
  shows "client_inv D zh path I m' w' \<and> mutex_ok m'"
proof -
  have f: "m_pmutex m = PUnlocked" "m_path m = Str path" "m_zh m = zh" "dir_ok D w" "m_id m \<noteq> Freed"
    using inv ok by (auto simp: client_inv_def mutex_defs)
  have ok': "mutex_ok m'" using unlock_ok [OF ok, of api w] call by auto
  show ?thesis
  proof (cases "m_id m")
    case Null
    with call f inv ok show ?thesis by (simp add: unlock_eq)
  next
    case (Str i)
    obtain ret w1 where d: "delete_result api m path i w = (ret, w1)" by fastforce
    then have r: "retry_upto (status_op (zoo_delete api zh (child_path path i) (-1))) 3
        (ZCONNECTIONLOSS, ()) w = ((ret, ()), w1)"
      using f(3) by (auto simp: delete_result_def split_beta prod_eq_iff)
    have "dir_step D w w1"
      by (rule laws_retry [OF _ f(4) r]) (simp add: status_op_eq law_delete [OF laws])
    then have i1: "client_inv D zh path I m w1" by (rule inv_step [OF inv])
    then have i2: "client_inv D zh path I (m\<lparr>m_id := Null\<rparr>) (call_completion api m 1 w1)"
      using inv_step [OF inv_id [OF i1, of Null]] laws_call_completion [OF laws, of w1 m 1]
      by (simp add: client_inv_def)
    from call Str d f i1 i2 ok' show ?thesis by (auto simp: unlock_eq split: if_splits)
  qed (use f in simp)
qed

end

section \<open>The two invariants\<close>

text \<open>What the struct says about the owner and about its own child.\<close>

interpretation owner: lock_invariant D sid "owner_inv D sid" for D :: "'w lock_dir" and sid
proof unfold_locales
  fix w m s n
  assume "dir_ok D w" "owner_inv D sid m w" "n < dir_next D w" "least_child D w n"
  then show "owner_inv D sid (m\<lparr>m_ownerid := Str (lock_child s n)\<rparr>) w" by (auto simp: owner_inv_def)
qed (rule owner_inv_stable, assumption+, auto simp: owner_inv_def)

text \<open>
  A child at the head of the queue stays there while it exists, and no mutex struct that was set up
  behind it takes another child for the owner.
\<close>

definition head_inv :: "'w lock_dir \<Rightarrow> 64 word \<Rightarrow> nat \<Rightarrow> zkr_lock_mutex \<Rightarrow> 'w \<Rightarrow> bool" where
  "head_inv D s n m w \<longleftrightarrow> n < dir_next D w \<and> (lock_child s n \<in> dir_nodes D w \<longrightarrow>
     least_child D w n \<and> (\<forall>x. m_ownerid m = Str x \<longrightarrow> x = lock_child s n))"

lemma head_inv_stable:
  assumes "dir_ok D w" "dir_step D w w'" "head_inv D s n m w"
  shows "head_inv D s n m w'"
proof -
  have st: "dir_ok D w'" "evolves D w w'" "dir_next D w \<le> dir_next D w'"
    using assms(2) by (auto simp: dir_step_def evolves_def)
  have n: "n < dir_next D w" using assms(3) by (simp add: head_inv_def)
  have "least_child D w' n \<and> (\<forall>x. m_ownerid m = Str x \<longrightarrow> x = lock_child s n)"
    if mem: "lock_child s n \<in> dir_nodes D w'"
    using assms(3) child_was_there [OF assms(1) st(1,2) n mem]
      least_child_stable [OF assms(1) st(1,2) n _ mem] by (simp add: head_inv_def)
  with n st(3) show ?thesis by (simp add: head_inv_def)
qed

lemma least_child_unique:
  assumes "dir_ok D w" "lock_child s n \<in> dir_nodes D w" "lock_child t k \<in> dir_nodes D w"
    "n < seq_max" "k < seq_max" "least_child D w n" "least_child D w k"
  shows "s = t \<and> n = k"
proof -
  have "n = k" using assms(2-7) by (auto simp: least_child_def intro: le_antisym)
  with assms show ?thesis by (auto simp: dir_ok_def)
qed

interpretation head: lock_invariant D sid "head_inv D s n" for D :: "'w lock_dir" and sid s n
proof unfold_locales
  fix w m t k
  assume a: "dir_ok D w" "head_inv D s n m w" "lock_child t k \<in> dir_nodes D w" "k < dir_next D w"
    "least_child D w k"
  have "dir_next D w \<le> seq_max" using a(1) by (simp add: dir_ok_def)
  with a(2,4) have "n < seq_max" "k < seq_max" by (auto simp: head_inv_def)
  then show "head_inv D s n (m\<lparr>m_ownerid := Str (lock_child t k)\<rparr>) w"
    using a least_child_unique [OF a(1) _ a(3), of s n] by (auto simp: head_inv_def)
qed (rule head_inv_stable, assumption+, auto simp: head_inv_def)

section \<open>Reachable views and mutual exclusion\<close>

text \<open>
  The states a client can see: it initialises its mutex, calls lock and unlock (a fired watch is
  a call of lock), and the other clients act in between.
\<close>

inductive client_view ::
  "'w zk_api \<Rightarrow> 'w lock_dir \<Rightarrow> zhandle \<Rightarrow> string \<Rightarrow> zkr_lock_mutex \<Rightarrow> 'w \<Rightarrow> bool"
  for api D zh path where
  view_init: "dir_ok D w \<Longrightarrow> client_view api D zh path (snd (zkr_lock_init m0 zh (Str path) acl)) w"
| view_lock: "client_view api D zh path m w \<Longrightarrow> zkr_lock_lock api m w = Some (Ret (b, m', w')) \<Longrightarrow>
    client_view api D zh path m' w'"
| view_unlock: "client_view api D zh path m w \<Longrightarrow> zkr_lock_unlock api m w = Ret (r, m', w') \<Longrightarrow>
    client_view api D zh path m' w'"
| view_others: "client_view api D zh path m w \<Longrightarrow> dir_step D w w' \<Longrightarrow> client_view api D zh path m w'"

lemma client_view_inv:
  assumes "client_view api D zh path m w" "zk_lock_laws api D zh path sid"
  shows "client_inv D zh path (owner_inv D sid) m w \<and> mutex_ok m"
  using assms(1)
proof (induction rule: client_view.induct)
  case (view_init w m0 acl)
  then show ?case by (simp add: client_inv_def owner_inv_def zkr_lock_init_def mutex_defs)
next
  case (view_lock m w b m' w')
  then show ?case using owner.lock_inv [OF assms(2)] by blast
next
  case (view_unlock m w r m' w')
  then show ?case using owner.unlock_inv [OF assms(2)] by blast
next
  case (view_others m w w')
  then show ?case by (auto intro: owner.inv_step)
qed

text \<open>A view that owns the lock while its child exists: the child is the least one.\<close>

lemma client_view_owner:
  assumes "client_view api D zh path m w" "zk_lock_laws api D zh path sid"
    and "zkr_lock_isowner m = Ret True" "m_id m = Str i" "i \<in> dir_nodes D w"
  shows "\<exists>n. i = lock_child sid n \<and> n < seq_max \<and> least_child D w n"
proof -
  note inv = client_view_inv [OF assms(1,2)]
  have own: "m_ownerid m = Str i"
    using inv assms(3,4) isowner_ok [of m] by (auto simp: mutex_ok_def)
  obtain n where n: "i = lock_child sid n" "n < dir_next D w"
    using inv assms(4) by (auto simp: client_inv_def owner_inv_def)
  moreover obtain s k where k: "i = lock_child s k" "k < dir_next D w" "least_child D w k"
    using inv own assms(5) by (auto simp: client_inv_def owner_inv_def)
  moreover have "dir_next D w \<le> seq_max" using inv by (auto simp: client_inv_def dir_ok_def)
  ultimately show ?thesis using lock_child_inj [of n k sid s] by auto
qed

end
