(* ===== verification/Sim_Zk.thy ===== *)
theory Sim_Zk
  imports Lock_Exclusion
begin

text \<open>
  Concrete library instances, used only to show that the hypotheses of the properties can hold:
  \<open>idle_api\<close> answers every call with \<open>ZOK\<close>, and \<open>dir_api\<close> serves one lock directory
  with a sequence counter. No property is about these instances.
\<close>

definition idle_api :: "'w zk_api" where
  "idle_api = \<lparr>zookeeper_init = (\<lambda>h wt t w. (Some 0, w)), zookeeper_close = (\<lambda>zh w. w),
     zoo_client_id = (\<lambda>zh w. (of_nat zh, '''')),
     zoo_exists = (\<lambda>zh p wt w. ((ZOK, no_stat), w)), zoo_wexists = (\<lambda>zh p wt w. ((ZOK, no_stat), w)),
     zoo_get_children = (\<lambda>zh p wt w. ((ZOK, []), w)), zoo_wget_children = (\<lambda>zh p wt w. ((ZOK, []), w)),
     zoo_create = (\<lambda>zh p v l acl fl sz w. ((ZOK, p), w)), zoo_delete = (\<lambda>zh p v w. (ZOK, w)),
     zoo_wget = (\<lambda>zh p wt l w. ((ZOK, '''', 0, no_stat), w)),
     zoo_get = (\<lambda>zh p wt l w. ((ZOK, '''', 0, no_stat), w)),
     zoo_set2 = (\<lambda>zh p d l v w. ((ZOK, no_stat), w)), zoo_set = (\<lambda>zh p d l v w. (ZOK, w)),
     zoo_get_acl = (\<lambda>zh p w. ((ZOK, [], no_stat), w)), zoo_set_acl = (\<lambda>zh p v a w. (ZOK, w)),
     zoo_add_auth = (\<lambda>zh s c cb w. (ZOK, w)), zoo_set_watcher = (\<lambda>zh w. w),
     zoo_state = (\<lambda>zh w. 3), zoo_recv_timeout = (\<lambda>zh w. 10000), is_unrecoverable = (\<lambda>zh w. 0),
     zoo_set_debug_level = (\<lambda>l w. w), zoo_deterministic_conn_order = (\<lambda>b w. w),
     run_completion = (\<lambda>f rc cb w. w)\<rparr>"

lemma idle_api_simps [simp]:
  "zookeeper_init idle_api h wt t w = (Some 0, w)" "zookeeper_close idle_api zh w = w"
  "zoo_client_id idle_api zh w = (of_nat zh, [])"
  "zoo_exists idle_api zh p b w = ((ZOK, no_stat), w)"
  "zoo_wexists idle_api zh p wt w = ((ZOK, no_stat), w)"
  "zoo_get_children idle_api zh p b w = ((ZOK, []), w)"
  "zoo_wget_children idle_api zh p wt w = ((ZOK, []), w)"
  "zoo_create idle_api zh p v l acl fl sz w = ((ZOK, p), w)" "zoo_delete idle_api zh p i w = (ZOK, w)"
  "zoo_wget idle_api zh p wt i w = ((ZOK, [], 0, no_stat), w)"
  "zoo_get idle_api zh p b i w = ((ZOK, [], 0, no_stat), w)"
  "zoo_set2 idle_api zh p v i j w = ((ZOK, no_stat), w)" "zoo_set idle_api zh p v i j w = (ZOK, w)"
  "zoo_get_acl idle_api zh p w = ((ZOK, [], no_stat), w)" "zoo_set_acl idle_api zh p i a w = (ZOK, w)"
  "zoo_add_auth idle_api zh p q c w = (ZOK, w)" "zoo_set_watcher idle_api zh w = w"
  "zoo_state idle_api zh w = 3" "zoo_recv_timeout idle_api zh w = 10000"
  "is_unrecoverable idle_api zh w = 0" "zoo_set_debug_level idle_api i w = w"
  "zoo_deterministic_conn_order idle_api b w = w" "run_completion idle_api f rc cb w = w"
  by (simp_all add: idle_api_def)

type_synonym dir_world = "string list \<times> nat"

definition dir_create :: "string \<Rightarrow> zhandle \<Rightarrow> int \<Rightarrow> nat \<Rightarrow> dir_world \<Rightarrow> (int \<times> string) \<times> dir_world" where
  "dir_create path zh fl sz w =
     (if fl = 3 then
        if snd w < 9 then
          let c = lock_child (of_nat zh) (snd w)
          in ((ZOK, snprintf sz (child_path path c)), (fst w @ [c], Suc (snd w)))
        else ((ZSYSTEMERROR, ''''), w)
      else ((ZOK, ''''), w))"

definition dir_api_at :: "string \<Rightarrow> dir_world zk_api" where
  "dir_api_at path = idle_api\<lparr>
     zoo_get_children := (\<lambda>zh p wt w. ((ZOK, fst w), w)),
     zoo_create := (\<lambda>zh p v l acl fl sz w. dir_create path zh fl sz w),
     zoo_delete := (\<lambda>zh p v w. (ZOK, (filter (\<lambda>c. child_path path c \<noteq> p) (fst w), snd w)))\<rparr>"

abbreviation dir_api :: "dir_world zk_api" where "dir_api \<equiv> dir_api_at ''/l''"

definition dir_view :: "dir_world lock_dir" where
  "dir_view = \<lparr>dir_nodes = (\<lambda>w. set (fst w)), dir_next = snd\<rparr>"

lemma dir_create_step:
  assumes ok: "dir_ok dir_view w" and call: "dir_create path zh 3 sz w = ((ret, p), w')"
  shows "dir_step dir_view w w' \<and> (ret = ZOK \<longrightarrow> (\<exists>n. snd w \<le> n \<and> n < snd w' \<and>
    p = snprintf sz (child_path path (lock_child (of_nat zh) n))))"
proof (cases "snd w < 9")
  case False
  with assms show ?thesis by (simp add: dir_create_def dir_step_refl)
next
  case small: True
  then have True: "snd w < seq_max" by simp
  let ?c = "lock_child (of_nat zh) (snd w)"
  have w': "w' = (fst w @ [?c], Suc (snd w))" "ret = ZOK" "p = snprintf sz (child_path path ?c)"
    using call small by (auto simp: dir_create_def Let_def)
  have nodes: "\<exists>s k. c = lock_child s k \<and> k < snd w \<and> k < seq_max" if "c \<in> set (fst w)" for c
    using dir_okD [OF ok] that by (simp add: dir_view_def)
  have old: "n < snd w" if "lock_child t n \<in> set (fst w)" "n < seq_max" for t n
    using nodes [OF that(1)] lock_child_inj [of n] that(2) by blast
  have uniq: "s = t" if "n < seq_max" "lock_child s n \<in> set (fst w')" "lock_child t n \<in> set (fst w')" for s t n
  proof (cases "n < snd w")
    case True
    then have "lock_child s n \<in> set (fst w)" "lock_child t n \<in> set (fst w)"
      using that w' lock_child_inj [of n "snd w"] \<open>snd w < seq_max\<close> by auto
    with ok that(1) show ?thesis by (simp add: dir_ok_def dir_view_def)
  next
    case False
    then have "lock_child s n = ?c" "lock_child t n = ?c" using that w' old by auto
    then show ?thesis using lock_child_inj [of n "snd w"] that(1) \<open>snd w < seq_max\<close> by auto
  qed
  have "\<exists>s n. c = lock_child s n \<and> n < snd w'" if "c \<in> set (fst w')" for c
    using that w' nodes by (auto simp: less_Suc_eq) blast
  with uniq w' True have "dir_ok dir_view w'" unfolding dir_ok_def by (simp add: dir_view_def)
  moreover have "evolves dir_view w w'" using w' by (auto simp: evolves_def dir_view_def)
  ultimately show ?thesis using w' by (auto simp: dir_step_def)
qed

lemma dir_delete_step:
  "dir_ok dir_view w \<Longrightarrow> dir_step dir_view w (filter P (fst w), snd w)"
  by (auto simp: dir_step_def dir_ok_def evolves_def dir_view_def)

lemma dir_api_simps [simp]:
  "zoo_client_id (dir_api_at path) zh w = (of_nat zh, '''')"
  "zoo_exists (dir_api_at path) zh p wt w = ((ZOK, no_stat), w)"
  "zoo_wexists (dir_api_at path) zh p c w = ((ZOK, no_stat), w)"
  "zoo_get_children (dir_api_at path) zh p wt w = ((ZOK, fst w), w)"
  "zoo_create (dir_api_at path) zh p v l acl fl sz w = dir_create path zh fl sz w"
  "zoo_delete (dir_api_at path) zh p ver w = (ZOK, (filter (\<lambda>c. child_path path c \<noteq> p) (fst w), snd w))"
  "run_completion (dir_api_at path) f rc cb w = w"
  by (simp_all add: dir_api_at_def)

lemma dir_nodes_view: "dir_nodes dir_view w = set (fst w)"
  by (simp add: dir_view_def)

lemma dir_api_laws: "zk_lock_laws (dir_api_at path) dir_view zh path (of_nat zh)"
  unfolding zk_lock_laws_def
proof (intro conjI allI impI)
  fix w and ret :: int and kids w'
  assume "dir_ok dir_view w" "zoo_get_children (dir_api_at path) zh path False w = ((ret, kids), w')"
  then have "dir_step dir_view w w \<and> evolves dir_view w w' \<and> set kids = dir_nodes dir_view w" "w' = w"
    by (auto simp: dir_step_refl dir_nodes_view)
  then show "dir_step dir_view w w'"
    "\<exists>w1. dir_step dir_view w w1 \<and> evolves dir_view w1 w' \<and> set kids = dir_nodes dir_view w1" by blast+
next
  fix w acl sz and ret :: int and p w'
  assume "dir_ok dir_view w" and "zoo_create (dir_api_at path) zh (child_path path (lock_prefix (of_nat zh)))
      None 0 acl (or ZOO_EPHEMERAL ZOO_SEQUENCE) sz w = ((ret, p), w')"
  then have "dir_step dir_view w w' \<and> (ret = ZOK \<longrightarrow> (\<exists>n. snd w \<le> n \<and> n < snd w' \<and>
      p = snprintf sz (child_path path (lock_child (of_nat zh) n))))"
    using dir_create_step [of w path zh sz ret p w'] by simp
  then show "dir_step dir_view w w'" "ret = ZOK \<Longrightarrow> \<exists>n. dir_next dir_view w \<le> n \<and> n < dir_next dir_view w' \<and>
      p = snprintf sz (child_path path (lock_child (of_nat zh) n))"
    by (auto simp: dir_view_def)
qed (simp_all add: dir_step_refl dir_create_def dir_delete_step)

end
