(* ===== verification/Lock_Properties.thy ===== *)
theory Lock_Properties
  imports Sim_Zk
begin

text \<open>
  The properties of the lock of \<open>zoo_lock.c\<close>: mutual exclusion and what ownership means, the
  order of the children, termination, the mutex invariant, the exact results of unlock and
  destroy, and the behaviour of the two places where the code misses its intention (the wait for
  a mutex held by the same thread, and the predecessor search by whole names).
\<close>

section \<open>Concrete clients for the witnesses\<close>

definition blank_mutex :: zkr_lock_mutex where
  "blank_mutex = \<lparr>m_zh = 0, m_path = Null, m_acl = None, m_id = Null, m_cbdata = 0,
     m_completion = None, m_pmutex = PUninit, m_isOwner = 0, m_ownerid = Null\<rparr>"

definition client_mutex :: "zhandle \<Rightarrow> zkr_lock_mutex" where
  "client_mutex zh = snd (zkr_lock_init blank_mutex zh (Str ''/l'') None)"

definition locked_mutex :: zkr_lock_mutex where
  "locked_mutex = (client_mutex 1)\<lparr>m_id := Str (lock_child 1 0), m_ownerid := Str (lock_child 1 0),
     m_isOwner := 1\<rparr>"

definition waiting_mutex :: zkr_lock_mutex where
  "waiting_mutex = (client_mutex 2)\<lparr>m_id := Str (lock_child 2 1), m_ownerid := Str (lock_child 1 0),
     m_isOwner := 0\<rparr>"

definition two_children :: dir_world where
  "two_children = ([lock_child 1 0, lock_child 2 1], 2)"

lemma first_client_locks:
  "zkr_lock_lock dir_api (client_mutex 1) ([], 0) = Some (Ret (True, locked_mutex, ([lock_child 1 0], 1)))"
  by code_simp

lemma second_client_waits:
  "zkr_lock_lock dir_api (client_mutex 2) ([lock_child 1 0], 1) =
     Some (Ret (False, waiting_mutex, two_children))"
  by code_simp

lemma dir_ok_empty: "dir_ok dir_view ([], 0)"
  by (simp add: dir_ok_def dir_view_def)

lemma dir_step_first: "dir_step dir_view ([], 0) ([lock_child 1 0], 1)"
proof -
  have "dir_create ''/l'' 1 3 99 ([], 0) = ((ZOK, snprintf 99 (child_path (''/l'') (lock_child 1 0))), ([lock_child 1 0], 1))"
    by (simp add: dir_create_def Let_def)
  from dir_create_step [OF dir_ok_empty this] show ?thesis by blast
qed

lemma dir_step_second: "dir_step dir_view ([lock_child 1 0], 1) two_children"
proof -
  have "dir_create ''/l'' 2 3 99 ([lock_child 1 0], 1) =
      ((ZOK, snprintf 99 (child_path (''/l'') (lock_child 2 1))), two_children)"
    by (simp add: dir_create_def two_children_def Let_def)
  from dir_create_step [OF dir_step_ok [OF dir_step_first] this] show ?thesis by blast
qed

lemma first_client_view: "client_view dir_api dir_view 1 ''/l'' locked_mutex two_children"
proof -
  have "client_view dir_api dir_view 1 ''/l'' (client_mutex 1) ([], 0)"
    unfolding client_mutex_def by (rule view_init [OF dir_ok_empty])
  then have "client_view dir_api dir_view 1 ''/l'' locked_mutex ([lock_child 1 0], 1)"
    by (rule view_lock [OF _ first_client_locks])
  then show ?thesis
    by (rule view_others [OF _ dir_step_second])
qed

lemma second_client_view: "client_view dir_api dir_view 2 ''/l'' waiting_mutex two_children"
proof -
  have "client_view dir_api dir_view 2 ''/l'' (client_mutex 2) ([lock_child 1 0], 1)"
    unfolding client_mutex_def by (rule view_init [OF dir_step_ok [OF dir_step_first]])
  then show ?thesis by (rule view_lock [OF _ second_client_waits])
qed

lemma locked_mutex_owner: "zkr_lock_isowner locked_mutex = Ret True"
  by (simp add: locked_mutex_def zkr_lock_isowner_def client_mutex_def zkr_lock_init_def)

section \<open>Mutual exclusion\<close>

text \<open>
  C3: two clients of different sessions never own the lock at once. In any state that both can
  see, reached by any calls of lock and unlock and any actions of other clients, if the first is
  the owner and both their children exist, then \<open>zkr_lock_isowner\<close> is false for the second.
\<close>

theorem lock_mutual_exclusion:
  assumes lawsA: "zk_lock_laws api D zhA path sA" and lawsB: "zk_lock_laws api D zhB path sB"
    and "sA \<noteq> sB"
    and A: "client_view api D zhA path mA w" and B: "client_view api D zhB path mB w"
    and ownA: "zkr_lock_isowner mA = Ret True" and idA: "m_id mA = Str a" "a \<in> dir_nodes D w"
    and idB: "m_id mB = Str b" "b \<in> dir_nodes D w"
  shows "zkr_lock_isowner mB = Ret False"
proof (rule ccontr)
  assume "zkr_lock_isowner mB \<noteq> Ret False"
  moreover have "mutex_ok mB" "dir_ok D w"
    using client_view_inv [OF B lawsB] by (auto simp: client_inv_def)
  ultimately have ownB: "zkr_lock_isowner mB = Ret True"
    using isowner_ok [of mB] by (auto simp: mutex_ok_def)
  obtain n where n: "a = lock_child sA n" "n < seq_max" "least_child D w n"
    using client_view_owner [OF A lawsA ownA idA] by blast
  obtain k where k: "b = lock_child sB k" "k < seq_max" "least_child D w k"
    using client_view_owner [OF B lawsB ownB idB] by blast
  have "n = k" using n k idA idB by (auto simp: least_child_def intro: le_antisym)
  with n k idA idB \<open>dir_ok D w\<close> \<open>sA \<noteq> sB\<close> show False by (auto simp: dir_ok_def)
qed

theorem lock_mutual_exclusion_witness:
  "zkr_lock_isowner locked_mutex = Ret True \<and> zkr_lock_isowner waiting_mutex = Ret False"
proof -
  have "zkr_lock_isowner waiting_mutex = Ret False"
    by (rule lock_mutual_exclusion [where a = "lock_child 1 0" and b = "lock_child 2 1",
          OF dir_api_laws dir_api_laws _ first_client_view second_client_view locked_mutex_owner])
      (simp_all add: locked_mutex_def waiting_mutex_def two_children_def dir_view_def)
  with locked_mutex_owner show ?thesis by simp
qed

text \<open>
  An owner whose child exists has the child with the least sequence counter of all children
  of the lock's path, and that child carries the owner's own session.
\<close>

theorem owner_has_least_counter:
  assumes "zk_lock_laws api D zh path sid" and "client_view api D zh path m w"
    and "zkr_lock_isowner m = Ret True" and "m_id m = Str i" and "i \<in> dir_nodes D w"
  shows "\<exists>n. i = lock_child sid n \<and>
    (\<forall>t k. k < seq_max \<longrightarrow> lock_child t k \<in> dir_nodes D w \<longrightarrow> n \<le> k)"
  using client_view_owner [OF assms(2,1,3-5)] by (auto simp: least_child_def)

theorem owner_has_least_counter_witness:
  "\<exists>n. lock_child 1 0 = lock_child (of_nat 1) n \<and>
    (\<forall>t k. k < seq_max \<longrightarrow> lock_child t k \<in> dir_nodes dir_view two_children \<longrightarrow> n \<le> k)"
  by (rule owner_has_least_counter [OF dir_api_laws first_client_view locked_mutex_owner])
    (simp_all add: locked_mutex_def two_children_def dir_view_def)

section \<open>The order of the children\<close>

text \<open>
  C17: \<open>sort_children\<close> orders children by their sequence counter as a number, whatever the
  session in their names: on lock children with pairwise different counters it is defined and
  returns them sorted by counter.
\<close>

theorem sort_children_order:
  assumes "seqs_ok ps"
  shows "sort_children (lock_names ps) = Ret (lock_names (sort_key snd ps))"
  using assms by (rule sort_children_by_seq)

theorem sort_children_order_witness:
  "seqs_ok [(7, 12), (3, 9), (5, 10)] \<and>
   sort_children (lock_names [(7, 12), (3, 9), (5, 10)]) = Ret (lock_names [(3, 9), (5, 10), (7, 12)])"
proof -
  have ok: "seqs_ok [(7, 12), (3, 9), (5, 10)]" by (simp add: seqs_ok_def)
  have "sort_key snd [(7 :: 64 word, 12 :: nat), (3, 9), (5, 10)] = [(3, 9), (5, 10), (7, 12)]"
    by (simp add: sort_key_def)
  with ok sort_children_order [OF ok] show ?thesis by simp
qed

text \<open>
  The array that \<open>sort_children\<close> leaves is a permutation of the children, and no child's
  suffix is below that of its first element, for any children with a dash in their names.
\<close>

theorem sort_children_sorts:
  assumes "\<And>c. c \<in> set v \<Longrightarrow> CHR ''-'' \<in> set c"
  shows "\<exists>s. sort_children v = Ret s \<and> mset s = mset v \<and>
    sorted_wrt (\<lambda>a b. the (vstrcmp a b) \<le> 0) s"
proof -
  have dash: "set v \<subseteq> {c. strrchr c (CHR ''-'') \<noteq> None}" using assms by auto
  then have all: "list_all (\<lambda>c. strrchr c (CHR ''-'') \<noteq> None) v" by (auto simp: list_all_iff)
  show ?thesis
  proof (cases "length v < 2")
    case True
    then show ?thesis by (cases v; cases "tl v") (auto simp: sort_children_def)
  next
    case False
    with all by_suffix.sorted_qsort [OF dash] show ?thesis by (simp add: sort_children_def)
  qed
qed

theorem sort_children_sorts_witness:
  "\<exists>s. sort_children [''b-2'', ''a-3'', ''c-1''] = Ret s \<and> mset s = mset [''b-2'', ''a-3'', ''c-1''] \<and>
    sorted_wrt (\<lambda>a b. the (vstrcmp a b) \<le> 0) s"
  by (rule sort_children_sorts) auto

section \<open>Termination and the mutex invariant\<close>

text \<open>
  C15: a call of \<open>zkr_lock_lock\<close> on a sound mutex comes back, whatever the library answers, as long as
  a successful create fills its buffer with an absolute path: the loops in it are bounded, and the
  outer loop of \<open>zkr_lock_operation\<close> runs again only for a path without a slash. It fails to come back only by
  a fault, and that only after a listing of the children that was answered: with no child in it, its first element
  is read; with several children of which one has no dash in its name, the comparison reads through a null
  pointer; and with a child in it that the next call can not watch, the thread waits for the mutex
  that it holds itself.
\<close>

theorem lock_terminates:
  assumes "create_gives_path api" and "mutex_ok m" and "m_path m = Str path"
  shows "\<exists>out. zkr_lock_lock api m w = Some out \<and>
    ((\<exists>b m' w'. out = Ret (b, m', w')) \<or>
     (\<exists>v kids v1. retry_getchildren api (m_zh m) path 3 v = ((ZOK, kids), v1) \<and>
       (out = Fault OutOfBounds \<and> kids = [] \<or>
        out = Fault NullDeref \<and> 2 \<le> length kids \<and> (\<exists>c\<in>set kids. CHR ''-'' \<notin> set c) \<or>
        out = Fault Deadlock \<and> (\<exists>c\<in>set kids.
          fst (fst (retry_zoowexists api (m_zh m) (child_path path c) LockWatcher 3 v1)) \<noteq> ZOK))))"
  using lock_outcome [OF assms, of w] unfolding lock_fault_cause_def by blast

text \<open>A library with one child, which can be watched: only the return is left.\<close>

definition one_child_api :: "unit zk_api" where
  "one_child_api = idle_api\<lparr>zoo_create := (\<lambda>zh p v l acl fl sz w. ((ZOK, ''/a''), w)),
     zoo_get_children := (\<lambda>zh p wt w. ((ZOK, [''x-1'']), w))\<rparr>"

theorem lock_terminates_witness:
  "create_gives_path one_child_api \<and> (\<exists>b m'. zkr_lock_lock one_child_api (client_mutex 1) () = Some (Ret (b, m', ())))"
proof -
  have gives: "create_gives_path one_child_api"
    by (auto simp: create_gives_path_def one_child_api_def)
  have ok: "mutex_ok (client_mutex 1)" "m_path (client_mutex 1) = Str ''/l''"
    by (simp_all add: client_mutex_def zkr_lock_init_def mutex_defs)
  have "retry_getchildren one_child_api zh p 3 w = ((ZOK, [''x-1'']), w)"
    "retry_zoowexists one_child_api zh p wt 3 w = ((ZOK, no_stat), w)" for zh p w wt
    by (simp_all add: retry_getchildren_def retry_zoowexists_def one_child_api_def eval_nat_numeral)
  with lock_terminates [OF gives ok, of "()"] gives show ?thesis by auto
qed

text \<open>
  C16: every call of lock and of unlock on a sound mutex (pthread mutex free, path set, no dangling
  string) that returns leaves it sound, keeps its handle, path, ACL and completion, and lock
  returns what \<open>zkr_lock_isowner\<close> says of the mutex it leaves; unlock always returns.
\<close>

theorem calls_keep_mutex_sound:
  assumes "mutex_ok m"
  shows "(\<forall>b m' w'. zkr_lock_lock api m w = Some (Ret (b, m', w')) \<longrightarrow>
      mutex_ok m' \<and> same_config m m' \<and> zkr_lock_isowner m' = Ret b) \<and>
    (\<exists>r m' w'. zkr_lock_unlock api m w = Ret (r, m', w') \<and> mutex_ok m' \<and> same_config m m')"
  using lock_ok [OF assms, of api w] unlock_ok [OF assms, of api w] by blast

theorem calls_keep_mutex_sound_witness:
  "mutex_ok (client_mutex 1) \<and> mutex_ok locked_mutex \<and> same_config (client_mutex 1) locked_mutex"
proof -
  have ok: "mutex_ok (client_mutex 1)" unfolding client_mutex_def by (rule mutex_ok_init)
  from calls_keep_mutex_sound [OF ok, of dir_api "([], 0)"] first_client_locks ok show ?thesis by blast
qed

section \<open>Unlock and destroy\<close>

text \<open>
  The result of unlocking a child. If one of the first three deletions answers something
  other than a lost connection, the first such answer decides: deleted or already gone gives 0,
  clears the child's name and calls the completion with 1; any other answer gives
  \<open>ZCONNECTIONLOSS\<close> and keeps the name. If the connection is lost three times the result is
  \<open>ZCONNECTIONLOSS\<close> after exactly three calls.
\<close>

theorem unlock_result:
  fixes api :: "'w zk_api"
  assumes m: "mutex_ok m" "m_path m = Str p" "m_id m = Str i"
  defines "del \<equiv> status_op (zoo_delete api (m_zh m) (child_path p i) (-1))"
  shows "(\<forall>k<3. (\<forall>j<k. lost del j w) \<and> \<not> lost del k w \<longrightarrow>
      (let ((ret, _), w') = del (tries del k w) in
       zkr_lock_unlock api m w = (if ret = ZOK \<or> ret = ZNONODE
         then Ret (0, m\<lparr>m_id := Null\<rparr>, call_completion api m 1 w') else Ret (ZCONNECTIONLOSS, m, w')))) \<and>
    ((\<forall>j<3. lost del j w) \<longrightarrow> zkr_lock_unlock api m w = Ret (ZCONNECTIONLOSS, m, tries del 3 w))"
proof -
  have free: "m_pmutex m = PUnlocked" using m by (simp add: mutex_ok_def)
  have d: "delete_result api m p i w =
      (fst (fst (retry_upto del 3 (ZCONNECTIONLOSS, ()) w)), snd (retry_upto del 3 (ZCONNECTIONLOSS, ()) w))"
    by (simp add: delete_result_def del_def split_beta)
  show ?thesis
  proof (intro conjI allI impI)
    fix k :: nat assume "k < 3" and k: "(\<forall>j<k. lost del j w) \<and> \<not> lost del k w"
    then have "retry_upto del 3 (ZCONNECTIONLOSS, ()) w = del (tries del k w)"
      by (intro retry_upto_first) auto
    with d free m show "let ((ret, _), w') = del (tries del k w) in
       zkr_lock_unlock api m w = (if ret = ZOK \<or> ret = ZNONODE
         then Ret (0, m\<lparr>m_id := Null\<rparr>, call_completion api m 1 w') else Ret (ZCONNECTIONLOSS, m, w'))"
      by (simp add: unlock_eq split_beta)
  next
    assume "\<forall>j<3. lost del j w"
    then have "fst (fst (retry_upto del 3 (ZCONNECTIONLOSS, ()) w)) = ZCONNECTIONLOSS"
      "snd (retry_upto del 3 (ZCONNECTIONLOSS, ()) w) = tries del 3 w"
      using retry_upto_exhausted [of 3 del w "()"] by auto
    with d free m show "zkr_lock_unlock api m w = Ret (ZCONNECTIONLOSS, m, tries del 3 w)"
      by (simp add: unlock_eq)
  qed
qed

definition flaky_api :: "nat zk_api" where
  "flaky_api = idle_api\<lparr>zoo_delete := (\<lambda>zh p v n. (if n = 0 then ZOK else ZCONNECTIONLOSS, n - 1))\<rparr>"

lemma flaky_delete: "zoo_delete flaky_api zh p v n = (if n = 0 then ZOK else ZCONNECTIONLOSS, n - 1)"
  by (simp add: flaky_api_def)

theorem unlock_result_witness:
  "zkr_lock_unlock flaky_api locked_mutex 5 = Ret (ZCONNECTIONLOSS, locked_mutex, 2) \<and>
   zkr_lock_unlock flaky_api locked_mutex 2 = Ret (0, locked_mutex\<lparr>m_id := Null\<rparr>, 0)"
proof -
  let ?del = "status_op (zoo_delete flaky_api (m_zh locked_mutex) (child_path ''/l'' (lock_child 1 0)) (-1))"
  have m: "mutex_ok locked_mutex" "m_path locked_mutex = Str ''/l''" "m_id locked_mutex = Str (lock_child 1 0)"
    by (simp_all add: locked_mutex_def client_mutex_def zkr_lock_init_def mutex_defs)
  have "lost ?del 0 5 \<and> lost ?del 1 5 \<and> lost ?del 2 5 \<and> lost ?del 0 2 \<and> lost ?del 1 2 \<and> \<not> lost ?del 2 2"
    by (simp add: lost_def status_op_eq flaky_delete eval_nat_numeral)
  then have "\<forall>j<3. lost ?del j 5" "(\<forall>j<2. lost ?del j 2) \<and> \<not> lost ?del 2 2"
    by (auto simp: less_Suc_eq eval_nat_numeral)
  moreover have "call_completion flaky_api locked_mutex 1 0 = 0"
    by (simp add: call_completion_def locked_mutex_def client_mutex_def zkr_lock_init_def)
  ultimately show ?thesis
    using unlock_result [OF m, of flaky_api 5] unlock_result [OF m, of flaky_api 2]
    by (auto simp: status_op_eq flaky_delete eval_nat_numeral dest!: spec [of _ "Suc (Suc 0)"])
qed

lemma dead_mutex:
  "m_pmutex m = PUninit \<Longrightarrow> zkr_lock_unlock api m w = Fault BadMutex"
  "m_pmutex m = PUninit \<Longrightarrow> zkr_lock_lock api m w = Some (Fault BadMutex)"
  by (simp_all add: zkr_lock_unlock_def zkr_lock_lock_def pthread_mutex_lock_def)

text \<open>
  Destroying a sound mutex succeeds once and never twice: the struct keeps the addresses of
  the strings it released, so a second destroy releases them again, or finds the pthread mutex
  gone; and no call of lock or unlock is possible on a destroyed mutex.
\<close>

theorem destroy_once:
  assumes "mutex_ok m"
  shows "\<exists>m'. zkr_lock_destroy m = Ret (0, m') \<and>
    (zkr_lock_destroy m' = Fault DoubleFree \<or> zkr_lock_destroy m' = Fault BadMutex) \<and>
    (m_id m \<noteq> Null \<longrightarrow> zkr_lock_destroy m' = Fault DoubleFree) \<and>
    zkr_lock_unlock api m' w = Fault BadMutex \<and> zkr_lock_lock api m' w = Some (Fault BadMutex)"
  using assms
  by (cases "m_id m"; cases "m_ownerid m")
    (auto simp: zkr_lock_destroy_def pthread_mutex_destroy_def mutex_ok_def strings_ok_def dead_mutex)

theorem destroy_once_witness:
  "\<exists>m'. zkr_lock_destroy locked_mutex = Ret (0, m') \<and> zkr_lock_destroy m' = Fault DoubleFree"
proof -
  have "mutex_ok locked_mutex" "m_id locked_mutex \<noteq> Null"
    by (simp_all add: locked_mutex_def client_mutex_def zkr_lock_init_def mutex_defs)
  then show ?thesis using destroy_once [of locked_mutex dir_api "([], 0)"] by blast
qed

section \<open>The wait for the predecessor\<close>

lemma append_less_same: "(p @ a) < (p @ b) \<longleftrightarrow> (a :: string) < b"
  by (induction p) auto

lemma lock_child_less_same:
  "m < seq_max \<Longrightarrow> n < seq_max \<Longrightarrow> lock_child s m < lock_child s n \<longleftrightarrow> m < n"
  by (simp add: lock_child_def append_less_same printf_010d_less)

lemma filter_less_nth:
  "sorted_wrt (<) ns \<Longrightarrow> i < length ns \<Longrightarrow> filter (\<lambda>k. k < ns ! i) ns = take i (ns :: nat list)"
proof (induction ns arbitrary: i)
  case Nil
  then show ?case by simp
next
  case (Cons n ns)
  show ?case
  proof (cases i)
    case 0
    with Cons.prems have "\<forall>k\<in>set ns. \<not> k < n" by auto
    with 0 show ?thesis by simp
  next
    case (Suc j)
    with Cons.prems have "n < ns ! j" by simp
    with Suc Cons show ?thesis by simp
  qed
qed

text \<open>
  Among children of one session in the order of their counters, \<open>child_floor\<close> returns the
  direct predecessor of a child, and the null pointer for the first one.
\<close>

theorem child_floor_predecessor:
  assumes "sorted_wrt (<) ns" and "\<And>n. n \<in> set ns \<Longrightarrow> n < seq_max" and "i < length ns"
  shows "child_floor (map (lock_child s) ns) (lock_child s (ns ! i)) =
    (if i = 0 then None else Some (lock_child s (ns ! (i - 1))))"
proof -
  have "filter (\<lambda>c. c < lock_child s (ns ! i)) (map (lock_child s) ns) =
      map (lock_child s) (filter (\<lambda>k. k < ns ! i) ns)"
    using assms(2,3) by (auto simp: filter_map lock_child_less_same intro!: arg_cong [of _ _ "map _"] filter_cong)
  also have "\<dots> = map (lock_child s) (take i ns)" using assms(1,3) by (simp add: filter_less_nth)
  finally have "filter (\<lambda>c. c < lock_child s (ns ! i)) (map (lock_child s) ns) =
      map (lock_child s) (take i ns)" .
  then show ?thesis using assms(3) by (auto simp: child_floor_eq last_map last_conv_nth)
qed

theorem child_floor_predecessor_witness:
  "child_floor (map (lock_child 7) [2, 5, 9]) (lock_child 7 9) = Some (lock_child 7 5)"
proof -
  have "child_floor (map (lock_child 7) [2, 5, 9]) (lock_child 7 ([2, 5, 9] ! 2)) =
      (if (2 :: nat) = 0 then None else Some (lock_child 7 ([2, 5, 9] ! (2 - 1))))"
    by (rule child_floor_predecessor) auto
  then show ?thesis by simp
qed

lemma lock_prefix_less: "lock_prefix s < lock_prefix t \<longleftrightarrow> unat s < unat t"
proof -
  have lt: "unat z < 16 ^ 16" for z :: "64 word" using unsigned_less [of z, where ?'a = nat] by simp
  have app: "xs @ zs < ys @ zs \<longleftrightarrow> xs < ys" if "length xs = length ys" for xs ys zs :: string
    using that by (induction xs ys rule: list_induct2) auto
  have "lock_prefix s < lock_prefix t \<longleftrightarrow> printf_016lx s < printf_016lx t"
    using app [of "printf_016lx s" "printf_016lx t" "''-''"] by (simp add: lock_prefix_eq)
  also have "\<dots> \<longleftrightarrow> unat s < unat t"
    using lt [of s] lt [of t]
    by (simp add: printf_016lx_fixed map_digit_char_less fixed_digits_subset fixed_digits_less)
  finally show ?thesis .
qed

lemma lock_child_less_prefix:
  assumes "unat s < unat t" shows "lock_child s m < lock_child t n"
proof -
  have "xs @ as < ys @ bs" if "length xs = length ys" "xs < ys" for xs ys as bs :: string
    using that by (induction xs ys rule: list_induct2) auto
  then show ?thesis using assms by (simp add: lock_child_def lock_prefix_less)
qed

lemma sort_two: "m < n \<Longrightarrow> n < seq_max \<Longrightarrow>
  sort_children [lock_child s m, lock_child t n] = Ret [lock_child s m, lock_child t n]"
  using sort_children_by_seq [of "[(s, m), (t, n)]"] by (simp add: seqs_ok_def lock_names_def)

text \<open>
  C33: \<open>child_floor\<close> compares whole names, session first, while the children are ordered by their
  counters. A waiter whose session id is below the owner's gets no watch at all: the operation
  returns \<open>ZOK\<close> without ownership and without calling \<open>zoo_wexists\<close>, so no event will ever
  wake it; and the owner, who then finds the waiter's child "below" its own, watches that child
  and ends with \<open>isOwner\<close> 0 and no completion, although \<open>zkr_lock_isowner\<close> is true.
\<close>

theorem waiter_without_watch:
  assumes sessions: "unat sB < unat sA" and counters: "nA < nB" "nB < seq_max"
    and list: "retry_getchildren api (m_zh m) path 3 w =
      ((ZOK, [lock_child sA nA, lock_child sB nB]), w1)"
    and watch: "retry_zoowexists api (m_zh m) (child_path path (lock_child sB nB)) LockWatcher 3 w1 =
      ((ZOK, st), w2)"
  shows "lock_decide api m path (lock_child sB nB) w =
      Some (Ret (ZOK, m\<lparr>m_ownerid := Str (lock_child sA nA)\<rparr>, w1)) \<and>
    lock_decide api m path (lock_child sA nA) w =
      Some (Ret (ZOK, m\<lparr>m_ownerid := Str (lock_child sA nA), m_isOwner := 0\<rparr>, w2))"
proof -
  have less: "lock_child sB nB < lock_child sA nA" using sessions by (rule lock_child_less_prefix)
  then have "child_floor [lock_child sA nA, lock_child sB nB] (lock_child sB nB) = None"
    "child_floor [lock_child sA nA, lock_child sB nB] (lock_child sA nA) = Some (lock_child sB nB)"
    by (auto simp: child_floor_eq)
  with less list watch sort_two [OF counters, of sA sB] show ?thesis
    by (auto simp: lock_decide_def Let_def)
qed

definition pair_api :: "unit zk_api" where
  "pair_api = idle_api\<lparr>zoo_get_children := (\<lambda>zh p wt w. ((ZOK, [lock_child 5 0, lock_child 3 1]), w))\<rparr>"

theorem waiter_without_watch_witness:
  "lock_decide pair_api (client_mutex 3) ''/l'' (lock_child 3 1) () =
     Some (Ret (ZOK, (client_mutex 3)\<lparr>m_ownerid := Str (lock_child 5 0)\<rparr>, ()))"
proof -
  have "unat (3 :: 64 word) < unat (5 :: 64 word)" "(0 :: nat) < 1" "(1 :: nat) < seq_max" by simp_all
  moreover have "retry_getchildren pair_api (m_zh (client_mutex 3)) ''/l'' 3 () =
      ((ZOK, [lock_child 5 0, lock_child 3 1]), ())"
    "retry_zoowexists pair_api (m_zh (client_mutex 3)) (child_path ''/l'' (lock_child 3 1)) LockWatcher 3 () =
      ((ZOK, no_stat), ())"
    by (simp_all add: retry_getchildren_def retry_zoowexists_def pair_api_def numeral_3_eq_3)
  ultimately show ?thesis by (rule waiter_without_watch [THEN conjunct1])
qed

text \<open>
  If the predecessor can not be watched, for instance because it was deleted between the
  listing and the watch, the operation calls \<open>zkr_lock_unlock\<close> while \<open>zkr_lock_lock\<close> holds
  the pthread mutex, and never returns from it.
\<close>

theorem failed_watch_deadlocks:
  assumes "m_pmutex m = PLocked"
    and "retry_getchildren api (m_zh m) path 3 w = ((ZOK, kids), w1)"
    and "sort_children kids = Ret (owner # rest)" and "child_floor (owner # rest) ident = Some pred"
    and "retry_zoowexists api (m_zh m) (child_path path pred) LockWatcher 3 w1 = ((ret, st), w2)"
    and "ret \<noteq> ZOK"
  shows "lock_decide api m path ident w = Some (Fault Deadlock)"
  using assms by (simp add: lock_decide_def Let_def unlock_until_error_held)

definition racing_api :: "unit zk_api" where
  "racing_api = idle_api\<lparr>
     zoo_get_children := (\<lambda>zh p wt w. ((ZOK, [lock_child 1 0, lock_child 2 1]), w)),
     zoo_wexists := (\<lambda>zh p wt w. ((ZNONODE, no_stat), w))\<rparr>"

theorem failed_watch_deadlocks_witness:
  "lock_decide racing_api ((client_mutex 2)\<lparr>m_pmutex := PLocked\<rparr>) ''/l'' (lock_child 2 1) () =
     Some (Fault Deadlock)"
proof -
  let ?m = "(client_mutex 2)\<lparr>m_pmutex := PLocked\<rparr>"
  have less: "lock_child 1 0 < lock_child 2 1" by (rule lock_child_less_prefix) simp
  show ?thesis
  proof (rule failed_watch_deadlocks)
    show "m_pmutex ?m = PLocked" by simp
    show "retry_getchildren racing_api (m_zh ?m) ''/l'' 3 () = ((ZOK, [lock_child 1 0, lock_child 2 1]), ())"
      by (simp add: retry_getchildren_def racing_api_def numeral_3_eq_3)
    show "sort_children [lock_child 1 0, lock_child 2 1] = Ret (lock_child 1 0 # [lock_child 2 1])"
      by (rule sort_two) simp_all
    show "child_floor (lock_child 1 0 # [lock_child 2 1]) (lock_child 2 1) = Some (lock_child 1 0)"
      using less by (simp add: child_floor_eq)
    show "retry_zoowexists racing_api (m_zh ?m) (child_path ''/l'' (lock_child 1 0)) LockWatcher 3 () =
        ((ZNONODE, no_stat), ())"
      by (simp add: retry_zoowexists_def racing_api_def numeral_3_eq_3)
  qed simp
qed

section \<open>Finding and creating the own child\<close>

text \<open>
  The name of a created child survives the buffers of \<open>zkr_lock_operation\<close>: the prefix is 19
  bytes and fits its 30, the requested path fits its buffer, and the 20 extra bytes for the answer
  hold the counter, so that \<open>getName\<close> gives back the full name of the new child.
\<close>

theorem created_name_is_read_back:
  assumes "n < seq_max"
  shows "length (lock_prefix s) = 19 \<and>
    snprintf (length path + length (lock_prefix s) + 2) (child_path path (lock_prefix s)) =
      child_path path (lock_prefix s) \<and>
    getName (snprintf (length path + length (lock_prefix s) + 2 + 20) (child_path path (lock_child s n))) =
      Str (lock_child s n)"
  using assms snprintf_lock_buf [of path s] snprintf_retbuf [of n path s]
  by (simp add: getName_child_path lock_child_no_slash add.commute)

theorem created_name_is_read_back_witness:
  "getName (snprintf (2 + 19 + 2 + 20) (child_path ''/l'' (lock_child 7 42))) = Str (lock_child 7 42)"
  using created_name_is_read_back [of 42 7 "''/l''"] by simp

text \<open>
  Looking for the own child among lock children finds exactly a child of the own session:
  the result is a listed child with that session's prefix, and it is the null pointer exactly
  when no child of the session is listed.
\<close>

theorem lookupnode_finds_own_child:
  "(\<forall>c. lookupnode (lock_names ps) (lock_prefix s) = Some c \<longrightarrow> (\<exists>n. (s, n) \<in> set ps \<and> c = lock_child s n)) \<and>
   (lookupnode (lock_names ps) (lock_prefix s) = None \<longleftrightarrow> s \<notin> fst ` set ps)"
proof (intro conjI allI impI)
  fix c assume "lookupnode (lock_names ps) (lock_prefix s) = Some c"
  then have "c \<in> set (lock_names ps)" "take 19 c = lock_prefix s"
    using lookupnode_SomeD [of "lock_names ps" "lock_prefix s" c] by auto
  then show "\<exists>n. (s, n) \<in> set ps \<and> c = lock_child s n" by (auto simp: lock_names_def)
next
  show "lookupnode (lock_names ps) (lock_prefix s) = None \<longleftrightarrow> s \<notin> fst ` set ps"
    by (auto simp: lookupnode_None lock_names_def image_iff)
qed

theorem lookupnode_finds_own_child_witness:
  "\<exists>n. (3 :: 64 word, n) \<in> set [(7, 12), (3, 9 :: nat)] \<and> lock_child 3 9 = lock_child (3 :: 64 word) n"
proof -
  have "lookupnode (lock_names [(7, 12), (3, 9)]) (lock_prefix 3) = Some (lock_child 3 9)"
    by (simp add: lock_names_def strncmp_def)
  then show ?thesis using lookupnode_finds_own_child [of "[(7, 12), (3, 9)]" 3] by blast
qed

end
