(* ===== verification/Class_Properties.thy ===== *)
theory Class_Properties
  imports Request Lock_Properties
begin

text \<open>
  The properties of the PHP class: the life of the callback records, the conversions, and what the
  methods return. The table \<open>list_hash\<close> and the library instances built on \<open>idle_api\<close>
  serve the witnesses only.
\<close>

section \<open>A concrete table\<close>

type_synonym list_table = "(nat \<times> nat) list \<times> nat"

definition list_hash :: "list_table hash_api" where
  "list_hash = \<lparr>hash_init = ([], 0), hash_num_elements = (\<lambda>t. length (fst t)),
     hash_next_index_insert = (\<lambda>a t. (fst t @ [(snd t, a)], Suc (snd t))),
     hash_index_del = (\<lambda>i t. (map_of (fst t) i, (filter (\<lambda>e. fst e \<noteq> i) (fst t), snd t))),
     hash_clean = (\<lambda>t. (map snd (fst t), ([], 0))), hash_destroy = (\<lambda>t. map snd (fst t))\<rparr>"

definition list_view :: "list_table hash_view" where
  "list_view = \<lparr>entries = fst, next_free = snd\<rparr>"

lemma list_hash_laws: "hash_laws list_hash list_view"
  by (simp add: hash_laws_def list_hash_def list_view_def)

definition sim_conn :: "(unit, list_table) zk_state" where
  "sim_conn = (request_start list_hash ())\<lparr>z_objs := [0 \<mapsto> \<lparr>o_zk = Some 3, o_cb_data = None\<rparr>], z_next_obj := 1\<rparr>"

lemma sim_conn_simps [simp]:
  "z_objs sim_conn 0 = Some \<lparr>o_zk = Some 3, o_cb_data = None\<rparr>" "z_world sim_conn = ()"
  "z_table sim_conn = ([], 0)" "z_fresh sim_conn = 0" "z_cbs sim_conn a = None"
  by (simp_all add: sim_conn_def request_start_def list_hash_def)

lemma sim_conn_ok: "table_ok list_view sim_conn"
  by (simp add: table_ok_def indices_ok_def list_view_def)

section \<open>The life of a callback record\<close>

text \<open>
  C7: in every request, in whatever order objects are made and destroyed, methods are called and
  events are delivered, as long as no watched call fails, the shutdown releases every callback
  record exactly once: it never faults, no record survives it and the table is empty.
\<close>

theorem request_cleanup:
  assumes "hash_laws H V" and "zk_run H api (request_start H w) st"
  shows "\<exists>st'. rshutdown_zookeeper H st = Ret st' \<and> (\<forall>a. z_cbs st' a = None) \<and> entries V (z_table st') = []"
proof -
  have "table_ok V st" by (rule zk_run_ok [OF assms(2,1) request_start_ok [OF assms(1)]])
  from rshutdown_ok [OF assms(1) this] show ?thesis by auto
qed

lemma sim_run:
  "zk_run list_hash idle_api (request_start list_hash ())
     (snd (php_cb_data_new list_hash 9 False sim_conn)\<lparr>z_objs := [0 \<mapsto> \<lparr>o_zk = Some 0, o_cb_data = Some 0\<rparr>]\<rparr>)"
proof -
  let ?st = "snd (php_zk_new (request_start list_hash ()))"
  have "zk_run list_hash idle_api (request_start list_hash ()) ?st"
    by (rule run_new [OF run_refl])
  moreover have "php_zookeeper_connect_impl list_hash idle_api 0 ''h:2181'' (Some 9) 10000 ?st =
      returns ZNull (snd (php_cb_data_new list_hash 9 False sim_conn)\<lparr>z_objs := [0 \<mapsto> \<lparr>o_zk = Some 0, o_cb_data = Some 0\<rparr>]\<rparr>)"
    by (simp add: php_zookeeper_connect_impl_def php_zk_new_def request_start_def new_callback_def sim_conn_def
        php_cb_data_new_def Let_def)
  ultimately show ?thesis by (auto simp: returns_def intro: run_connect)
qed

theorem request_cleanup_witness:
  "\<exists>st'. rshutdown_zookeeper list_hash
     (snd (php_cb_data_new list_hash 9 False sim_conn)\<lparr>z_objs := [0 \<mapsto> \<lparr>o_zk = Some 0, o_cb_data = Some 0\<rparr>]\<rparr>) =
     Ret st' \<and> (\<forall>a. z_cbs st' a = None)"
  using request_cleanup [OF list_hash_laws sim_run] by blast

lemma new_callback_Some:
  assumes "hash_laws H V" "table_ok V st" "new_callback H (Some f) o1 st = (cb, st1)"
  shows "\<exists>i cbd. cb = Some (z_fresh st) \<and> (i, z_fresh st) \<in> set (entries V (z_table st1)) \<and>
    z_cbs st1 (z_fresh st) = Some cbd \<and> z_objs st1 = z_objs st \<and> z_world st1 = z_world st"
proof -
  from assms(3) have new: "php_cb_data_new H f o1 st = (z_fresh st, st1)" and cb: "cb = Some (z_fresh st)"
    by (auto simp: new_callback_def php_cb_data_new_def Let_def split: prod.splits)
  from new have "entries V (z_table st1) = entries V (z_table st) @ [(next_free V (z_table st), z_fresh st)]"
    "z_cbs st1 (z_fresh st) \<noteq> None" "z_objs st1 = z_objs st" "z_world st1 = z_world st"
    by (auto simp: php_cb_data_new_def Let_def hash_lawsD [OF assms(1)])
  with cb show ?thesis by auto
qed

lemma failed_watch_dead:
  assumes laws: "hash_laws H V" and "(i, a) \<in> set (entries V (z_table st))" "z_cbs st a = Some cbd"
  shows "\<exists>r st'. failed_watch status v (Some a) st = Ret (r, st') \<and> r_warnings r = [ZError status] \<and>
    rshutdown_zookeeper H st' = Fault DoubleFree"
proof -
  let ?st = "st\<lparr>z_cbs := (z_cbs st)(a := None)\<rparr>"
  have "failed_watch status v (Some a) st = warns (ZError status) v ?st"
    using assms(3) by (simp add: failed_watch_def php_cb_data_destroy_def)
  moreover have "rshutdown_zookeeper H ?st = Fault DoubleFree"
    by (rule rshutdown_double_free [OF laws, of i a]) (use assms(2) in simp_all)
  ultimately show ?thesis by (simp add: warns_def)
qed

text \<open>
  C25: a watched call that fails releases the callback record but leaves it in the table, so the
  shutdown of the request releases it a second time. This holds of \<open>exists\<close>, for every error but
  \<open>ZNONODE\<close>, which it takes for an answer, and of \<open>getChildren\<close>, for every error: each method
  warns with the status of its own call, and the shutdown hook after it is a double free.
\<close>

theorem failed_watch_double_free:
  assumes laws: "hash_laws H V" and ok: "table_ok V st"
    and obj: "z_objs st this = Some i_obj" "o_zk i_obj = Some zh"
  defines "w \<equiv> Some (PhpWatcher (z_fresh st))"
  shows "(\<forall>e stat w1. zoo_wexists api zh (c_str path) w (z_world st) = ((e, stat), w1) \<and> e \<noteq> ZOK \<and> e \<noteq> ZNONODE \<longrightarrow>
      (\<exists>r st'. zookeeper_exists H api this (Some (path, Some f)) st = Ret (r, st') \<and>
        r_warnings r = [ZError e] \<and> rshutdown_zookeeper H st' = Fault DoubleFree)) \<and>
    (\<forall>e kids w1. zoo_wget_children api zh (c_str path) w (z_world st) = ((e, kids), w1) \<and> e \<noteq> ZOK \<longrightarrow>
      (\<exists>r st'. zookeeper_getChildren H api this (Some (path, Some f)) st = Ret (r, st') \<and>
        r_warnings r = [ZError e] \<and> rshutdown_zookeeper H st' = Fault DoubleFree))"
proof -
  obtain cb st1 where new: "new_callback H (Some f) True st = (cb, st1)" by fastforce
  from new_callback_Some [OF laws ok new] obtain i cbd where cb: "cb = Some (z_fresh st)"
    and st1: "(i, z_fresh st) \<in> set (entries V (z_table st1))" "z_cbs st1 (z_fresh st) = Some cbd"
      "z_objs st1 = z_objs st" "z_world st1 = z_world st" by blast
  have dead: "\<exists>r st'. failed_watch status v (Some (z_fresh st)) (st1\<lparr>z_world := x\<rparr>) = Ret (r, st') \<and>
      r_warnings r = [ZError status] \<and> rshutdown_zookeeper H st' = Fault DoubleFree" for status v x
    by (rule failed_watch_dead [OF laws, of i _ _ cbd]) (use st1 in simp_all)
  have "zookeeper_exists H api this (Some (path, Some f)) st = failed_watch e ZNull cb (st1\<lparr>z_world := w1\<rparr>)"
    if "zoo_wexists api zh (c_str path) w (z_world st) = ((e, stat), w1) \<and> e \<noteq> ZOK \<and> e \<noteq> ZNONODE" for e stat w1
    using that obj new cb st1(4) by (simp add: w_def zookeeper_exists_def guard_defs)
  moreover have "zookeeper_getChildren H api this (Some (path, Some f)) st = failed_watch e ZNull cb (st1\<lparr>z_world := w1\<rparr>)"
    if "zoo_wget_children api zh (c_str path) w (z_world st) = ((e, kids), w1) \<and> e \<noteq> ZOK" for e kids w1
    using that obj new cb st1(4) by (simp add: w_def zookeeper_getChildren_def guard_defs)
  ultimately show ?thesis using dead unfolding cb by metis
qed

definition failing_api :: "unit zk_api" where
  "failing_api = idle_api\<lparr>zoo_wexists := (\<lambda>zh p wt w. ((ZCONNECTIONLOSS, no_stat), w)),
     zoo_wget_children := (\<lambda>zh p wt w. ((ZNONODE, []), w))\<rparr>"

text \<open>On a node that is not there, where \<open>exists\<close> would answer \<open>ZNONODE\<close>, and on a lost connection.\<close>

theorem failed_watch_double_free_witness:
  "(\<exists>r st'. zookeeper_getChildren list_hash failing_api 0 (Some (''/gone'', Some 9)) sim_conn = Ret (r, st') \<and>
     r_warnings r = [ZError ZNONODE] \<and> rshutdown_zookeeper list_hash st' = Fault DoubleFree) \<and>
   (\<exists>r st'. zookeeper_exists list_hash failing_api 0 (Some (''/gone'', Some 9)) sim_conn = Ret (r, st') \<and>
     r_warnings r = [ZError ZCONNECTIONLOSS] \<and> rshutdown_zookeeper list_hash st' = Fault DoubleFree)"
  using failed_watch_double_free [OF list_hash_laws sim_conn_ok, of 0 "\<lparr>o_zk = Some 3, o_cb_data = None\<rparr>" 3 failing_api
      "''/gone''" 9]
  by (simp add: failing_api_def)

text \<open>
  While nothing was ever deleted from the table (its indices are 0 to \<open>n - 1\<close>), a one-shot
  watcher works as meant: the event calls the PHP function once with type, state and path, then
  the record is removed from the table and released and every other record stays; a second
  delivery would use a released record.
\<close>

theorem oneshot_watcher_runs_once:
  assumes laws: "hash_laws H V" and ok: "table_ok V st"
    and dense: "next_free V (z_table st) = length (entries V (z_table st))" "length (entries V (z_table st)) < 2 ^ 64"
    and new: "php_cb_data_new H f True st = (a, st1)"
    and call: "call f [ZLong ty, ZLong state, ZString path] st1 = (res, st1\<lparr>z_world := w\<rparr>)" "res \<noteq> CallThrew"
  shows "\<exists>st2. php_zk_watcher_marshal H call ty state path (Some a) st1 = Ret (res = CallReturned, st2) \<and>
    z_cbs st2 = z_cbs st \<and> entries V (z_table st2) = entries V (z_table st) \<and> z_world st2 = w \<and>
    php_zk_watcher_marshal H call ty state path (Some a) st2 = Fault UseAfterFree"
proof -
  let ?E = "entries V (z_table st)" and ?st = "st1\<lparr>z_world := w\<rparr>"
  have a: "a = z_fresh st" and ok1: "table_ok V st1" using cb_data_new_ok [OF laws ok new] by simp_all
  from cb_data_new_index(2) [OF laws new dense(2)] obtain cb where cb: "z_cbs st1 a = Some cb" "cb_fci cb = f"
    "cb_oneshot cb" "cb_h cb = length ?E" by auto
  have E1: "entries V (z_table st1) = ?E @ [(length ?E, a)]" "z_cbs st1 = (z_cbs st)(a := z_cbs st1 a)"
    using new dense by (auto simp: php_cb_data_new_def Let_def hash_lawsD [OF laws])
  have old: "\<forall>e\<in>set ?E. fst e < length ?E"
    using table_ok_parts(1) [OF ok] dense by (auto simp: indices_ok_def)
  then have "map_of ?E (length ?E) = None" by (metis image_iff less_irrefl map_of_eq_None_iff)
  then have found: "map_of (entries V (z_table ?st)) (cb_h cb) = Some a"
    using E1(1) cb by (simp add: map_add_def)
  have rest: "filter (\<lambda>e. fst e \<noteq> cb_h cb) (entries V (z_table ?st)) = ?E"
    using E1(1) cb old by (auto simp: filter_id_conv)
  have none: "z_cbs st a = None" using table_ok_parts(4) [OF ok] a by auto
  have "table_ok V ?st" using ok1 by simp
  from callbacks_del_cases [OF laws this, of "cb_h cb"] obtain st2 where
    st2: "callbacks_del H (cb_h cb) ?st = Ret st2" "z_cbs st2 = (z_cbs st1)(a := None)"
      "entries V (z_table st2) = ?E" "z_world st2 = w" using found rest by auto
  moreover have "(z_cbs st1)(a := None) = z_cbs st" using E1(2) none by (metis fun_upd_triv fun_upd_upd)
  ultimately show ?thesis
    using cb call none by (simp add: php_zk_watcher_marshal_def run_callback_def)
qed

theorem oneshot_watcher_runs_once_witness:
  "\<exists>st2. php_zk_watcher_marshal list_hash (\<lambda>_ _ st. (CallReturned, st)) 3 3 ''/a'' (Some 0)
     (snd (php_cb_data_new list_hash 9 True sim_conn)) = Ret (True, st2) \<and> z_cbs st2 = z_cbs sim_conn"
proof -
  let ?new = "php_cb_data_new list_hash 9 True sim_conn"
  have "?new = (0, snd ?new)" by (simp add: php_cb_data_new_def Let_def)
  then show ?thesis
    using oneshot_watcher_runs_once [OF list_hash_laws sim_conn_ok, of 9 0 "snd ?new" "\<lambda>_ _ st. (CallReturned, st)" 3 3 "''/a''"
        CallReturned "()"]
    by (auto simp: list_view_def)
qed

text \<open>
  C23: the index a record stores is the number of entries before it, not its index in the table.
  Once an entry was deleted the two differ, and a one-shot event removes and releases whatever
  record has that index, while the event's own record stays in the table; the other record's next
  event uses released memory.
\<close>

theorem wrong_record_released:
  assumes laws: "hash_laws H V" and ok: "table_ok V st"
    and other: "map_of (entries V (z_table st)) (length (entries V (z_table st))) = Some b"
      "length (entries V (z_table st)) < 2 ^ 64"
    and new: "php_cb_data_new H f True st = (a, st1)"
    and call: "call f [ZLong ty, ZLong state, ZString path] st1 = (res, st1)" "res \<noteq> CallThrew"
  shows "\<exists>st2. php_zk_watcher_marshal H call ty state path (Some a) st1 = Ret (res = CallReturned, st2) \<and>
    b \<noteq> a \<and> z_cbs st b \<noteq> None \<and> z_cbs st2 b = None \<and> z_cbs st2 a \<noteq> None \<and>
    (\<forall>ty' state' path'. php_zk_watcher_marshal H call ty' state' path' (Some b) st2 = Fault UseAfterFree)"
proof -
  let ?E = "entries V (z_table st)"
  have a: "a = z_fresh st" and ok1: "table_ok V st1" using cb_data_new_ok [OF laws ok new] by simp_all
  from cb_data_new_index(2) [OF laws new other(2)] obtain cb where cb: "z_cbs st1 a = Some cb" "cb_fci cb = f"
    "cb_oneshot cb" "cb_h cb = length ?E" by auto
  have b: "(length ?E, b) \<in> set ?E" using other(1) by (rule map_of_SomeD)
  then have live: "z_cbs st b \<noteq> None" using table_okD [OF ok] by blast
  then have ba: "b \<noteq> a" using table_ok_parts(4) [OF ok] a by auto
  have E1: "entries V (z_table st1) = ?E @ [(next_free V (z_table st), a)]"
    using new by (auto simp: php_cb_data_new_def Let_def hash_lawsD [OF laws])
  have "next_free V (z_table st) \<noteq> length ?E"
    using table_ok_parts(1) [OF ok] b by (auto simp: indices_ok_def)
  then have "map_of (entries V (z_table st1)) (cb_h cb) = Some b"
    using E1 cb other(1) by (simp add: map_add_def)
  with callbacks_del_cases [OF laws ok1, of "cb_h cb"] obtain st2 where
    "callbacks_del H (cb_h cb) st1 = Ret st2" "z_cbs st2 = (z_cbs st1)(b := None)" by auto
  then show ?thesis using cb call live ba by (simp add: php_zk_watcher_marshal_def run_callback_def)
qed

text \<open>Two records were made and the first one was removed.\<close>

definition sim_gap :: "(unit, list_table) zk_state" where
  "sim_gap = sim_conn\<lparr>z_cbs := [1 \<mapsto> \<lparr>cb_fci = 8, cb_oneshot = True, cb_h = 1\<rparr>], z_fresh := 2, z_table := ([(1, 1)], 2)\<rparr>"

lemma sim_gap_ok: "table_ok list_view sim_gap"
  by (auto simp: table_ok_def indices_ok_def list_view_def sim_gap_def split: if_splits)

theorem wrong_record_released_witness:
  "\<exists>st2. php_zk_watcher_marshal list_hash (\<lambda>_ _ st. (CallReturned, st)) 3 3 ''/c'' (Some 2)
     (snd (php_cb_data_new list_hash 9 True sim_gap)) = Ret (True, st2) \<and> z_cbs st2 1 = None"
proof -
  let ?new = "php_cb_data_new list_hash 9 True sim_gap"
  have "?new = (2, snd ?new)" by (simp add: php_cb_data_new_def Let_def sim_gap_def)
  then show ?thesis
    using wrong_record_released [OF list_hash_laws sim_gap_ok, of 1 9 2 "snd ?new" "\<lambda>_ _ st. (CallReturned, st)" 3 3 "''/c''"
        CallReturned]
    by (auto simp: list_view_def sim_gap_def)
qed

section \<open>The session watcher\<close>

text \<open>
  The library hands the context given to \<open>zookeeper_init\<close> to the session watcher of a handle;
  \<open>zoo_set_watcher\<close> replaces the function and keeps the context.
\<close>

definition context_laws :: "'w zk_api \<Rightarrow> ('w \<Rightarrow> zhandle \<Rightarrow> nat option) \<Rightarrow> bool" where
  "context_laws api ctx \<longleftrightarrow>
     (\<forall>h a t w zh w'. zookeeper_init api h (Some (PhpWatcher a)) t w = (Some zh, w') \<longrightarrow> ctx w' zh = Some a) \<and>
     (\<forall>h t w zh w'. zookeeper_init api h None t w = (Some zh, w') \<longrightarrow> ctx w' zh = None) \<and>
     (\<forall>zh w zh'. ctx (zoo_set_watcher api zh w) zh' = ctx w zh')"

lemma setWatcher_connected:
  assumes laws: "hash_laws H V" and ok: "table_ok V st"
    and obj: "z_objs st this = Some \<lparr>o_zk = Some zh, o_cb_data = cb\<rparr>"
    and rec: "\<And>a. cb = Some a \<Longrightarrow> z_cbs st a = Some \<lparr>cb_fci = f, cb_oneshot = False, cb_h = i\<rparr> \<and>
      map_of (entries V (z_table st)) i = Some a"
  shows "\<exists>r st'. zookeeper_setWatcher H api this (Some g) st = Ret (r, st') \<and>
    z_world st' = zoo_set_watcher api zh (z_world st) \<and> (\<forall>a. cb = Some a \<longrightarrow> z_cbs st' a = None) \<and>
    r_value r = ZBool True \<and> (\<exists>b rec. z_objs st' this = Some \<lparr>o_zk = Some zh, o_cb_data = Some b\<rparr> \<and>
      z_cbs st' b = Some rec \<and> cb_fci rec = g)"
proof (cases cb)
  case None
  then show ?thesis using obj
    by (simp add: zookeeper_setWatcher_def guard_defs drop_object_callback_def php_cb_data_new_def Let_def returns_def)
next
  case (Some a)
  with rec have a: "z_cbs st a = Some \<lparr>cb_fci = f, cb_oneshot = False, cb_h = i\<rparr>"
    "map_of (entries V (z_table st)) i = Some a" by auto
  with callbacks_del_cases [OF laws ok, of i] obtain st1 where st1: "callbacks_del H i st = Ret st1"
    "z_world st1 = z_world st" "z_cbs st1 = (z_cbs st)(a := None)" "z_objs st1 = z_objs st" "z_fresh st1 = z_fresh st"
    by auto
  have "a < z_fresh st" using table_ok_parts(4) [OF ok] a by auto
  then show ?thesis using Some a obj st1
    by (simp add: zookeeper_setWatcher_def guard_defs drop_object_callback_def php_cb_data_new_def Let_def returns_def)
qed

text \<open>
  C29: \<open>setWatcher\<close> does not install its watcher. In a table from which nothing was deleted so far: after
  \<open>connect\<close> and \<open>setWatcher\<close> on an object, the object has the record of the new watcher, but the next session event of the
  object's handle comes with the context of \<open>connect\<close>. If \<open>connect\<close> was given a watcher, \<open>setWatcher\<close> has released that
  record and the event uses it after the release; if it was not, the event reads a null pointer.
\<close>

theorem set_watcher_is_not_called:
  assumes laws: "hash_laws H V" "context_laws api ctx" and ok: "table_ok V st"
    and dense: "next_free V (z_table st) = length (entries V (z_table st))" "length (entries V (z_table st)) < 2 ^ 64"
    and obj: "z_objs st this = Some i_obj" and "0 < timeout"
    and connect: "php_zookeeper_connect_impl H api this host fci timeout st = Ret (r1, st1)"
  shows "\<exists>zh cb r2 st2 b rec. z_objs st1 this = Some \<lparr>o_zk = Some zh, o_cb_data = cb\<rparr> \<and>
    zookeeper_setWatcher H api this (Some g) st1 = Ret (r2, st2) \<and> r_value r2 = ZBool True \<and>
    z_objs st2 this = Some \<lparr>o_zk = Some zh, o_cb_data = Some b\<rparr> \<and> z_cbs st2 b = Some rec \<and> cb_fci rec = g \<and>
    php_zk_watcher_marshal H call ty state path (ctx (z_world st2) zh) st2 =
      Fault (if fci = None then NullDeref else UseAfterFree)"
proof -
  let ?E = "entries V (z_table st)"
  obtain cb st0 where new: "new_callback H fci False st = (cb, st0)" by fastforce
  obtain zk w1 where init: "zookeeper_init api (c_str host) (php_watch cb) (to_int32 timeout) (z_world st0) = (zk, w1)"
    by fastforce
  with connect obj new assms(7) obtain zh where zh: "zk = Some zh"
    "st1 = st0\<lparr>z_world := w1, z_objs := (z_objs st0)(this \<mapsto> i_obj\<lparr>o_zk := Some zh, o_cb_data := cb\<rparr>)\<rparr>"
    by (auto simp: php_zookeeper_connect_impl_def returns_def split: option.splits)
  have ok1: "table_ok V st1" using new_callback_ok [OF laws(1) ok new] zh(2) by simp
  have ctx: "ctx w1 zh = cb"
    using laws(2) init zh(1) by (cases cb) (auto simp: context_laws_def)
  have obj1: "z_objs st1 this = Some \<lparr>o_zk = Some zh, o_cb_data = cb\<rparr>" using zh(2) by (cases i_obj) simp
  moreover have "z_cbs st1 a = Some \<lparr>cb_fci = the fci, cb_oneshot = False, cb_h = length ?E\<rparr> \<and>
      map_of (entries V (z_table st1)) (length ?E) = Some a" if "cb = Some a" for a
  proof -
    from that new obtain f where f: "fci = Some f" "php_cb_data_new H f False st = (a, st0)"
      by (auto simp: new_callback_def split: option.splits prod.splits)
    from cb_data_new_index [OF laws(1) f(2) dense(2)] dense(1) have "(length ?E, a) \<in> set (entries V (z_table st1))"
      "z_cbs st1 a = Some \<lparr>cb_fci = the fci, cb_oneshot = False, cb_h = length ?E\<rparr>"
      using zh(2) f(1) by auto
    moreover have "distinct (map fst (entries V (z_table st1)))"
      using table_ok_parts(1) [OF ok1] by (simp add: indices_ok_def)
    ultimately show ?thesis by simp
  qed
  ultimately obtain r2 st2 b rec where st2: "zookeeper_setWatcher H api this (Some g) st1 = Ret (r2, st2)"
    "z_world st2 = zoo_set_watcher api zh (z_world st1)" "\<forall>a. cb = Some a \<longrightarrow> z_cbs st2 a = None"
    "r_value r2 = ZBool True" "z_objs st2 this = Some \<lparr>o_zk = Some zh, o_cb_data = Some b\<rparr>"
    "z_cbs st2 b = Some rec" "cb_fci rec = g"
    using setWatcher_connected [OF laws(1) ok1, of this zh cb "the fci" "length ?E" api g] by blast
  have "ctx (z_world st2) zh = cb" using st2(2) zh(2) ctx laws(2) by (simp add: context_laws_def)
  moreover have "cb = None \<longleftrightarrow> fci = None"
    using new by (auto simp: new_callback_def split: option.splits prod.splits)
  ultimately show ?thesis
    using st2 obj1 by (intro exI [of _ zh] exI [of _ cb] exI [of _ r2] exI [of _ st2] exI [of _ b] exI [of _ rec])
      (cases cb; simp add: php_zk_watcher_marshal_def run_callback_def)
qed

definition ctx_api :: "nat option zk_api" where
  "ctx_api = idle_api\<lparr>zookeeper_init := (\<lambda>h wt t w. (Some 0, case wt of Some (PhpWatcher a) \<Rightarrow> Some a | _ \<Rightarrow> None))\<rparr>"

lemma ctx_api_laws: "context_laws ctx_api (\<lambda>w zh. w)"
  by (simp add: context_laws_def ctx_api_def)

definition fresh_obj :: "(nat option, list_table) zk_state" where
  "fresh_obj = snd (php_zk_new (request_start list_hash None))"

theorem set_watcher_is_not_called_witness:
  "\<exists>st1 r2 st2. php_zookeeper_connect_impl list_hash ctx_api 0 ''h'' (Some 7) 10 fresh_obj = returns ZNull st1 \<and>
     zookeeper_setWatcher list_hash ctx_api 0 (Some 8) st1 = Ret (r2, st2) \<and>
     php_zk_watcher_marshal list_hash (\<lambda>_ _ st. (CallReturned, st)) (-1) 3 '''' (z_world st2) st2 = Fault UseAfterFree"
proof -
  have ok: "table_ok list_view fresh_obj" "z_table fresh_obj = ([], 0)"
    "z_objs fresh_obj 0 = Some \<lparr>o_zk = None, o_cb_data = None\<rparr>"
    by (simp_all add: fresh_obj_def php_zk_new_def request_start_def list_hash_def table_ok_def indices_ok_def
        list_view_def)
  obtain st1 where st1: "php_zookeeper_connect_impl list_hash ctx_api 0 ''h'' (Some 7) 10 fresh_obj = returns ZNull st1"
    using ok(3) by (auto simp: php_zookeeper_connect_impl_def ctx_api_def split_beta)
  then have "php_zookeeper_connect_impl list_hash ctx_api 0 ''h'' (Some 7) 10 fresh_obj =
      Ret (\<lparr>r_value = ZNull, r_stat = None, r_warnings = []\<rparr>, st1)" by (simp add: returns_def)
  from set_watcher_is_not_called [OF list_hash_laws ctx_api_laws ok(1) _ _ ok(3) _ this, of 8
      "\<lambda>_ _ st. (CallReturned, st)" "-1" 3 "''''"] ok(2) st1
  show ?thesis by (simp add: list_view_def) blast
qed

section \<open>ACLs and stats\<close>

text \<open>
  C18: the array \<open>getAcl\<close> builds from an ACL list is read back by \<open>setAcl\<close> as the same list:
  order, permissions, schemes and ids survive, for 32-bit permissions and strings without a null
  byte. Different such lists have different arrays.
\<close>

theorem acl_roundtrip:
  assumes "conv_laws C" and "\<And>e. e \<in> set es \<Longrightarrow> acl_entry_ok e" and "es \<noteq> []"
  shows "read_aclv (php_parse_acl_list C (Some (php_aclv_to_array es)) None) = Ret es \<and>
    inj_on php_aclv_to_array {es. \<forall>e\<in>set es. acl_entry_ok e}"
proof (rule conjI [OF _ acl.enc_inj])
  have "length (php_aclv_to_array es) \<noteq> 0" using assms(3) by simp
  then show "read_aclv (php_parse_acl_list C (Some (php_aclv_to_array es)) None) = Ret es"
    using parse_to_array [OF assms(1), of es] assms(2) by (simp add: php_parse_acl_list_def read_aclv_def read_cells_of)
qed

definition sim_acl :: acl_vector where
  "sim_acl = [\<lparr>acl_perms = 31, acl_scheme = ''world'', acl_ident = ''anyone''\<rparr>,
     \<lparr>acl_perms = -1, acl_scheme = ''digest'', acl_ident = ''u:p''\<rparr>]"

theorem acl_roundtrip_witness:
  "read_aclv (php_parse_acl_list plain_conv (Some (php_aclv_to_array sim_acl)) None) = Ret sim_acl"
  by (rule acl_roundtrip [OF plain_conv_laws, THEN conjunct1]) (auto simp: sim_acl_def acl_entry_ok_def)

text \<open>
  Whatever array PHP passes, the loop never writes past the cells that \<open>calloc\<close> gave it,
  every filled cell has 32-bit permissions and two allocated strings, so the library can read the
  vector and \<open>php_aclv_destroy\<close> releases each string once.
\<close>

theorem parse_acl_is_safe:
  assumes "arr \<noteq> []"
  shows "\<exists>cells. php_parse_acl_list C (Some arr) aclv = Some cells \<and> length cells \<le> length arr \<and>
    (\<forall>c\<in>set cells. - (2 ^ 31) \<le> a_perms c \<and> a_perms c < 2 ^ 31) \<and>
    (\<exists>es. read_aclv (Some cells) = Ret es \<and> length es = length cells) \<and>
    php_aclv_destroy (Some cells) = Ret (Some (map (\<lambda>c. c\<lparr>a_id := Freed, a_scheme := Freed\<rparr>) cells))"
proof -
  let ?cells = "parse_acl_loop C arr []"
  have "\<forall>c\<in>set ?cells. - (2 ^ 31) \<le> a_perms c \<and> a_perms c < 2 ^ 31"
    using parse_acl_cells [of _ C arr "[]"] by fastforce
  then show ?thesis
    using assms parse_acl_loop_bound [of C arr] read_acl_cells_Ret [OF parse_acl_strings, of C arr]
      free_acl_cells_Ret [OF parse_acl_strings, of C arr]
    by (simp add: php_parse_acl_list_def read_aclv_def php_aclv_destroy_def)
qed

theorem parse_acl_is_safe_witness:
  "\<exists>cells. php_parse_acl_list plain_conv (Some [(KInt 0, ZLong 5), (KInt 1, ZArray [])]) None = Some cells \<and>
     php_aclv_destroy (Some cells) = Ret (Some (map (\<lambda>c. c\<lparr>a_id := Freed, a_scheme := Freed\<rparr>) cells))"
  using parse_acl_is_safe [of "[(KInt 0, ZLong 5), (KInt 1, ZArray [])]" plain_conv None] by blast

text \<open>
  \<open>setAcl\<close> with an empty array hands an uninitialised vector to the library; with any
  other array it reaches the library with exactly the parsed entries, and returns true exactly on
  \<open>ZOK\<close>.
\<close>

theorem set_acl_behaviour:
  assumes obj: "z_objs st this = Some i_obj" "o_zk i_obj = Some zh"
  shows "zookeeper_setAcl C api this (Some (path, version, [])) st = Fault UninitRead \<and>
    (acl \<noteq> [] \<longrightarrow> (\<exists>es. read_acl_cells (parse_acl_loop C acl []) = Ret es \<and>
      (let (status, w1) = zoo_set_acl api zh (c_str path) (to_int32 version) es (z_world st) in
       zookeeper_setAcl C api this (Some (path, version, acl)) st =
         (if status = ZOK then returns (ZBool True) (st\<lparr>z_world := w1\<rparr>)
          else warns (ZError status) ZNull (st\<lparr>z_world := w1\<rparr>)))))"
proof (intro conjI impI)
  show "zookeeper_setAcl C api this (Some (path, version, [])) st = Fault UninitRead"
    using obj by (simp add: zookeeper_setAcl_def guard_defs php_parse_acl_list_def read_aclv_def)
next
  assume acl: "acl \<noteq> []"
  let ?cells = "parse_acl_loop C acl []"
  obtain es where es: "read_acl_cells ?cells = Ret es"
    using read_acl_cells_Ret [OF parse_acl_strings, of C acl] by blast
  with acl obj free_acl_cells_Ret [OF parse_acl_strings, of C acl] show "\<exists>es. read_acl_cells ?cells = Ret es \<and>
      (let (status, w1) = zoo_set_acl api zh (c_str path) (to_int32 version) es (z_world st) in
       zookeeper_setAcl C api this (Some (path, version, acl)) st =
         (if status = ZOK then returns (ZBool True) (st\<lparr>z_world := w1\<rparr>)
          else warns (ZError status) ZNull (st\<lparr>z_world := w1\<rparr>)))"
    by (intro exI [of _ es]) (simp add: zookeeper_setAcl_def guard_defs php_parse_acl_list_def read_aclv_def
        php_aclv_destroy_def split_beta Let_def)
qed

theorem set_acl_behaviour_witness:
  "zookeeper_setAcl plain_conv idle_api 0 (Some (''/a'', -1, [])) sim_conn = Fault UninitRead"
  using set_acl_behaviour [of sim_conn 0 "\<lparr>o_zk = Some 3, o_cb_data = None\<rparr>" 3] by simp

text \<open>
  \<open>php_stat_to_array\<close> gives the stat field by field, and two stats have the same array only
  if they are equal, as long as the 64-bit fields are at most \<open>2 ^ 53\<close> in size. Beyond that
  they are rounded: \<open>2 ^ 53\<close> and \<open>2 ^ 53 + 1\<close> become the same session id.
\<close>

theorem stat_precision:
  "((\<forall>n\<in>set (wide_fields s @ wide_fields t). \<bar>n\<bar> \<le> 2 ^ 53) \<longrightarrow>
      php_stat_to_array s = php_stat_to_array t \<longrightarrow> s = t) \<and>
   ((\<forall>n\<in>set (wide_fields s). \<bar>n\<bar> \<le> 2 ^ 53) \<longrightarrow>
      array_find (php_stat_to_array s) ''mzxid'' = Some (ZDouble (stat_mzxid s)) \<and>
      array_find (php_stat_to_array s) ''mtime'' = Some (ZDouble (stat_mtime s)) \<and>
      array_find (php_stat_to_array s) ''ephemeralOwner'' = Some (ZDouble (stat_ephemeralOwner s))) \<and>
   php_stat_to_array (s\<lparr>stat_ephemeralOwner := 2 ^ 53\<rparr>) = php_stat_to_array (s\<lparr>stat_ephemeralOwner := 2 ^ 53 + 1\<rparr>)"
proof (intro conjI impI)
  assume "\<forall>n\<in>set (wide_fields s @ wide_fields t). \<bar>n\<bar> \<le> 2 ^ 53" "php_stat_to_array s = php_stat_to_array t"
  then show "s = t"
    by (intro Stat.equality) (simp_all add: stat_array_eq wide_fields_def double_of_int_exact)
next
  assume "\<forall>n\<in>set (wide_fields s). \<bar>n\<bar> \<le> 2 ^ 53"
  then show "array_find (php_stat_to_array s) ''mzxid'' = Some (ZDouble (stat_mzxid s))"
    "array_find (php_stat_to_array s) ''mtime'' = Some (ZDouble (stat_mtime s))"
    "array_find (php_stat_to_array s) ''ephemeralOwner'' = Some (ZDouble (stat_ephemeralOwner s))"
    by (simp_all add: array_find_def stat_array_eq wide_fields_def double_of_int_exact)
next
  have "double_of_int (2 ^ 53) = double_of_int (2 ^ 53 + 1)"
    by (simp add: double_of_int_def round_double_def double_exp_def upt_rec)
  then show "php_stat_to_array (s\<lparr>stat_ephemeralOwner := 2 ^ 53\<rparr>) =
      php_stat_to_array (s\<lparr>stat_ephemeralOwner := 2 ^ 53 + 1\<rparr>)" by (simp add: stat_array_eq)
qed

theorem stat_precision_witness:
  "array_find (php_stat_to_array (no_stat\<lparr>stat_mtime := 1400000000000\<rparr>)) ''mtime'' = Some (ZDouble 1400000000000)"
  using stat_precision [of "no_stat\<lparr>stat_mtime := 1400000000000\<rparr>" no_stat]
  by (simp add: wide_fields_def no_stat_def)

section \<open>What the methods return\<close>

text \<open>
  C22: the buffer of \<open>create\<close> holds the name of the new node. The library writes the name,
  cut to the given size; the name is the requested path, with a counter of at most eleven characters
  (ten digits and a sign) for a sequential node. The method returns it uncut.
\<close>

theorem create_returns_full_name:
  assumes obj: "z_objs st this = Some i_obj" "o_zk i_obj = Some zh"
    and lib: "\<And>acl sz. zoo_create api zh (c_str path) val (case val of None \<Rightarrow> -1 | Some v \<Rightarrow> int (length v)) acl
        (to_int32 flags) sz (z_world st) = ((ZOK, snprintf sz (c_str path @ suffix)), w1)"
    and suffix: "length suffix \<le> 11" "and flags ZOO_SEQUENCE = 0 \<Longrightarrow> suffix = []"
  shows "zookeeper_create C api this (Some (path, val, acl, flags)) st =
    returns (ZString (c_str path @ suffix)) (st\<lparr>z_world := w1\<rparr>)"
proof -
  let ?sz = "length path + 1 + (if and flags ZOO_SEQUENCE \<noteq> 0 then 11 else 0)"
  have "length (c_str path) \<le> length path" by (simp add: c_str_def length_takeWhile_le)
  with suffix have "snprintf ?sz (c_str path @ suffix) = c_str path @ suffix"
    by (intro snprintf_fits) auto
  moreover obtain es where "(case acl of None \<Rightarrow> Ret None |
      Some _ \<Rightarrow> obind (read_aclv (php_parse_acl_list C acl (Some []))) (\<lambda>es. Ret (Some es))) = Ret es"
  proof (cases acl)
    case (Some arr)
    have "\<exists>es. read_aclv (php_parse_acl_list C (Some arr) (Some [])) = Ret es"
      using read_acl_cells_Ret [OF parse_acl_strings, of C arr] by (auto simp: php_parse_acl_list_def read_aclv_def)
    then show thesis using that Some by auto
  qed auto
  ultimately show ?thesis
    using obj lib by (simp add: zookeeper_create_def guard_defs Let_def)
qed

definition naming_api :: "unit zk_api" where
  "naming_api = idle_api\<lparr>zoo_create := (\<lambda>zh p v l acl fl sz w.
     ((ZOK, snprintf sz (if fl = 2 then p @ ''0000000042'' else p)), w))\<rparr>"

theorem create_returns_full_name_witness:
  "zookeeper_create plain_conv naming_api 0 (Some (''/q/n-'', None, None, 2)) sim_conn =
     returns (ZString ''/q/n-0000000042'') (sim_conn\<lparr>z_world := ()\<rparr>)"
proof -
  have "to_int32 2 = 2" by (simp add: to_int32_def)
  moreover have "c_str ''/q/n-'' = ''/q/n-''" by (simp add: c_str_def)
  ultimately show ?thesis
    using create_returns_full_name [of sim_conn 0 "\<lparr>o_zk = Some 3, o_cb_data = None\<rparr>" 3 naming_api "''/q/n-''" None 2
        "''0000000042''" "()" plain_conv None]
    by (simp add: naming_api_def)
qed

text \<open>
  C21: \<open>get\<close> returns the data of a node. Without \<open>max_size\<close> it is the whole value, and
  null for a node without data; with \<open>max_size\<close> it is the first that many bytes. A node that
  carries a null pointer has length -1, and \<open>get\<close> with \<open>max_size\<close> then writes before
  its buffer.
\<close>

theorem get_returns_data:
  assumes obj: "z_objs st this = Some i_obj" "o_zk i_obj = Some zh"
    and ex: "zoo_exists api zh (c_str path) True (z_world st) = ((ZOK, stat), w1)"
      "stat_dataLength stat = (case data of None \<Rightarrow> 0 | Some v \<Rightarrow> int (length v))"
    and wget: "\<And>l w. zoo_wget api zh (c_str path) None l w = (case data of
        None \<Rightarrow> ((ZOK, '''', -1, stat), w)
      | Some v \<Rightarrow> ((ZOK, take (nat l) v, int (min (nat l) (length v)), stat), w))"
    and size: "\<And>v. data = Some v \<Longrightarrow> int (length v) < 2 ^ 31 - 1"
  shows "zookeeper_get H api this (Some (path, None, False, 0)) st =
      returns (case data of None \<Rightarrow> ZNull | Some v \<Rightarrow> if v = [] then ZNull else ZString v) (st\<lparr>z_world := w1\<rparr>) \<and>
    (\<forall>n. 0 < n \<and> n < 2 ^ 31 - 1 \<longrightarrow> zookeeper_get H api this (Some (path, None, False, n)) st =
      (case data of None \<Rightarrow> Fault OutOfBounds | Some v \<Rightarrow> returns (ZString (take (nat n) v)) st))"
proof (intro conjI allI impI)
  have run: "get_data api zh (c_str path) None False l st2 =
      (case data of None \<Rightarrow> Fault OutOfBounds | Some v \<Rightarrow> returns (ZString (take (nat l) v)) st2)"
    if "0 < l" "l < 2 ^ 31 - 1" for l and st2 :: "('a, 'b) zk_state"
  proof (cases data)
    case (Some v)
    have "take (min (nat l) (length v)) (take (nat l) v) = take (nat l) v" by (simp add: min_def)
    with Some that show ?thesis using wget [of l "z_world st2"]
      by (simp add: get_data_def returns_stat_def returns_def)
  qed (use that wget [of l "z_world st2"] in \<open>simp add: get_data_def\<close>)
  show "zookeeper_get H api this (Some (path, None, False, 0)) st =
      returns (case data of None \<Rightarrow> ZNull | Some v \<Rightarrow> if v = [] then ZNull else ZString v) (st\<lparr>z_world := w1\<rparr>)"
    using obj ex size run [of "stat_dataLength stat"]
    by (cases data) (auto simp: zookeeper_get_def guard_defs new_callback_def)
  show "zookeeper_get H api this (Some (path, None, False, n)) st =
      (case data of None \<Rightarrow> Fault OutOfBounds | Some v \<Rightarrow> returns (ZString (take (nat n) v)) st)"
    if "0 < n \<and> n < 2 ^ 31 - 1" for n
    using that obj run [of n st] to_int32_id [of n] by (simp add: zookeeper_get_def guard_defs new_callback_def)
qed

definition null_api :: "unit zk_api" where
  "null_api = idle_api\<lparr>zoo_wget := (\<lambda>zh p wt l w. ((ZOK, '''', -1, no_stat), w))\<rparr>"

theorem get_returns_data_witness:
  "zookeeper_get list_hash null_api 0 (Some (''/n'', None, False, 100)) sim_conn = Fault OutOfBounds"
proof -
  have "zoo_exists null_api 3 (c_str ''/n'') True (z_world sim_conn) = ((ZOK, no_stat), ())"
    "stat_dataLength no_stat = (case None of None \<Rightarrow> 0 | Some v \<Rightarrow> int (length (v :: string)))"
    by (simp_all add: null_api_def no_stat_def)
  from get_returns_data [of sim_conn 0 "\<lparr>o_zk = Some 3, o_cb_data = None\<rparr>" 3, OF _ _ this]
  show ?thesis by (simp add: null_api_def)
qed

text \<open>
  Before \<open>connect\<close>, none of the fourteen methods that talk to the server does anything: each
  returns null with the one warning, and the state is unchanged.
\<close>

theorem methods_need_connect:
  fixes st :: "('w, 'h) zk_state"
  assumes obj: "z_objs st this = Some i_obj" "o_zk i_obj = None"
    and reply: "reply \<in> {zookeeper_create C api this (Some a1) st, zookeeper_delete api this (Some a2) st,
      zookeeper_getChildren H api this (Some a3) st, zookeeper_get H api this (Some a4) st,
      zookeeper_exists H api this (Some a5) st, zookeeper_set api this (Some a6) st,
      zookeeper_getClientId api this (Some a7) st, zookeeper_getAcl api this (Some a8) st,
      zookeeper_setAcl C api this (Some a9) st, zookeeper_getState api this (Some a10) st,
      zookeeper_getRecvTimeout api this (Some a11) st, zookeeper_isRecoverable api this (Some a12) st,
      zookeeper_addAuth H api this (Some a13) st, zookeeper_setWatcher H api this (Some a14) st}"
  shows "\<exists>r. reply = Ret (r, st) \<and> r_value r = ZNull \<and> r_warnings r = [NotConnected]"
  using reply obj create.soft_failure [of "Some a1" st this C api] delete.soft_failure [of "Some a2" st this api]
    getChildren.soft_failure [of "Some a3" st this H api] get.soft_failure [of "Some a4" st this H api]
    exists.soft_failure [of "Some a5" st this H api] set.soft_failure [of "Some a6" st this api]
    getClientId.soft_failure [of "Some a7" st this api] getAcl.soft_failure [of "Some a8" st this api]
    setAcl.soft_failure [of "Some a9" st this C api] getState.soft_failure [of "Some a10" st this api]
    getRecvTimeout.soft_failure [of "Some a11" st this api] isRecoverable.soft_failure [of "Some a12" st this api]
    addAuth.soft_failure [of "Some a13" st this H api] setWatcher.soft_failure [of "Some a14" st this H api]
  by auto

theorem methods_need_connect_witness:
  "\<exists>r. zookeeper_delete idle_api 0 (Some (''/a'', None)) (snd (php_zk_new (request_start list_hash ()))) =
     Ret (r, snd (php_zk_new (request_start list_hash ()))) \<and> r_warnings r = [NotConnected]"
proof -
  let ?st = "snd (php_zk_new (request_start list_hash ()))"
  have "z_objs ?st 0 = Some \<lparr>o_zk = None, o_cb_data = None\<rparr>" by (simp add: php_zk_new_def request_start_def)
  from methods_need_connect [OF this, of "zookeeper_delete idle_api 0 (Some (''/a'', None)) ?st" plain_conv idle_api
      _ "(''/a'', None)" list_hash] show ?thesis by auto
qed

lemma object_record_freed:
  assumes laws: "hash_laws H V" and ok: "table_ok V st"
    and obj: "z_objs st this = Some \<lparr>o_zk = Some zh, o_cb_data = Some a\<rparr>"
    and rec: "z_cbs st a = Some cb" "map_of (entries V (z_table st)) (cb_h cb) = Some a"
  shows "\<exists>st'. php_zk_free_storage H api this st = Ret st' \<and> z_world st' = zookeeper_close api zh (z_world st) \<and>
    z_cbs st' = (z_cbs st)(a := None) \<and> z_objs st' = (z_objs st)(this := None)"
proof -
  from callbacks_del_cases [OF laws ok, of "cb_h cb"] rec obtain st1 where "callbacks_del H (cb_h cb) st = Ret st1"
    "z_cbs st1 = (z_cbs st)(a := None)" "z_objs st1 = z_objs st" "z_world st1 = z_world st" by auto
  then show ?thesis
    using obj rec by (simp add: php_zk_free_storage_def php_zk_destroy_def drop_object_callback_def)
qed

text \<open>
  Destroying an object before the request ends closes its handle and, while the table has no
  gaps, releases the record of its watcher and nothing else; an object that is destroyed after the
  shutdown of the request reads its released record.
\<close>

theorem object_destruction:
  assumes laws: "hash_laws H V" and ok: "table_ok V st"
    and obj: "z_objs st this = Some \<lparr>o_zk = Some zh, o_cb_data = Some a\<rparr>"
    and rec: "z_cbs st a = Some cb" "map_of (entries V (z_table st)) (cb_h cb) = Some a"
  shows "(\<exists>st'. php_zk_free_storage H api this st = Ret st' \<and> z_world st' = zookeeper_close api zh (z_world st) \<and>
      z_cbs st' = (z_cbs st)(a := None) \<and> z_objs st' = (z_objs st)(this := None)) \<and>
    (\<exists>st'. rshutdown_zookeeper H st = Ret st' \<and> php_zk_free_storage H api this st' = Fault UseAfterFree)"
proof -
  from rshutdown_ok [OF laws ok] obtain st2 where "rshutdown_zookeeper H st = Ret st2"
    "z_cbs st2 = (\<lambda>_. None)" "z_objs st2 = z_objs st" by blast
  then show ?thesis
    using obj object_record_freed [OF assms]
    by (simp add: php_zk_free_storage_def php_zk_destroy_def drop_object_callback_def)
qed

theorem object_destruction_witness:
  "\<exists>st st'. rshutdown_zookeeper list_hash st = Ret st' \<and>
     php_zk_free_storage list_hash (idle_api :: unit zk_api) 0 st' = Fault UseAfterFree"
proof -
  let ?st = "sim_gap\<lparr>z_objs := [0 \<mapsto> \<lparr>o_zk = Some 3, o_cb_data = Some 1\<rparr>]\<rparr>"
  have "table_ok list_view ?st" using sim_gap_ok by simp
  from object_destruction [OF list_hash_laws this, of 0 3 1 "\<lparr>cb_fci = 8, cb_oneshot = True, cb_h = 1\<rparr>" idle_api]
  show ?thesis by (auto simp: sim_gap_def list_view_def)
qed

end
