(* ===== verification/Session_Store.thy ===== *)
theory Session_Store
  imports Session
begin

text \<open>
  The session store as PHP sees it, a table from node paths to a value and its modification time,
  and the refinement of the handlers to it. What the handlers rely on in libzookeeper is the
  predicate \<open>store_laws\<close>: the documented results of the synchronous calls on a part of the tree
  that one client changes at a time, a lost reply included, after which the change may or may not
  have happened.
\<close>

type_synonym session_table = "string \<Rightarrow> (string \<times> int) option"

record 'w store_view =
  sv_node :: "'w \<Rightarrow> session_table"
  sv_clock :: "'w \<Rightarrow> int"

section \<open>Laws of the calls\<close>

definition reads_only :: "'w store_view \<Rightarrow> 'w \<Rightarrow> 'w \<Rightarrow> bool" where
  "reads_only V w w' \<longleftrightarrow> sv_node V w' = sv_node V w \<and> sv_clock V w \<le> sv_clock V w'"

definition written :: "'w store_view \<Rightarrow> string \<Rightarrow> string \<Rightarrow> 'w \<Rightarrow> 'w \<Rightarrow> bool" where
  "written V p v w w' \<longleftrightarrow> sv_clock V w \<le> sv_clock V w' \<and>
     (\<exists>t \<ge> sv_clock V w. sv_node V w' = (sv_node V w)(p \<mapsto> (v, t)))"

definition deleted :: "'w store_view \<Rightarrow> string \<Rightarrow> 'w \<Rightarrow> 'w \<Rightarrow> bool" where
  "deleted V p w w' \<longleftrightarrow> sv_clock V w \<le> sv_clock V w' \<and> sv_node V w' = (sv_node V w)(p := None)"

definition exists_laws :: "'w zk_api \<Rightarrow> zhandle \<Rightarrow> 'w store_view \<Rightarrow> bool" where
  "exists_laws api zh V \<longleftrightarrow>
     (\<forall>p b w s st w'. zoo_exists api zh p b w = ((s, st), w') \<longrightarrow> reads_only V w w' \<and>
        (s = ZOK \<longrightarrow> (\<exists>v t. sv_node V w p = Some (v, t) \<and> stat_mtime st = t \<and>
           stat_dataLength st = int (length v))) \<and>
        (s = ZNONODE \<longrightarrow> sv_node V w p = None))"

definition get_laws :: "'w zk_api \<Rightarrow> zhandle \<Rightarrow> 'w store_view \<Rightarrow> bool" where
  "get_laws api zh V \<longleftrightarrow>
     (\<forall>p b l w s buf n st w'. zoo_get api zh p b l w = ((s, buf, n, st), w') \<longrightarrow> reads_only V w w' \<and>
        (s = ZOK \<longrightarrow> (\<exists>v t. sv_node V w p = Some (v, t) \<and> buf = take (nat l) v \<and> n = int (length buf))))"

definition create_laws :: "'w zk_api \<Rightarrow> zhandle \<Rightarrow> 'w store_view \<Rightarrow> bool" where
  "create_laws api zh V \<longleftrightarrow>
     (\<forall>p v acl w s q w'. zoo_create api zh p (Some v) (int (length v)) acl 0 0 w = ((s, q), w') \<longrightarrow>
        (if s = ZOK then sv_node V w p = None \<and> written V p v w w'
         else if s = ZCONNECTIONLOSS then reads_only V w w' \<or> sv_node V w p = None \<and> written V p v w w'
         else reads_only V w w'))"

definition set_laws :: "'w zk_api \<Rightarrow> zhandle \<Rightarrow> 'w store_view \<Rightarrow> bool" where
  "set_laws api zh V \<longleftrightarrow>
     (\<forall>p v w s w'. zoo_set api zh p (Some v) (int (length v)) (-1) w = (s, w') \<longrightarrow>
        (if s = ZOK then sv_node V w p \<noteq> None \<and> written V p v w w'
         else if s = ZCONNECTIONLOSS then reads_only V w w' \<or> sv_node V w p \<noteq> None \<and> written V p v w w'
         else reads_only V w w'))"

definition delete_laws :: "'w zk_api \<Rightarrow> zhandle \<Rightarrow> 'w store_view \<Rightarrow> bool" where
  "delete_laws api zh V \<longleftrightarrow>
     (\<forall>p w s w'. zoo_delete api zh p (-1) w = (s, w') \<longrightarrow>
        (if s = ZOK then sv_node V w p \<noteq> None \<and> deleted V p w w'
         else if s = ZCONNECTIONLOSS then reads_only V w w' \<or> deleted V p w w'
         else reads_only V w w'))"

definition store_laws :: "'w zk_api \<Rightarrow> zhandle \<Rightarrow> 'w store_view \<Rightarrow> bool" where
  "store_laws api zh V \<longleftrightarrow> exists_laws api zh V \<and> get_laws api zh V \<and> create_laws api zh V \<and>
     set_laws api zh V \<and> delete_laws api zh V"

text \<open>The two kinds of answer that say what the node is like.\<close>

definition exists_answers :: "'w zk_api \<Rightarrow> zhandle \<Rightarrow> bool" where
  "exists_answers api zh \<longleftrightarrow>
     (\<forall>p b w. fst (fst (zoo_exists api zh p b w)) \<in> {ZOK, ZNONODE, ZCONNECTIONLOSS})"

definition delete_answers :: "'w zk_api \<Rightarrow> zhandle \<Rightarrow> 'w store_view \<Rightarrow> bool" where
  "delete_answers api zh V \<longleftrightarrow> (\<forall>p w. fst (zoo_delete api zh p (-1) w) \<in> {ZOK, ZNONODE, ZCONNECTIONLOSS} \<and>
     (fst (zoo_delete api zh p (-1) w) = ZNONODE \<longrightarrow> sv_node V w p = None))"

definition get_answers :: "'w zk_api \<Rightarrow> zhandle \<Rightarrow> 'w store_view \<Rightarrow> bool" where
  "get_answers api zh V \<longleftrightarrow>
     (\<forall>p b l w. sv_node V w p \<noteq> None \<longrightarrow> fst (fst (zoo_get api zh p b l w)) \<in> {ZOK, ZCONNECTIONLOSS})"

lemmas store_rel_defs = reads_only_def written_def deleted_def

lemma reads_only_trans: "reads_only V a b \<Longrightarrow> reads_only V b c \<Longrightarrow> reads_only V a c"
  by (auto simp: reads_only_def)

lemma reads_only_refl [simp]: "reads_only V w w"
  by (simp add: reads_only_def)

lemma exists_law:
  assumes "store_laws api zh V" "zoo_exists api zh p b w = ((s, st), w')"
  shows "reads_only V w w' \<and> (s = ZOK \<longrightarrow> (\<exists>v t. sv_node V w p = Some (v, t) \<and> stat_mtime st = t \<and>
    stat_dataLength st = int (length v))) \<and> (s = ZNONODE \<longrightarrow> sv_node V w p = None)"
proof -
  have "exists_laws api zh V" using assms(1) by (simp add: store_laws_def)
  from this [unfolded exists_laws_def, rule_format, OF assms(2)] show ?thesis .
qed

lemma get_law:
  assumes "store_laws api zh V" "zoo_get api zh p b l w = ((s, buf, n, st), w')"
  shows "reads_only V w w' \<and>
    (s = ZOK \<longrightarrow> (\<exists>v t. sv_node V w p = Some (v, t) \<and> buf = take (nat l) v \<and> n = int (length buf)))"
proof -
  have "get_laws api zh V" using assms(1) by (simp add: store_laws_def)
  from this [unfolded get_laws_def, rule_format, OF assms(2)] show ?thesis .
qed

lemma create_law:
  assumes "store_laws api zh V" "zoo_create api zh p (Some v) (int (length v)) acl 0 0 w = ((s, q), w')"
  shows "if s = ZOK then sv_node V w p = None \<and> written V p v w w'
    else if s = ZCONNECTIONLOSS then reads_only V w w' \<or> sv_node V w p = None \<and> written V p v w w'
    else reads_only V w w'"
proof -
  have "create_laws api zh V" using assms(1) by (simp add: store_laws_def)
  from this [unfolded create_laws_def, rule_format, OF assms(2)] show ?thesis .
qed

lemma set_law:
  assumes "store_laws api zh V" "zoo_set api zh p (Some v) (int (length v)) (-1) w = (s, w')"
  shows "if s = ZOK then sv_node V w p \<noteq> None \<and> written V p v w w'
    else if s = ZCONNECTIONLOSS then reads_only V w w' \<or> sv_node V w p \<noteq> None \<and> written V p v w w'
    else reads_only V w w'"
proof -
  have "set_laws api zh V" using assms(1) by (simp add: store_laws_def)
  from this [unfolded set_laws_def, rule_format, OF assms(2)] show ?thesis .
qed

lemma delete_law:
  assumes "store_laws api zh V" "zoo_delete api zh p (-1) w = (s, w')"
  shows "if s = ZOK then sv_node V w p \<noteq> None \<and> deleted V p w w'
    else if s = ZCONNECTIONLOSS then reads_only V w w' \<or> deleted V p w w' else reads_only V w w'"
proof -
  have "delete_laws api zh V" using assms(1) by (simp add: store_laws_def)
  from this [unfolded delete_laws_def, rule_format, OF assms(2)] show ?thesis .
qed

section \<open>The table\<close>

text \<open>
  A value is expired once \<open>gc_maxlifetime\<close> seconds have gone by, at the time of the request, since
  its modification, which the server gives in milliseconds.
\<close>

definition expired :: "php_env \<Rightarrow> int \<Rightarrow> bool" where
  "expired env mtime \<longleftrightarrow> mtime + 1000 * e_gc_maxlifetime env < 1000 * e_request_time env"

text \<open>The two settings are near enough to each other for the arithmetic of the handlers.\<close>

definition expiry_fits :: "php_env \<Rightarrow> bool" where
  "expiry_fits env \<longleftrightarrow> \<bar>e_request_time env - e_gc_maxlifetime env\<bar> \<le> 9223372036854775"

lemma expiration_time:
  "expiration_time_of env = Ret e \<longleftrightarrow> expiry_fits env \<and> e = (e_request_time env - e_gc_maxlifetime env) * 1000"
  by (auto simp: expiration_time_of_def checked_long_def expiry_fits_def long_max_def obind_eq_Ret split: if_splits)

lemma expiration_time_fits:
  assumes "expiry_fits env"
  obtains e where "expiration_time_of env = Ret e" "\<And>t. t < e \<longleftrightarrow> expired env t"
  using assms that [of "(e_request_time env - e_gc_maxlifetime env) * 1000"]
  by (simp add: expiration_time expired_def) linarith

lemma expiration_time_overflow: "\<not> expiry_fits env \<Longrightarrow> expiration_time_of env = Fault SignedOverflow"
  by (auto simp: expiration_time_of_def checked_long_def expiry_fits_def long_max_def)

lemma expired_antimono: "\<not> expired env t \<Longrightarrow> t \<le> t' \<Longrightarrow> \<not> expired env t'"
  by (simp add: expired_def)

definition spec_read :: "php_env \<Rightarrow> string \<Rightarrow> session_table \<Rightarrow> read_result \<times> session_table" where
  "spec_read env p t = (case t p of
     None \<Rightarrow> ((False, None, 0), t)
   | Some (v, mt) \<Rightarrow> if expired env mt then ((False, None, 0), t(p := None))
                    else ((True, Some v, int (length v)), t))"

text \<open>Which paths a collection over the given names removes.\<close>

definition spec_gc :: "php_env \<Rightarrow> string set \<Rightarrow> session_table \<Rightarrow> session_table" where
  "spec_gc env ps t = (\<lambda>p. case t p of
     Some (v, mt) \<Rightarrow> if p \<in> ps \<and> expired env mt then None else t p | None \<Rightarrow> None)"

lemma spec_gc_empty [simp]: "spec_gc env {} t = t"
  by (auto simp: spec_gc_def split: option.splits)

lemma spec_gc_insert: "spec_gc env (insert p ps) t = spec_gc env ps (spec_gc env {p} t)"
  by (rule ext) (auto simp: spec_gc_def split: option.splits)

lemma spec_gc_one: "spec_gc env {p} t =
    (case t p of Some (v, mt) \<Rightarrow> if expired env mt then t(p := None) else t | None \<Rightarrow> t)"
  by (rule ext) (auto simp: spec_gc_def split: option.splits)

section \<open>Retried calls on the table\<close>

lemma retried_exists:
  assumes laws: "store_laws api zh V" and call: "retried (zoo_exists api zh p b) w = Some out"
  obtains s st w' where "out = Ret (s, st, w')" "s \<noteq> ZCONNECTIONLOSS" "reads_only V w w'"
    "s = ZOK \<longrightarrow> (\<exists>v t. sv_node V w p = Some (v, t) \<and> stat_mtime st = t \<and> stat_dataLength st = int (length v))"
    "s = ZNONODE \<longrightarrow> sv_node V w p = None" "exists_answers api zh \<longrightarrow> s = ZOK \<or> s = ZNONODE"
proof (rule retried_rule [where I = "reads_only V w", OF call])
  fix s st w0 w'
  assume *: "out = Ret (s, st, w')" "s \<noteq> ZCONNECTIONLOSS" "reads_only V w w0"
    "zoo_exists api zh p b w0 = ((s, st), w')" "reads_only V w w'"
  then have "sv_node V w0 = sv_node V w" by (simp add: reads_only_def)
  moreover have "exists_answers api zh \<longrightarrow> s = ZOK \<or> s = ZNONODE"
    using *(2,4) unfolding exists_answers_def by (metis fst_conv insertE singletonD)
  ultimately show thesis using exists_law [OF laws *(4)] * by (intro that [of s st w']) auto
next
  fix w1 r w2
  assume "reads_only V w w1" "zoo_exists api zh p b w1 = (r, w2)"
  then show "reads_only V w w2"
    using exists_law [OF laws, of p b w1 "fst r" "snd r" w2] by (auto intro: reads_only_trans)
qed simp

lemma retried_get:
  assumes laws: "store_laws api zh V" and call: "retried (zoo_get api zh p b l) w = Some out"
  obtains s buf n st w' where "out = Ret (s, (buf, n, st), w')" "s \<noteq> ZCONNECTIONLOSS" "reads_only V w w'"
    "s = ZOK \<longrightarrow> (\<exists>v t. sv_node V w p = Some (v, t) \<and> buf = take (nat l) v \<and> n = int (length buf))"
    "get_answers api zh V \<longrightarrow> sv_node V w p \<noteq> None \<longrightarrow> s = ZOK"
proof (rule retried_rule [where I = "reads_only V w", OF call])
  fix s r w0 w'
  assume *: "out = Ret (s, r, w')" "s \<noteq> ZCONNECTIONLOSS" "reads_only V w w0"
    "zoo_get api zh p b l w0 = ((s, r), w')" "reads_only V w w'"
  obtain buf n st where r: "r = (buf, n, st)" by (cases r)
  from * have "sv_node V w0 = sv_node V w" by (simp add: reads_only_def)
  moreover from this have "get_answers api zh V \<longrightarrow> sv_node V w p \<noteq> None \<longrightarrow> s = ZOK"
    using *(2,4) unfolding get_answers_def by (metis fst_conv insertE singletonD)
  ultimately show thesis using get_law [OF laws *(4) [unfolded r]] * r by (intro that [of s buf n st w']) auto
next
  fix w1 r w2
  assume *: "reads_only V w w1" "zoo_get api zh p b l w1 = (r, w2)"
  obtain s buf n st where "r = (s, buf, n, st)" by (cases r)
  with * get_law [OF laws, of p b l w1 s buf n st w2] show "reads_only V w w2"
    by (auto intro: reads_only_trans)
qed simp

text \<open>
  A retried delete of a node that exists removes it, unless the library refuses: a lost reply may
  have removed it already.
\<close>

lemma retried_delete:
  assumes laws: "store_laws api zh V" and call: "retried (status_op (zoo_delete api zh p (-1))) w = Some out"
  obtains s w' where "out = Ret (s, (), w')" "s \<noteq> ZCONNECTIONLOSS" "reads_only V w w' \<or> deleted V p w w'"
    "s = ZOK \<longrightarrow> deleted V p w w'" "delete_answers api zh V \<longrightarrow> deleted V p w w'"
proof (rule retried_rule [where I = "\<lambda>w1. reads_only V w w1 \<or> deleted V p w w1", OF call])
  fix s r w0 w'
  assume *: "out = Ret (s, r, w')" "s \<noteq> ZCONNECTIONLOSS" "reads_only V w w0 \<or> deleted V p w w0"
    "status_op (zoo_delete api zh p (-1)) w0 = ((s, r), w')" "reads_only V w w' \<or> deleted V p w w'"
  then have del: "zoo_delete api zh p (-1) w0 = (s, w')" by (simp add: status_op_eq prod_eq_iff)
  have "s = ZOK \<longrightarrow> deleted V p w w'"
    using delete_law [OF laws del] *(3) by (auto simp: store_rel_defs)
  moreover have "deleted V p w w'" if "delete_answers api zh V"
  proof -
    have "s \<in> {ZOK, ZNONODE}" "s = ZNONODE \<longrightarrow> sv_node V w0 p = None"
      using that *(2) del unfolding delete_answers_def by (metis fst_conv insertE insert_iff)+
    with delete_law [OF laws del] *(3) show ?thesis by (auto simp: store_rel_defs fun_upd_idem)
  qed
  ultimately show thesis using * by (intro that [of s w']) auto
next
  fix w1 r w2
  assume *: "reads_only V w w1 \<or> deleted V p w w1" "status_op (zoo_delete api zh p (-1)) w1 = (r, w2)"
  then have "zoo_delete api zh p (-1) w1 = (fst r, w2)" by (auto simp: status_op_eq prod_eq_iff)
  from delete_law [OF laws this] *(1) show "reads_only V w w2 \<or> deleted V p w w2"
    by (auto simp: store_rel_defs split: if_splits)
qed simp

section \<open>Reading\<close>

lemma read_node_spec:
  assumes laws: "store_laws api (s_zk s) V" "exists_answers api (s_zk s)" "delete_answers api (s_zk s) V"
      "get_answers api (s_zk s) V"
    and call: "read_node env api s w = Some out"
  shows "if sv_node V w (s_path s) \<noteq> None \<and> \<not> expiry_fits env then out = Fault SignedOverflow
    else \<exists>r w'. out = Ret (r, w') \<and> sv_clock V w \<le> sv_clock V w' \<and>
      (r, sv_node V w') = spec_read env (s_path s) (sv_node V w)"
proof -
  from call obtain o1 where "retried (zoo_exists api (s_zk s) (s_path s) True) w = Some o1"
    by (cases "retried (zoo_exists api (s_zk s) (s_path s) True) w") (auto simp: read_node_def)
  with laws(1) obtain st stat w1 where ex: "retried (zoo_exists api (s_zk s) (s_path s) True) w = Some (Ret (st, stat, w1))"
    and ro: "reads_only V w w1" and some: "st = ZOK \<longrightarrow> (\<exists>v t. sv_node V w (s_path s) = Some (v, t) \<and>
        stat_mtime stat = t \<and> stat_dataLength stat = int (length v))"
    and none: "st = ZNONODE \<longrightarrow> sv_node V w (s_path s) = None" and st: "st = ZOK \<or> st = ZNONODE"
    using laws(2) by (elim retried_exists) auto
  show ?thesis
  proof (cases "st = ZOK")
    case False
    with ex call none st ro show ?thesis by (auto simp: read_node_def spec_read_def reads_only_def)
  next
    case True
    with some obtain v t where v: "sv_node V w (s_path s) = Some (v, t)" "stat_mtime stat = t"
      "stat_dataLength stat = int (length v)" by auto
    show ?thesis
    proof (cases "expiry_fits env")
      case False
      with ex call v True show ?thesis by (simp add: read_node_def expiration_time_overflow)
    next
      case fits: True
      from expiration_time_fits [OF fits] obtain e where
        fit: "expiration_time_of env = Ret e" "\<And>t. t < e \<longleftrightarrow> expired env t" "expiry_fits env" using fits by blast
      show ?thesis
      proof (cases "expired env t")
        case expired: True
        let ?del = "retried (status_op (zoo_delete api (s_zk s) (s_path s) (-1))) w1"
        from ex call v True fit expired obtain o2 where o2: "?del = Some o2"
          by (cases ?del) (auto simp: read_node_def)
        from retried_delete [OF laws(1) o2] laws(3) obtain s2 w2 where "o2 = Ret (s2, (), w2)" "deleted V (s_path s) w1 w2"
          by metis
        with ex call v True fit expired o2 ro show ?thesis
          by (auto simp: read_node_def spec_read_def store_rel_defs)
      next
        case False
        let ?get = "retried (zoo_get api (s_zk s) (s_path s) False (stat_dataLength stat)) w1"
        from ex call v True fit False obtain o2 where o2: "?get = Some o2"
          by (cases ?get) (auto simp: read_node_def)
        have "sv_node V w1 (s_path s) = Some (v, t)" using v ro by (simp add: reads_only_def)
        moreover obtain s2 buf n st2 w2 where "o2 = Ret (s2, (buf, n, st2), w2)" "s2 \<noteq> ZCONNECTIONLOSS"
          "reads_only V w1 w2" "s2 = ZOK \<longrightarrow> (\<exists>v t. sv_node V w1 (s_path s) = Some (v, t) \<and>
            buf = take (nat (stat_dataLength stat)) v \<and> n = int (length buf))"
          "get_answers api (s_zk s) V \<longrightarrow> sv_node V w1 (s_path s) \<noteq> None \<longrightarrow> s2 = ZOK"
          by (rule retried_get [OF laws(1) o2], rule that)
        ultimately have "o2 = Ret (ZOK, (v, int (length v), st2), w2)" "reads_only V w1 w2"
          using v(3) laws(4) by auto
        with ex call v True fit False o2 ro show ?thesis
          by (auto simp: read_node_def spec_read_def reads_only_def)
      qed
    qed
  qed
qed

section \<open>Writing\<close>

lemma written_trans:
  "reads_only V a b \<or> written V p v a b \<Longrightarrow> written V p v b c \<Longrightarrow> written V p v a c"
proof -
  assume ab: "reads_only V a b \<or> written V p v a b" and bc: "written V p v b c"
  from bc obtain t where t: "sv_clock V b \<le> t" "sv_node V c = (sv_node V b)(p \<mapsto> (v, t))"
    "sv_clock V b \<le> sv_clock V c" by (auto simp: written_def)
  moreover have "sv_clock V a \<le> sv_clock V b" "(sv_node V b)(p \<mapsto> (v, t)) = (sv_node V a)(p \<mapsto> (v, t))"
    using ab by (auto simp: store_rel_defs)
  ultimately show ?thesis unfolding written_def by (metis order_trans)
qed

lemma written_then_reads: "written V p v a b \<Longrightarrow> reads_only V b c \<Longrightarrow> written V p v a c"
  by (auto simp: store_rel_defs)

lemma reads_then_written: "reads_only V a b \<Longrightarrow> written V p v b c \<Longrightarrow> written V p v a c"
  by (rule written_trans) auto

lemma written_node: "written V p v a b \<Longrightarrow> sv_node V b p \<noteq> None"
  by (auto simp: written_def)

text \<open>One round of the writing loop.\<close>

lemma write_op_law:
  assumes laws: "store_laws api zh V" and call: "write_op api zh p val (s, w) = ((s', u), (s'', w'))"
  shows "s'' = s' \<and> (if s' = ZOK then written V p val w w' \<and> (s \<noteq> ZOK \<longrightarrow> sv_node V w p = None)
    else reads_only V w w' \<or> written V p val w w')"
proof (cases "s = ZOK")
  case True
  with call have "zoo_set api zh p (Some val) (int (length val)) (-1) w = (s', w')" "s'' = s'"
    by (auto simp: write_op_def split_beta)
  with set_law [OF laws this(1)] True show ?thesis by (auto split: if_splits)
next
  case False
  with call obtain q where "zoo_create api zh p (Some val) (int (length val)) (Some ZOO_OPEN_ACL_UNSAFE) 0 0 w =
      ((s', q), w')" "s'' = s'"
    by (cases "zoo_create api zh p (Some val) (int (length val)) (Some ZOO_OPEN_ACL_UNSAFE) 0 0 w")
      (auto simp: write_op_def split_beta)
  with create_law [OF laws this(1)] False show ?thesis by (auto split: if_splits)
qed

lemma retried_write:
  assumes laws: "store_laws api zh V" and call: "retried (write_op api zh p val) (s, w) = Some out"
  obtains s' w' where "out = Ret (s', (), (s', w'))"
    "if s' = ZOK then written V p val w w' else reads_only V w w' \<or> written V p val w w'"
proof (rule retried_rule [where I = "\<lambda>(_, w1). reads_only V w w1 \<or> written V p val w w1", OF call])
  fix s' u x0 x'
  assume *: "out = Ret (s', u, x')" "case x0 of (_, w1) \<Rightarrow> reads_only V w w1 \<or> written V p val w w1"
    "write_op api zh p val x0 = ((s', u), x')"
    "case x' of (_, w1) \<Rightarrow> reads_only V w w1 \<or> written V p val w w1"
  obtain s0 w0 s2 w' where x: "x0 = (s0, w0)" "x' = (s2, w')" by (cases x0; cases x')
  from write_op_law [OF laws, of p val s0 w0 s' u s2 w'] *(3) x
  have "s2 = s'" "s' = ZOK \<longrightarrow> written V p val w0 w'" by (auto split: if_splits)
  with *(2,4) x have "if s' = ZOK then written V p val w w' else reads_only V w w' \<or> written V p val w w'"
    by (auto dest: written_trans [OF disjI1] written_trans [OF disjI2])
  with \<open>s2 = s'\<close> x *(1) show thesis by (intro that [of s' w']) auto
next
  fix x1 r x2
  assume *: "case x1 of (_, w1) \<Rightarrow> reads_only V w w1 \<or> written V p val w w1"
    "write_op api zh p val x1 = (r, x2)"
  obtain s1 w1 s2 w2 s' u where x: "x1 = (s1, w1)" "x2 = (s2, w2)" "r = (s', u)"
    by (cases x1; cases x2; cases r)
  from write_op_law [OF laws, of p val s1 w1 s' u s2 w2] *(2) x
  have "reads_only V w1 w2 \<or> written V p val w1 w2" by (auto split: if_splits)
  with *(1) x show "case x2 of (_, w1) \<Rightarrow> reads_only V w w1 \<or> written V p val w w1"
    by (auto intro: reads_only_trans reads_then_written written_then_reads dest: written_trans [OF disjI2])
qed simp

text \<open>Once a reply was lost, the loop creates: it can not succeed on a node that is there.\<close>

lemma retried_write_stuck:
  assumes laws: "store_laws api zh V" and call: "retried (write_op api zh p val) (s, w) = Some out"
    and "s \<noteq> ZOK" "sv_node V w p \<noteq> None"
  shows "\<exists>s' w'. out = Ret (s', (), (s', w')) \<and> s' \<noteq> ZOK"
proof (rule retried_rule [where I = "\<lambda>(s1, w1). s1 \<noteq> ZOK \<and> sv_node V w1 p \<noteq> None", OF call])
  fix x1 r x2
  assume *: "case x1 of (s1, w1) \<Rightarrow> s1 \<noteq> ZOK \<and> sv_node V w1 p \<noteq> None"
    "write_op api zh p val x1 = (r, x2)"
  obtain s1 w1 s2 w2 s' u where x: "x1 = (s1, w1)" "x2 = (s2, w2)" "r = (s', u)"
    by (cases x1; cases x2; cases r)
  with write_op_law [OF laws, of p val s1 w1 s' u s2 w2] * show
    "case x2 of (s1, w1) \<Rightarrow> s1 \<noteq> ZOK \<and> sv_node V w1 p \<noteq> None"
    by (auto simp: reads_only_def dest: written_node split: if_splits)
next
  fix s' u x0 x'
  assume *: "out = Ret (s', u, x')" "case x' of (s1, w1) \<Rightarrow> s1 \<noteq> ZOK \<and> sv_node V w1 p \<noteq> None"
    "write_op api zh p val x0 = ((s', u), x')"
  obtain s0 w0 s2 w' where x: "x0 = (s0, w0)" "x' = (s2, w')" by (cases x0; cases x')
  with write_op_law [OF laws, of p val s0 w0 s' u s2 w'] * show ?thesis by auto
qed (use assms(3,4) in auto)

section \<open>Collecting\<close>

lemma gc_loop_safe:
  assumes laws: "store_laws api zh V"
  shows "sv_node V (gc_loop api zh e nodes w) q = sv_node V w q \<or>
    (q \<in> session_path ` set nodes \<and> (\<exists>v t. sv_node V w q = Some (v, t) \<and> t < e) \<and>
     sv_node V (gc_loop api zh e nodes w) q = None)"
proof (induction nodes arbitrary: w)
  case Nil
  then show ?case by simp
next
  case (Cons n nodes)
  let ?p = "session_path n"
  obtain s st w1 where ex: "zoo_exists api zh ?p True w = ((s, st), w1)" by (metis prod.collapse)
  obtain d w2 where del: "zoo_delete api zh ?p (-1) w1 = (d, w2)" by (metis prod.collapse)
  note law = exists_law [OF laws ex] delete_law [OF laws del]
  show ?case
  proof (cases "s = ZOK \<and> stat_mtime st < e")
    case True
    with ex del have "gc_loop api zh e (n # nodes) w = gc_loop api zh e nodes w2" by simp
    with Cons.IH [of w2] True law show ?thesis
      by (auto simp: store_rel_defs split: if_splits)
  next
    case False
    with ex have "gc_loop api zh e (n # nodes) w = gc_loop api zh e nodes w1" by auto
    with Cons.IH [of w1] law(1) show ?thesis by (auto simp: reads_only_def)
  qed
qed

text \<open>No reply is lost, and none is refused.\<close>

definition gc_answered :: "'w zk_api \<Rightarrow> zhandle \<Rightarrow> 'w store_view \<Rightarrow> bool" where
  "gc_answered api zh V \<longleftrightarrow>
     (\<forall>p b w. fst (fst (zoo_exists api zh p b w)) \<in> {ZOK, ZNONODE}) \<and>
     (\<forall>p w. sv_node V w p \<noteq> None \<longrightarrow> fst (zoo_delete api zh p (-1) w) = ZOK)"

lemma gc_loop_exact:
  assumes laws: "store_laws api zh V" "gc_answered api zh V" and e: "\<And>t. t < e \<longleftrightarrow> expired env t"
  shows "sv_node V (gc_loop api zh e nodes w) = spec_gc env (session_path ` set nodes) (sv_node V w)"
proof (induction nodes arbitrary: w)
  case Nil
  then show ?case by simp
next
  case (Cons n nodes)
  let ?p = "session_path n"
  obtain s st w1 where ex: "zoo_exists api zh ?p True w = ((s, st), w1)" by (metis prod.collapse)
  obtain d w2 where del: "zoo_delete api zh ?p (-1) w1 = (d, w2)" by (metis prod.collapse)
  note law = exists_law [OF laws(1) ex] delete_law [OF laws(1) del]
  have s: "s = ZOK \<or> s = ZNONODE"
    using laws(2) ex unfolding gc_answered_def by (metis fst_conv insertE singletonD)
  have d: "sv_node V w1 ?p \<noteq> None \<longrightarrow> d = ZOK"
    using laws(2) del unfolding gc_answered_def by (metis fst_conv)
  have step: "sv_node V (if s = ZOK \<and> stat_mtime st < e then w2 else w1) = spec_gc env {?p} (sv_node V w)"
    using law s d by (auto simp: e spec_gc_one store_rel_defs split: option.splits)
  have "gc_loop api zh e (n # nodes) w =
      gc_loop api zh e nodes (if s = ZOK \<and> stat_mtime st < e then w2 else w1)"
    using ex del by simp
  moreover have "spec_gc env (session_path ` set (n # nodes)) (sv_node V w) =
      spec_gc env (session_path ` set nodes) (spec_gc env {?p} (sv_node V w))"
    unfolding list.set image_insert by (rule spec_gc_insert)
  ultimately show ?case using Cons.IH step by metis
qed

end
