(* ===== verification/Session_State.thy ===== *)
theory Session_State
  imports Session
begin

text \<open>
  The state the session handlers share (persistent list, sessions, module data) as a transition
  system: one step per handler that returns, the struct that a refused locking read leaves before the
  bailout, the destructor of a persistent connection when no request uses it, and the removal of its entry by the engine. The invariant \<open>state_ok\<close> holds in every reachable state.
\<close>

definition session_ok :: "php_zookeeper_session \<Rightarrow> bool" where
  "session_ok s \<longleftrightarrow> (s_is_locked s \<longrightarrow> mutex_ok (s_lock s))"

definition heap_ok :: "'w php_state \<Rightarrow> bool" where
  "heap_ok st \<longleftrightarrow> (\<forall>p s. ps_heap st p = Some s \<longrightarrow> p < ps_fresh st \<and> session_ok s)"

definition plist_ok :: "int \<Rightarrow> 'w php_state \<Rightarrow> bool" where
  "plist_ok le st \<longleftrightarrow>
     (\<forall>key ty p. ps_plist st key = Some (ty, Some p) \<longrightarrow> ty = le \<and> ps_heap st p \<noteq> None) \<and>
     (\<forall>key key' ty ty' p. ps_plist st key = Some (ty, Some p) \<longrightarrow> ps_plist st key' = Some (ty', Some p) \<longrightarrow>
        key = key')"

definition state_ok :: "int \<Rightarrow> 'w php_state \<Rightarrow> bool" where
  "state_ok le st \<longleftrightarrow> heap_ok st \<and> plist_ok le st \<and>
     (\<forall>p. ps_mod_data st = Some p \<longrightarrow> ps_heap st p \<noteq> None)"

lemmas state_ok_defs = state_ok_def heap_ok_def plist_ok_def

definition initial_state :: "'w \<Rightarrow> 'w php_state" where
  "initial_state w = \<lparr>ps_world = w, ps_heap = (\<lambda>_. None), ps_fresh = 0, ps_plist = (\<lambda>_. None),
     ps_mod_data = None\<rparr>"

inductive handler_step :: "int \<Rightarrow> 'w zk_api \<Rightarrow> 'w php_state \<Rightarrow> 'w php_state \<Rightarrow> bool"
  for le api where
  step_open: "e_le_connection env = le \<Longrightarrow> ps_open_zookeeper env api st = Some (Ret (b, st')) \<Longrightarrow>
     handler_step le api st st'"
| step_read: "ps_read_zookeeper env api key st = Some (Ret (r, st')) \<Longrightarrow> handler_step le api st st'"
| step_write: "ps_write_zookeeper api key val st = Some (Ret (b, st')) \<Longrightarrow> handler_step le api st st'"
| step_destroy: "ps_destroy_zookeeper api key st = Some (Ret (b, st')) \<Longrightarrow> handler_step le api st st'"
| step_gc: "ps_gc_zookeeper env api st = Some (Ret (b, st')) \<Longrightarrow> handler_step le api st st'"
| step_close: "ps_close_zookeeper api st = Some (Ret (b, st')) \<Longrightarrow> handler_step le api st st'"
| step_refused: "ps_mod_data st = Some p \<Longrightarrow> ps_heap st p = Some s \<Longrightarrow>
     php_zookeeper_sess_lock env api s key (ps_world st) = Some (Ret (False, s', w)) \<Longrightarrow>
     handler_step le api st (put_session st p s' w)"
| step_dtor: "ps_mod_data st = None \<Longrightarrow> php_zookeeper_connection_dtor api key st = Ret st' \<Longrightarrow>
     handler_step le api st st'"
| step_forget: "ps_plist st key = Some (ty, None) \<Longrightarrow> handler_step le api st (st\<lparr>ps_plist := (ps_plist st)(key := None)\<rparr>)"

section \<open>Preservation\<close>

lemma with_session_Ret:
  "with_session st f = Some (Ret b) \<longleftrightarrow>
     (\<exists>p s. ps_mod_data st = Some p \<and> ps_heap st p = Some s \<and> f p s = Some (Ret b))"
  by (auto simp: with_session_def split: option.splits)

lemma with_session_ok:
  "state_ok le st \<Longrightarrow> ps_mod_data st = Some p \<Longrightarrow> \<exists>s. ps_heap st p = Some s \<and> with_session st f = f p s"
  by (auto simp: with_session_def state_ok_def)

lemma state_ok_world [simp]: "state_ok le (st\<lparr>ps_world := w\<rparr>) = state_ok le st"
  by (simp add: state_ok_defs)

lemma state_ok_put:
  assumes "state_ok le st" "ps_heap st p \<noteq> None" "session_ok s"
  shows "state_ok le (put_session st p s w)"
proof -
  have "p < ps_fresh st" using assms(1,2) by (auto simp: state_ok_defs)
  with assms show ?thesis
    unfolding state_ok_def by (simp add: put_session_def heap_ok_def plist_ok_def)
qed

lemma state_ok_mod_data:
  assumes "state_ok le st" "\<And>p. r = Some p \<Longrightarrow> ps_heap st p \<noteq> None"
  shows "state_ok le (st\<lparr>ps_mod_data := r\<rparr>)"
proof -
  have "heap_ok (st\<lparr>ps_mod_data := r\<rparr>)" "plist_ok le (st\<lparr>ps_mod_data := r\<rparr>)"
    using assms(1) by (simp_all add: state_ok_def heap_ok_def plist_ok_def)
  with assms(2) show ?thesis by (simp add: state_ok_def)
qed

lemma init_Ret:
  assumes "php_zookeeper_session_init env api path st = Some (Ret (r, st'))"
  shows "\<exists>zh w. r = Some (ps_fresh st) \<and>
    st' = (put_session st (ps_fresh st) (zeroed_session\<lparr>s_zk := zh\<rparr>) w)\<lparr>ps_fresh := Suc (ps_fresh st)\<rparr>"
  using assms
  by (auto simp: php_zookeeper_session_init_def Let_def efree_def xbind_eq_Ret
      split: prod.splits option.splits if_splits)

lemma connect_Ret:
  assumes "session_connect env api path st = Some (Ret (r, st'))"
  shows "\<exists>zh w. r = Some (ps_fresh st) \<and>
      st' = st\<lparr>ps_world := w, ps_fresh := Suc (ps_fresh st),
        ps_heap := (ps_heap st)(ps_fresh st \<mapsto> zeroed_session\<lparr>s_zk := zh\<rparr>),
        ps_plist := (ps_plist st)(plist_key env path \<mapsto> (e_le_connection env, Some (ps_fresh st)))\<rparr>"
proof -
  from assms obtain r1 st1 where init: "php_zookeeper_session_init env api path st = Some (Ret (r1, st1))"
    by (auto simp: session_connect_def xbind_eq_Ret)
  from init_Ret [OF this] obtain zh w where r: "r1 = Some (ps_fresh st)"
    and st1: "st1 = (put_session st (ps_fresh st) (zeroed_session\<lparr>s_zk := zh\<rparr>) w)\<lparr>ps_fresh := Suc (ps_fresh st)\<rparr>"
    by blast
  have "zeroed_session\<lparr>s_zk := zh, s_is_locked := False\<rparr> = zeroed_session\<lparr>s_zk := zh\<rparr>"
    by (simp add: zeroed_session_def)
  with assms init r st1 have "r = Some (ps_fresh st)"
    "st' = st\<lparr>ps_world := w, ps_fresh := Suc (ps_fresh st),
        ps_heap := (ps_heap st)(ps_fresh st \<mapsto> zeroed_session\<lparr>s_zk := zh\<rparr>),
        ps_plist := (ps_plist st)(plist_key env path \<mapsto> (e_le_connection env, Some (ps_fresh st)))\<rparr>"
    by (auto simp: session_connect_def put_session_def Let_def split: if_splits)
  then show ?thesis by blast
qed

lemma get_Ret:
  assumes "php_zookeeper_session_get env api path st = Some (Ret (r, st'))"
  obtains (reused) "ps_plist st (plist_key env path) = Some (e_le_connection env, r)" "st' = st"
  | (fresh) zh w where "r = Some (ps_fresh st)"
      "st' = st\<lparr>ps_world := w, ps_fresh := Suc (ps_fresh st),
        ps_heap := (ps_heap st)(ps_fresh st \<mapsto> zeroed_session\<lparr>s_zk := zh\<rparr>),
        ps_plist := (ps_plist st)(plist_key env path \<mapsto> (e_le_connection env, Some (ps_fresh st)))\<rparr>"
proof -
  from assms have "ps_plist st (plist_key env path) = Some (e_le_connection env, r) \<and> st' = st \<or>
      session_connect env api path st = Some (Ret (r, st'))"
    by (auto simp: php_zookeeper_session_get_def split: option.splits if_splits)
  then show thesis using reused fresh connect_Ret [of env api path st r st'] by blast
qed

lemma state_ok_fresh:
  assumes ok: "state_ok le st" and s: "session_ok s"
  shows "state_ok le (st\<lparr>ps_world := w, ps_fresh := Suc (ps_fresh st), ps_heap := (ps_heap st)(ps_fresh st \<mapsto> s),
    ps_plist := (ps_plist st)(key \<mapsto> (le, Some (ps_fresh st)))\<rparr>)" (is "state_ok le ?st")
proof -
  have heap: "ps_heap st (ps_fresh st) = None"
    using ok unfolding state_ok_def heap_ok_def by (metis not_None_eq less_irrefl)
  have "heap_ok ?st" using ok s by (auto simp: state_ok_def heap_ok_def less_Suc_eq)
  moreover have fresh: "ps_plist st k \<noteq> Some (ty, Some (ps_fresh st))" for k ty
    using ok heap unfolding state_ok_def plist_ok_def by metis
  have "plist_ok le ?st"
    unfolding plist_ok_def
  proof (intro conjI allI impI)
    fix k ty p
    assume "ps_plist ?st k = Some (ty, Some p)"
    then show "ty = le" "ps_heap ?st p \<noteq> None"
      using ok by (auto simp: state_ok_def plist_ok_def split: if_splits)
  next
    fix k k' ty ty' p
    assume a: "ps_plist ?st k = Some (ty, Some p)" "ps_plist ?st k' = Some (ty', Some p)"
    show "k = k'"
    proof (cases "p = ps_fresh st")
      case True
      with a fresh show ?thesis by (simp split: if_split_asm)
    next
      case False
      with a have "ps_plist st k = Some (ty, Some p)" "ps_plist st k' = Some (ty', Some p)"
        by (simp_all split: if_split_asm)
      with ok show ?thesis unfolding state_ok_def plist_ok_def by blast
    qed
  qed
  moreover have "\<forall>p. ps_mod_data ?st = Some p \<longrightarrow> ps_heap ?st p \<noteq> None"
    using ok by (auto simp: state_ok_def)
  ultimately show ?thesis by (simp add: state_ok_def)
qed

lemma zeroed_session_ok [simp]: "session_ok (zeroed_session\<lparr>s_zk := zh\<rparr>)"
  by (simp add: session_ok_def zeroed_session_def)

lemma open_ok:
  assumes ok: "state_ok le st" and le: "e_le_connection env = le"
    and call: "ps_open_zookeeper env api st = Some (Ret (b, st'))"
  shows "state_ok le st'"
proof -
  from call obtain r st1 where get: "php_zookeeper_session_get env api (e_save_path env) st = Some (Ret (r, st1))"
    and st': "st' = st1\<lparr>ps_mod_data := r\<rparr>"
    by (auto simp: ps_open_zookeeper_def xbind_eq_Ret split: option.splits)
  from get show ?thesis
  proof (cases rule: get_Ret)
    case reused
    then have "r = Some p \<Longrightarrow> ps_heap st p \<noteq> None" for p
      using ok by (auto simp: state_ok_def plist_ok_def)
    with state_ok_mod_data [OF ok] st' reused(2) show ?thesis by blast
  next
    case (fresh zh w)
    with state_ok_fresh [OF ok zeroed_session_ok [of zh], where w = w and key = "plist_key env (e_save_path env)"] le st' have "state_ok le st1" by simp
    moreover have "ps_heap st1 (ps_fresh st) \<noteq> None" using fresh(2) by simp
    ultimately show ?thesis using state_ok_mod_data [of le st1 r] fresh(1) st' by simp
  qed
qed

lemma read_ok:
  assumes ok: "state_ok le st" and call: "ps_read_zookeeper env api key st = Some (Ret (r, st'))"
  shows "state_ok le st'"
proof -
  from call obtain p s s1 w1 w2 where p: "ps_mod_data st = Some p" "ps_heap st p = Some s"
    and l: "read_lock env api s key (ps_world st) = Some (Ret (True, s1, w1))"
    and st': "st' = put_session st p (s1\<lparr>s_path := session_path key\<rparr>) w2"
    by (auto simp: ps_read_zookeeper_def with_session_Ret xbind_eq_Ret Let_def split: if_splits)
  have "session_ok s" using ok p(2) by (auto simp: state_ok_defs)
  with l have "session_ok s1"
    by (auto simp: session_ok_def read_lock_def dest: sess_lock_Ret split: if_splits)
  then have "session_ok (s1\<lparr>s_path := session_path key\<rparr>)" by (simp add: session_ok_def)
  with ok p st' show ?thesis by (auto intro: state_ok_put)
qed

lemma close_exact:
  assumes "state_ok le st" "ps_mod_data st = Some p" "ps_heap st p = Some s"
  shows "if s_is_locked s
     then \<exists>r m1 w1 path m2. zkr_lock_unlock api (s_lock s) (ps_world st) = Ret (r, m1, w1) \<and> m_path m1 = Str path \<and>
       zkr_lock_destroy (m1\<lparr>m_path := Freed\<rparr>) = Ret (0, m2) \<and> m_pmutex m2 = PUninit \<and>
       ps_close_zookeeper api st = Some (Ret (True,
         st\<lparr>ps_heap := (ps_heap st)(p \<mapsto> s\<lparr>s_lock := m2, s_is_locked := False\<rparr>), ps_world := w1, ps_mod_data := None\<rparr>))
     else ps_close_zookeeper api st = Some (Ret (True, st\<lparr>ps_mod_data := None\<rparr>))"
proof (cases "s_is_locked s")
  case False
  with assms show ?thesis by (simp add: ps_close_zookeeper_def with_session_def put_session_def fun_upd_idem)
next
  case True
  with assms have "mutex_ok (s_lock s)" by (auto simp: state_ok_defs session_ok_def)
  from unlock_ok [OF this, of api "ps_world st"] obtain r m1 w1 where
    u: "zkr_lock_unlock api (s_lock s) (ps_world st) = Ret (r, m1, w1)" "mutex_ok m1" by blast
  from u(2) obtain path where path: "m_path m1 = Str path" by (auto simp: mutex_defs)
  from u(2) have "m_pmutex (m1\<lparr>m_path := Freed\<rparr>) = PUnlocked \<and> m_id (m1\<lparr>m_path := Freed\<rparr>) \<noteq> Freed \<and>
      m_ownerid (m1\<lparr>m_path := Freed\<rparr>) \<noteq> Freed" by (auto simp: mutex_ok_def strings_ok_def)
  from destroy_ok [OF disjI2 [OF this]] obtain m2 where
    "zkr_lock_destroy (m1\<lparr>m_path := Freed\<rparr>) = Ret (0, m2)" "m_pmutex m2 = PUninit" by blast
  with u path True assms show ?thesis
    by (auto simp: ps_close_zookeeper_def with_session_def put_session_def)
qed

lemma close_Ret:
  assumes "state_ok le st" "ps_mod_data st = Some p" "ps_heap st p = Some s"
  shows "\<exists>s1 w1. ps_close_zookeeper api st = Some (Ret (True, (put_session st p s1 w1)\<lparr>ps_mod_data := None\<rparr>)) \<and>
    \<not> s_is_locked s1 \<and> s_zk s1 = s_zk s"
proof (cases "s_is_locked s")
  case True
  with close_exact [OF assms, of api] obtain w1 m2 where "ps_close_zookeeper api st = Some (Ret (True,
      (put_session st p (s\<lparr>s_lock := m2, s_is_locked := False\<rparr>) w1)\<lparr>ps_mod_data := None\<rparr>))"
    by (auto simp: put_session_def)
  then show ?thesis by (intro exI conjI, assumption) simp_all
next
  case False
  with close_exact [OF assms, of api] assms(3) have "ps_close_zookeeper api st = Some (Ret (True,
      (put_session st p s (ps_world st))\<lparr>ps_mod_data := None\<rparr>))"
    by (simp add: put_session_def fun_upd_idem)
  with False show ?thesis by blast
qed

lemma dtor_ok:
  assumes ok: "state_ok le st" and "ps_mod_data st = None"
    and call: "php_zookeeper_connection_dtor api key st = Ret st'"
  shows "state_ok le st'"
proof -
  consider "st' = st" | ty p s where "ps_plist st key = Some (ty, Some p)" "ps_heap st p = Some s"
    "st' = st\<lparr>ps_world := zookeeper_close api (s_zk s) (ps_world st),
            ps_heap := (ps_heap st)(p := None), ps_plist := (ps_plist st)(key \<mapsto> (ty, None))\<rparr>"
    using call by (auto simp: php_zookeeper_connection_dtor_def split: option.splits prod.splits)
  then show ?thesis
  proof cases
    case 2
    have other: "q \<noteq> p" if "ps_plist st k = Some (ty', Some q)" "k \<noteq> key" for k ty' q
      using ok 2(1) that by (auto simp: state_ok_def plist_ok_def)
    have "heap_ok st'" using ok 2(3) by (auto simp: state_ok_def heap_ok_def)
    moreover have "plist_ok le st'" using ok 2(3) other unfolding state_ok_def plist_ok_def by auto
    ultimately show ?thesis using 2(3) assms(2) by (simp add: state_ok_def)
  qed (use ok in simp)
qed

lemma handler_step_ok: "handler_step le api st st' \<Longrightarrow> state_ok le st \<Longrightarrow> state_ok le st'"
proof (induction rule: handler_step.induct)
  case (step_close st b st')
  then obtain p s where p: "ps_mod_data st = Some p" "ps_heap st p = Some s"
    by (auto simp: ps_close_zookeeper_def with_session_Ret)
  from close_Ret [OF step_close(2) p, of api] step_close p show ?case
    by (auto intro!: state_ok_mod_data state_ok_put simp: session_ok_def)
next
  case (step_refused st p s env key s' w)
  then have "session_ok s'" using sess_lock_Ret by (fastforce simp: session_ok_def)
  with step_refused show ?case by (intro state_ok_put) simp_all
next
  case (step_forget st key ty)
  then show ?case by (auto simp: state_ok_defs)
qed (auto intro: open_ok read_ok dtor_ok
    simp: ps_write_zookeeper_def ps_destroy_zookeeper_def ps_gc_zookeeper_def with_session_Ret xbind_eq_Ret Let_def
      split_beta)

lemma reachable_ok: "(handler_step le api)\<^sup>*\<^sup>* (initial_state w) st \<Longrightarrow> state_ok le st"
proof (induction rule: rtranclp_induct)
  case base
  then show ?case by (simp add: state_ok_defs initial_state_def)
qed (rule handler_step_ok)

end
