(* ===== verification/Session_Properties.thy ===== *)
theory Session_Properties
  imports Session_Store Session_State Lock_Properties
begin

text \<open>
  The properties of the session save handler. The concrete store \<open>store_api\<close> serves the
  witnesses only: a table of nodes and a clock, where every call is answered.
\<close>

section \<open>A concrete store\<close>

type_synonym store_world = "session_table \<times> int"

definition store_api :: "store_world zk_api" where
  "store_api = idle_api\<lparr>
     zoo_exists := (\<lambda>zh p b w. case fst w p of None \<Rightarrow> ((ZNONODE, no_stat), w)
       | Some (v, t) \<Rightarrow> ((ZOK, no_stat\<lparr>stat_mtime := t, stat_dataLength := int (length v)\<rparr>), w)),
     zoo_get := (\<lambda>zh p b l w. case fst w p of None \<Rightarrow> ((ZNONODE, '''', 0, no_stat), w)
       | Some (v, t) \<Rightarrow> ((ZOK, take (nat l) v, int (length (take (nat l) v)), no_stat), w)),
     zoo_create := (\<lambda>zh p v l acl fl sz w. if fst w p = None
       then ((ZOK, p), ((fst w)(p \<mapsto> (case v of None \<Rightarrow> '''' | Some x \<Rightarrow> x, snd w)), snd w))
       else ((ZNODEEXISTS, ''''), w)),
     zoo_set := (\<lambda>zh p v l ver w. if fst w p = None then (ZNONODE, w)
       else (ZOK, ((fst w)(p \<mapsto> (case v of None \<Rightarrow> '''' | Some x \<Rightarrow> x, snd w)), snd w))),
     zoo_delete := (\<lambda>zh p ver w. if fst w p = None then (ZNONODE, w)
       else (ZOK, ((fst w)(p := None), snd w)))\<rparr>"

definition sim_view :: "store_world store_view" where
  "sim_view = \<lparr>sv_node = fst, sv_clock = snd\<rparr>"

lemma sim_view_simps [simp]: "sv_node sim_view w = fst w" "sv_clock sim_view w = snd w"
  by (simp_all add: sim_view_def)

lemma store_api_simps [simp]:
  "zoo_exists store_api zh p b w = (case fst w p of None \<Rightarrow> ((ZNONODE, no_stat), w)
     | Some (v, t) \<Rightarrow> ((ZOK, no_stat\<lparr>stat_mtime := t, stat_dataLength := int (length v)\<rparr>), w))"
  "zoo_get store_api zh p b l w = (case fst w p of None \<Rightarrow> ((ZNONODE, '''', 0, no_stat), w)
     | Some (v, t) \<Rightarrow> ((ZOK, take (nat l) v, int (length (take (nat l) v)), no_stat), w))"
  "zoo_create store_api zh p v l acl fl sz w = (if fst w p = None
     then ((ZOK, p), ((fst w)(p \<mapsto> (case v of None \<Rightarrow> '''' | Some x \<Rightarrow> x, snd w)), snd w))
     else ((ZNODEEXISTS, ''''), w))"
  "zoo_set store_api zh p v l ver w = (if fst w p = None then (ZNONODE, w)
     else (ZOK, ((fst w)(p \<mapsto> (case v of None \<Rightarrow> '''' | Some x \<Rightarrow> x, snd w)), snd w)))"
  "zoo_delete store_api zh p ver w = (if fst w p = None then (ZNONODE, w)
     else (ZOK, ((fst w)(p := None), snd w)))"
  by (simp_all add: store_api_def)

lemma store_api_laws:
  "store_laws store_api zh sim_view" "exists_answers store_api zh" "delete_answers store_api zh sim_view"
  "get_answers store_api zh sim_view" "gc_answered store_api zh sim_view"
proof -
  have "exists_laws store_api zh sim_view" "get_laws store_api zh sim_view" "create_laws store_api zh sim_view"
    "set_laws store_api zh sim_view" "delete_laws store_api zh sim_view"
    by (auto simp: exists_laws_def get_laws_def create_laws_def set_laws_def delete_laws_def store_rel_defs
        split: option.splits if_splits)
  then show "store_laws store_api zh sim_view" by (simp add: store_laws_def)
qed (auto simp: exists_answers_def delete_answers_def get_answers_def gc_answered_def split: option.splits)

definition sim_session :: php_zookeeper_session where
  "sim_session = zeroed_session\<lparr>s_zk := 1, s_path := session_path ''abc''\<rparr>"

definition sim_env :: php_env where
  "sim_env = \<lparr>g_recv_timeout = 10000, g_session_lock = False, g_sess_lock_wait = 150000,
     e_max_execution_time = 0, e_request_time = 5000, e_gc_maxlifetime = 1440, e_save_path = ''h:2181'',
     e_le_connection = 7, e_hash_update_fails = False, e_spprintf = (\<lambda>n s. s)\<rparr>"

definition sim_state :: "session_table \<Rightarrow> store_world php_state" where
  "sim_state t = \<lparr>ps_world = (t, 4000000), ps_heap = [0 \<mapsto> sim_session], ps_fresh = 1,
     ps_plist = (\<lambda>_. None), ps_mod_data = Some 0\<rparr>"

lemma sim_state_simps [simp]:
  "ps_mod_data (sim_state t) = Some 0" "ps_heap (sim_state t) 0 = Some sim_session"
  "ps_world (sim_state t) = (t, 4000000)" "s_zk sim_session = 1" "s_path sim_session = session_path ''abc''"
  by (simp_all add: sim_state_def sim_session_def)

lemma sim_env_simps [simp]: "g_session_lock sim_env = False" "expiry_fits sim_env"
  "expiration_time_of sim_env = Ret 3560000" "expired sim_env t \<longleftrightarrow> t < 3560000"
  "lock_maxwait_of sim_env = 30" "lock_wait_of sim_env = 150000" "e_spprintf sim_env n s = s"
  by (simp_all add: sim_env_def expiry_fits_def expiration_time expired_def lock_maxwait_of_def lock_wait_of_def)

section \<open>The store\<close>

lemma read_Ret:
  assumes "ps_read_zookeeper env api key st = Some (Ret (r, st'))"
    and "ps_mod_data st = Some p" "ps_heap st p = Some s"
  obtains s1 w1 w2 where "read_lock env api s key (ps_world st) = Some (Ret (True, s1, w1))" "s_zk s1 = s_zk s"
    "read_node env api (s1\<lparr>s_path := session_path key\<rparr>) w1 = Some (Ret (r, w2))"
    "st' = put_session st p (s1\<lparr>s_path := session_path key\<rparr>) w2"
proof -
  from assms obtain s1 w1 w2 where "read_lock env api s key (ps_world st) = Some (Ret (True, s1, w1))"
    "read_node env api (s1\<lparr>s_path := session_path key\<rparr>) w1 = Some (Ret (r, w2))"
    "st' = put_session st p (s1\<lparr>s_path := session_path key\<rparr>) w2"
    by (auto simp: ps_read_zookeeper_def with_session_def xbind_eq_Ret Let_def split: if_splits)
  moreover from this(1) have "s_zk s1 = s_zk s"
    by (auto simp: read_lock_def dest: sess_lock_Ret split: if_splits)
  ultimately show thesis using that by blast
qed

lemma read_table:
  assumes "ps_mod_data st = Some p" "ps_heap st p = Some s"
    and laws: "store_laws api (s_zk s) V" "exists_answers api (s_zk s)" "delete_answers api (s_zk s) V"
      "get_answers api (s_zk s) V"
    and call: "ps_read_zookeeper env api key st = Some (Ret (r, st'))"
  shows "\<exists>s1 w1. read_lock env api s key (ps_world st) = Some (Ret (True, s1, w1)) \<and>
    (r, sv_node V (ps_world st')) = spec_read env (session_path key) (sv_node V w1)"
  using call assms(1,2)
proof (cases rule: read_Ret)
  case (1 s1 w1 w2)
  with laws read_node_spec [of api "s1\<lparr>s_path := session_path key\<rparr>" V env w1 "Ret (r, w2)"]
  have "(r, sv_node V w2) = spec_read env (session_path key) (sv_node V w1)" by (auto split: if_splits)
  with 1 show ?thesis by (auto simp: put_session_def)
qed

text \<open>
  C11: reading a session refines the table operation: whatever replies were lost and retried, a
  read that returns gives the value of the node and its length if the node exists and is not
  expired, failure with a null value otherwise, and the only change is that an expired node is
  gone. Expired means that \<open>gc_maxlifetime\<close> seconds have gone by since the modification. With locking
  on, the table is the one found after the lock was taken.
\<close>

theorem read_refines_table:
  assumes "ps_mod_data st = Some p" "ps_heap st p = Some s"
    and "store_laws api (s_zk s) V" "exists_answers api (s_zk s)" "delete_answers api (s_zk s) V"
      "get_answers api (s_zk s) V"
    and "ps_read_zookeeper env api key st = Some (Ret (r, st'))"
  shows "\<exists>s1 w1. read_lock env api s key (ps_world st) = Some (Ret (True, s1, w1)) \<and>
    (r, sv_node V (ps_world st')) = spec_read env (session_path key) (sv_node V w1)"
  using assms by (rule read_table)

lemma retried_answer: "op w = ((s, r), w') \<Longrightarrow> s \<noteq> ZCONNECTIONLOSS \<Longrightarrow> retried op w = Some (Ret (s, r, w'))"
  by (rule retried_first) (simp_all add: lost_def)

definition one_node :: session_table where
  "one_node = [session_path ''abc'' \<mapsto> (''user|i:5;'', 3000000)]"

lemma sim_read:
  "ps_read_zookeeper sim_env store_api ''abc'' (sim_state one_node) =
     Some (Ret ((False, None, 0), put_session (sim_state one_node) 0 sim_session (\<lambda>_. None, 4000000)))"
proof -
  let ?p = "session_path ''abc''"
  have "retried (zoo_exists store_api 1 ?p True) (one_node, 4000000) =
      Some (Ret (ZOK, no_stat\<lparr>stat_mtime := 3000000, stat_dataLength := 9\<rparr>, (one_node, 4000000)))"
    "retried (status_op (zoo_delete store_api 1 ?p (-1))) (one_node, 4000000) =
      Some (Ret (ZOK, (), (\<lambda>_. None, 4000000)))"
    by (rule retried_answer; simp add: status_op_eq one_node_def)+
  then show ?thesis
    by (simp add: ps_read_zookeeper_def with_session_def read_lock_def read_node_def sim_session_def)
qed

theorem read_refines_table_witness:
  "spec_read sim_env (session_path ''abc'') one_node = ((False, None, 0), \<lambda>_. None)"
  using read_refines_table [OF _ _ store_api_laws(1-4) sim_read, of 0 sim_session]
  by (auto simp: read_lock_def put_session_def)

lemma write_Ret:
  assumes st: "ps_mod_data st = Some p" "ps_heap st p = Some s"
    and laws: "store_laws api (s_zk s) V"
    and call: "ps_write_zookeeper api key val st = Some (Ret (ok, st'))"
  shows "(if ok then written V (s_path s) val (ps_world st) (ps_world st')
     else reads_only V (ps_world st) (ps_world st') \<or> written V (s_path s) val (ps_world st) (ps_world st')) \<and>
    ps_heap st' = ps_heap st \<and> ps_mod_data st' = ps_mod_data st"
proof -
  from call st obtain e stat w1 s1 sx w2 where
    ex: "retried (zoo_exists api (s_zk s) (s_path s) True) (ps_world st) = Some (Ret (e, stat, w1))"
    and wr: "retried (write_op api (s_zk s) (s_path s) val) (e, w1) = Some (Ret (s1, (), (sx, w2)))"
    and st': "ok \<longleftrightarrow> s1 = ZOK" "st' = st\<lparr>ps_world := w2\<rparr>"
    by (auto simp: ps_write_zookeeper_def with_session_def xbind_eq_Ret)
  from ex have ro: "reads_only V (ps_world st) w1" by (rule retried_exists [OF laws]) simp
  from wr have "if s1 = ZOK then written V (s_path s) val w1 w2
      else reads_only V w1 w2 \<or> written V (s_path s) val w1 w2"
    by (rule retried_write [OF laws]) simp
  with ro st' show ?thesis by (auto intro: reads_only_trans reads_then_written split: if_splits)
qed

text \<open>
  C19: what a session write leaves behind. Success means that the node holds exactly the written
  value with a modification time not before the call; failure means that the table is unchanged
  or, after a lost reply, that the value was written all the same. No other node changes.
\<close>

theorem write_outcome:
  assumes st: "ps_mod_data st = Some p" "ps_heap st p = Some s"
    and laws: "store_laws api (s_zk s) V"
    and call: "ps_write_zookeeper api key val st = Some (Ret (ok, st'))"
  shows "(if ok then written V (s_path s) val (ps_world st) (ps_world st')
     else reads_only V (ps_world st) (ps_world st') \<or> written V (s_path s) val (ps_world st) (ps_world st')) \<and>
    ps_heap st' = ps_heap st \<and> ps_mod_data st' = ps_mod_data st"
  using assms by (rule write_Ret)

lemma sim_write:
  assumes "t (session_path ''abc'') = None"
  shows "ps_write_zookeeper store_api key val (sim_state t) =
     Some (Ret (True, (sim_state t)\<lparr>ps_world := (t(session_path ''abc'' \<mapsto> (val, 4000000)), 4000000)\<rparr>))"
proof -
  let ?p = "session_path ''abc''"
  have "retried (zoo_exists store_api 1 ?p True) (t, 4000000) = Some (Ret (ZNONODE, no_stat, (t, 4000000)))"
    using assms by (intro retried_answer) simp_all
  moreover have "retried (write_op store_api 1 ?p val) (ZNONODE, (t, 4000000)) =
      Some (Ret (ZOK, (), (ZOK, (t(?p \<mapsto> (val, 4000000)), 4000000))))"
    using assms by (intro retried_answer) (simp_all add: write_op_def)
  ultimately show ?thesis by (simp add: ps_write_zookeeper_def with_session_def)
qed

theorem write_outcome_witness:
  "written sim_view (session_path ''abc'') ''x'' (\<lambda>_. None, 4000000)
     ([session_path ''abc'' \<mapsto> (''x'', 4000000)], 4000000)"
  using write_outcome [OF _ _ store_api_laws(1) sim_write, of "\<lambda>_. None" 0 sim_session "''x''"] by simp









text \<open>
  C31: a lost reply to the writing call of \<open>ps_write\<close> turns a retried set into a create. If
  the node is there afterwards, the retry can not succeed: the handler never reports success, even
  where the value has been written.
\<close>

theorem write_after_lost_reply:
  assumes st: "ps_mod_data st = Some p" "ps_heap st p = Some s"
    and laws: "store_laws api (s_zk s) V"
    and ex: "retried (zoo_exists api (s_zk s) (s_path s) True) (ps_world st) = Some (Ret (e, stat, w1))"
    and first: "write_op api (s_zk s) (s_path s) val (e, w1) = ((ZCONNECTIONLOSS, ()), (ZCONNECTIONLOSS, w2))"
    and there: "sv_node V w2 (s_path s) \<noteq> None"
  shows "ps_write_zookeeper api key val st = None \<or>
    (\<exists>st'. ps_write_zookeeper api key val st = Some (Ret (False, st')))"
proof -
  let ?op = "write_op api (s_zk s) (s_path s) val"
  have "retry_loop ?op 3 (e, w1) = retry_loop ?op 3 (ZCONNECTIONLOSS, w2)"
    using first by (subst retry_loop.simps) simp
  then have eq: "retried ?op (e, w1) = retried ?op (ZCONNECTIONLOSS, w2)" by (simp add: retried_def)
  show ?thesis
  proof (cases "retried ?op (ZCONNECTIONLOSS, w2)")
    case None
    with eq ex st show ?thesis by (simp add: ps_write_zookeeper_def with_session_def)
  next
    case (Some out)
    with retried_write_stuck [OF laws Some _ there] obtain s' w' where
      "out = Ret (s', (), (s', w'))" "s' \<noteq> ZOK" by auto
    with Some eq ex st show ?thesis by (simp add: ps_write_zookeeper_def with_session_def)
  qed
qed

text \<open>A store that applies the first set and loses the reply; the flag is the third component.\<close>

definition lossy_api :: "(session_table \<times> bool) zk_api" where
  "lossy_api = idle_api\<lparr>
     zoo_exists := (\<lambda>zh p b w. case fst w p of None \<Rightarrow> ((ZNONODE, no_stat), w)
       | Some (v, t) \<Rightarrow> ((ZOK, no_stat\<lparr>stat_mtime := t, stat_dataLength := int (length v)\<rparr>), w)),
     zoo_get := (\<lambda>zh p b l w. ((ZSYSTEMERROR, '''', 0, no_stat), w)),
     zoo_create := (\<lambda>zh p v l acl fl sz w. if fst w p = None
       then ((ZOK, p), ((fst w)(p \<mapsto> (case v of None \<Rightarrow> '''' | Some x \<Rightarrow> x, 0)), snd w))
       else ((ZNODEEXISTS, ''''), w)),
     zoo_set := (\<lambda>zh p v l ver w. if fst w p = None then (ZNONODE, w)
       else (if snd w then ZCONNECTIONLOSS else ZOK,
             ((fst w)(p \<mapsto> (case v of None \<Rightarrow> '''' | Some x \<Rightarrow> x, 0)), False))),
     zoo_delete := (\<lambda>zh p ver w. (ZSYSTEMERROR, w))\<rparr>"

lemma lossy_api_laws: "store_laws lossy_api zh \<lparr>sv_node = fst, sv_clock = \<lambda>_. 0\<rparr>"
proof -
  let ?V = "\<lparr>sv_node = fst, sv_clock = \<lambda>_. 0\<rparr> :: (session_table \<times> bool) store_view"
  have "exists_laws lossy_api zh ?V" "get_laws lossy_api zh ?V" "create_laws lossy_api zh ?V"
    "set_laws lossy_api zh ?V" "delete_laws lossy_api zh ?V"
    by (auto simp: exists_laws_def get_laws_def create_laws_def set_laws_def delete_laws_def store_rel_defs
        lossy_api_def split: option.splits if_splits)
  then show ?thesis by (simp add: store_laws_def)
qed

theorem write_after_lost_reply_witness:
  "\<exists>st :: (session_table \<times> bool) php_state. ps_write_zookeeper lossy_api ''abc'' ''new'' st = None \<or>
    (\<exists>st'. ps_write_zookeeper lossy_api ''abc'' ''new'' st = Some (Ret (False, st')))"
proof -
  let ?st = "\<lparr>ps_world = (one_node, True), ps_heap = [0 \<mapsto> sim_session], ps_fresh = 1,
     ps_plist = (\<lambda>_. None), ps_mod_data = Some 0\<rparr> :: (session_table \<times> bool) php_state"
  let ?stat = "no_stat\<lparr>stat_mtime := 3000000, stat_dataLength := 9\<rparr>"
  have "retried (zoo_exists lossy_api (s_zk sim_session) (s_path sim_session) True) (ps_world ?st) =
      Some (Ret (ZOK, ?stat, (one_node, True)))"
    by (rule retried_answer) (simp_all add: lossy_api_def one_node_def)
  moreover have "write_op lossy_api (s_zk sim_session) (s_path sim_session) ''new'' (ZOK, (one_node, True)) =
      ((ZCONNECTIONLOSS, ()), (ZCONNECTIONLOSS, ([session_path ''abc'' \<mapsto> (''new'', 0)], False)))"
    by (simp add: write_op_def lossy_api_def one_node_def)
  ultimately have "ps_write_zookeeper lossy_api ''abc'' ''new'' ?st = None \<or>
      (\<exists>st'. ps_write_zookeeper lossy_api ''abc'' ''new'' ?st = Some (Ret (False, st')))"
    using write_after_lost_reply [OF _ _ lossy_api_laws, of ?st 0 sim_session ZOK ?stat "(one_node, True)" "''new''"
        "([session_path ''abc'' \<mapsto> (''new'', 0)], False)"] by simp
  then show ?thesis by blast
qed

text \<open>
  C20: the garbage collection removes no node but an expired listed one, whatever replies are lost;
  where every call is answered it removes exactly the expired ones among the listed names. That holds where
  the expiry can be computed in 64 bits; where it can not, the computation of the expiry is a
  signed overflow before anything is listed.
\<close>

theorem gc_removes_expired:
  assumes st: "ps_mod_data st = Some p" "ps_heap st p = Some s"
    and laws: "store_laws api (s_zk s) V"
    and list: "zoo_get_children api (s_zk s) PHP_ZK_PARENT_NODE False (ps_world st) = ((ZOK, nodes), w1)"
      "reads_only V (ps_world st) w1"
  shows "if expiry_fits env
    then \<exists>st'. ps_gc_zookeeper env api st = Some (Ret (True, st')) \<and>
      (\<forall>q. sv_node V (ps_world st') q = sv_node V (ps_world st) q \<or>
         q \<in> session_path ` set nodes \<and> sv_node V (ps_world st') q = None \<and>
         (\<exists>v t. sv_node V (ps_world st) q = Some (v, t) \<and> expired env t)) \<and>
      (gc_answered api (s_zk s) V \<longrightarrow> sv_node V (ps_world st') =
         spec_gc env (session_path ` set nodes) (sv_node V (ps_world st)))
    else ps_gc_zookeeper env api st = Some (Fault SignedOverflow)"
proof (cases "expiry_fits env")
  case True
  then obtain e where e: "expiration_time_of env = Ret e" "\<And>t. t < e \<longleftrightarrow> expired env t"
    by (rule expiration_time_fits) blast
  let ?w = "gc_loop api (s_zk s) e nodes w1"
  have "ps_gc_zookeeper env api st = Some (Ret (True, st\<lparr>ps_world := ?w\<rparr>))"
    using st list(1) e(1) by (simp add: ps_gc_zookeeper_def with_session_def)
  moreover have node: "sv_node V w1 = sv_node V (ps_world st)" using list(2) by (simp add: reads_only_def)
  ultimately show ?thesis
    using gc_loop_safe [OF laws, of e nodes w1] gc_loop_exact [OF laws _ e(2), of nodes w1] True
    by (auto simp: node e(2))
next
  case False
  with st show ?thesis by (simp add: ps_gc_zookeeper_def with_session_def expiration_time_overflow)
qed

definition gc_api :: "store_world zk_api" where
  "gc_api = store_api\<lparr>zoo_get_children := (\<lambda>zh p b w. ((ZOK, [''abc'', ''def'']), w))\<rparr>"

lemma gc_api_same:
  "zoo_exists gc_api = zoo_exists store_api" "zoo_get gc_api = zoo_get store_api"
  "zoo_create gc_api = zoo_create store_api" "zoo_set gc_api = zoo_set store_api"
  "zoo_delete gc_api = zoo_delete store_api"
  by (simp_all add: gc_api_def del: store_api_simps)

lemma gc_api_laws: "store_laws gc_api zh sim_view" "gc_answered gc_api zh sim_view"
  using store_api_laws(1,5) [of zh]
  unfolding store_laws_def exists_laws_def get_laws_def create_laws_def set_laws_def delete_laws_def
    gc_answered_def gc_api_same by blast+

theorem gc_removes_expired_witness:
  "\<exists>st'. ps_gc_zookeeper sim_env gc_api (sim_state one_node) = Some (Ret (True, st')) \<and>
     fst (ps_world st') (session_path ''abc'') = None"
  using gc_removes_expired [OF _ _ gc_api_laws(1), of "sim_state one_node" 0 sim_session
      "[''abc'', ''def'']" "(one_node, 4000000)" sim_env] gc_api_laws(2) [of 1]
  by (auto simp: gc_api_def spec_gc_def one_node_def)

section \<open>The life of a session\<close>

lemma retried_no_fault: "no_fault (retried op w)"
  using retried_Some [of op w] by (cases "retried op w") (auto simp: no_fault_def)

lemma read_node_faults:
  "if \<not> expiry_fits env \<and> (\<exists>stat w1. retried (zoo_exists api (s_zk s) (s_path s) True) w = Some (Ret (ZOK, stat, w1)))
   then read_node env api s w = Some (Fault SignedOverflow) else no_fault (read_node env api s w)"
proof (cases "expiry_fits env")
  case True
  then obtain e where "expiration_time_of env = Ret e" by (rule expiration_time_fits)
  with True show ?thesis
    unfolding read_node_def split_beta by (auto intro!: no_fault_intros retried_no_fault)
next
  case False
  note over = expiration_time_overflow [OF this]
  show ?thesis
  proof (cases "retried (zoo_exists api (s_zk s) (s_path s) True) w")
    case None
    then show ?thesis by (simp add: read_node_def no_fault_def)
  next
    case (Some out)
    with retried_Some obtain x stat w1 where "out = Ret (x, stat, w1)" by metis
    with Some False over show ?thesis by (auto simp: read_node_def)
  qed
qed

text \<open>
  C14: in every state that handlers that return, refused locking reads and connection destructors can reach, as long as a session is
  open (\<open>PS_GET_MOD_DATA\<close> is set) it exists, and: a write and a destroy return or keep retrying; a collection returns
  success, and a read without locking returns or keeps retrying, unless \<open>gc_maxlifetime\<close> is so far from the time of
  the request that the expiry leaves 64 bits, where the collection, and the read of a node that
  exists, are a signed overflow and nothing else. Close always returns success with the module data
  cleared: a lock that is marked as held is unlocked by \<open>zkr_lock_unlock\<close>, which returns, its path is an allocated string
  that is freed, and what is left is the destroyed mutex, with the flag down; without the mark nothing
  is called and the session is as it was.
\<close>

theorem handlers_never_fault:
  assumes reach: "(handler_step le api)\<^sup>*\<^sup>* (initial_state w) st" and "ps_mod_data st = Some p"
  shows "\<exists>s. ps_heap st p = Some s \<and>
    no_fault (ps_write_zookeeper api key val st) \<and> no_fault (ps_destroy_zookeeper api key st) \<and>
    (if expiry_fits env then \<exists>st'. ps_gc_zookeeper env api st = Some (Ret (True, st'))
     else ps_gc_zookeeper env api st = Some (Fault SignedOverflow)) \<and>
    (\<not> g_session_lock env \<longrightarrow>
      (if \<not> expiry_fits env \<and> (\<exists>stat w1. retried (zoo_exists api (s_zk s) (session_path key) True) (ps_world st) =
          Some (Ret (ZOK, stat, w1)))
       then ps_read_zookeeper env api key st = Some (Fault SignedOverflow)
       else no_fault (ps_read_zookeeper env api key st))) \<and>
    (if s_is_locked s
     then \<exists>r m1 w1 path m2. zkr_lock_unlock api (s_lock s) (ps_world st) = Ret (r, m1, w1) \<and> m_path m1 = Str path \<and>
       zkr_lock_destroy (m1\<lparr>m_path := Freed\<rparr>) = Ret (0, m2) \<and> m_pmutex m2 = PUninit \<and>
       ps_close_zookeeper api st = Some (Ret (True,
         st\<lparr>ps_heap := (ps_heap st)(p \<mapsto> s\<lparr>s_lock := m2, s_is_locked := False\<rparr>), ps_world := w1, ps_mod_data := None\<rparr>))
     else ps_close_zookeeper api st = Some (Ret (True, st\<lparr>ps_mod_data := None\<rparr>)))"
proof -
  have ok: "state_ok le st" using reach by (rule reachable_ok)
  with assms(2) obtain s where s: "ps_heap st p = Some s" by (auto simp: state_ok_def)
  note run = with_session_def assms(2) option.case s
  have "no_fault (ps_write_zookeeper api key val st)" "no_fault (ps_destroy_zookeeper api key st)"
    unfolding ps_write_zookeeper_def ps_destroy_zookeeper_def run split_beta
    by (intro no_fault_intros retried_no_fault)+
  moreover have "if expiry_fits env then \<exists>st'. ps_gc_zookeeper env api st = Some (Ret (True, st'))
      else ps_gc_zookeeper env api st = Some (Fault SignedOverflow)"
    by (auto simp: ps_gc_zookeeper_def run split_beta expiration_time_overflow elim: expiration_time_fits)
  moreover have "\<not> g_session_lock env \<Longrightarrow>
      if \<not> expiry_fits env \<and> (\<exists>stat w1. retried (zoo_exists api (s_zk s) (session_path key) True) (ps_world st) =
          Some (Ret (ZOK, stat, w1)))
       then ps_read_zookeeper env api key st = Some (Fault SignedOverflow)
       else no_fault (ps_read_zookeeper env api key st)"
    using read_node_faults [of env api "s\<lparr>s_path := session_path key\<rparr>" "ps_world st"]
    unfolding ps_read_zookeeper_def read_lock_def run
    by (auto simp: Let_def intro!: no_fault_xbind split: if_splits)
  ultimately show ?thesis using s close_exact [OF ok assms(2) s, of api] by (intro exI [of _ s]) blast
qed

lemma sim_open: "\<exists>st. ps_open_zookeeper sim_env idle_api (initial_state ()) = Some (Ret (True, st)) \<and>
    ps_mod_data st = Some 0"
  by (auto simp: ps_open_zookeeper_def php_zookeeper_session_get_def session_connect_def
      php_zookeeper_session_init_def initial_state_def put_session_def sim_env_def)

theorem handlers_never_fault_witness:
  "\<exists>st st'. ps_open_zookeeper sim_env idle_api (initial_state ()) = Some (Ret (True, st)) \<and>
     ps_close_zookeeper idle_api st = Some (Ret (True, st')) \<and> ps_mod_data st' = None \<and>
     ps_gc_zookeeper (sim_env\<lparr>e_gc_maxlifetime := long_max\<rparr>) idle_api st = Some (Fault SignedOverflow)"
proof -
  obtain st where st: "ps_open_zookeeper sim_env idle_api (initial_state ()) = Some (Ret (True, st))"
    "ps_mod_data st = Some 0" using sim_open by blast
  have "handler_step (e_le_connection sim_env) idle_api (initial_state ()) st"
    using st(1) by (rule step_open [OF refl])
  then have reach: "(handler_step (e_le_connection sim_env) idle_api)\<^sup>*\<^sup>* (initial_state ()) st" by simp
  have "\<not> expiry_fits (sim_env\<lparr>e_gc_maxlifetime := long_max\<rparr>)"
    by (simp add: expiry_fits_def sim_env_def long_max_def)
  with handlers_never_fault [OF reach st(2), of "''abc''" "[]" "sim_env\<lparr>e_gc_maxlifetime := long_max\<rparr>"] st(1)
  show ?thesis by (auto split: if_splits)
qed

text \<open>
  C32: the retry loops of the session handlers have no bound: \<open>retry_count\<close> is raised in every
  round before it is tested and lowered. Destroying a session comes back exactly if some attempt
  is answered, with the answer of the first such attempt.
\<close>

theorem destroy_retries_for_ever:
  fixes api :: "'w zk_api"
  assumes st: "ps_mod_data st = Some p" "ps_heap st p = Some s"
  defines "op \<equiv> status_op (zoo_delete api (s_zk s) (s_path s) (-1))"
  shows "(ps_destroy_zookeeper api key st = None \<longleftrightarrow> (\<forall>k. lost op k (ps_world st))) \<and>
    (\<forall>k. (\<forall>j<k. lost op j (ps_world st)) \<and> \<not> lost op k (ps_world st) \<longrightarrow>
       ps_destroy_zookeeper api key st = (let ((status, _), w') = op (tries op k (ps_world st))
         in Some (Ret (status = ZOK, st\<lparr>ps_world := w'\<rparr>))))"
proof (intro conjI allI impI)
  have eq: "ps_destroy_zookeeper api key st = xbind (retried op (ps_world st)) (\<lambda>(status, _, w1).
       Some (Ret (status = ZOK, st\<lparr>ps_world := w1\<rparr>)))"
    using st by (simp add: ps_destroy_zookeeper_def with_session_def op_def)
  show "ps_destroy_zookeeper api key st = None \<longleftrightarrow> (\<forall>k. lost op k (ps_world st))"
    unfolding retried_None [symmetric] eq using retried_Some [of op "ps_world st"]
    by (cases "retried op (ps_world st)") auto
  fix k
  assume "(\<forall>j<k. lost op j (ps_world st)) \<and> \<not> lost op k (ps_world st)"
  then have "retry_loop op 3 (ps_world st) = Some (op (tries op k (ps_world st)))"
    by (intro retry_loop_returns) auto
  then show "ps_destroy_zookeeper api key st = (let ((status, _), w') = op (tries op k (ps_world st))
         in Some (Ret (status = ZOK, st\<lparr>ps_world := w'\<rparr>)))"
    by (simp add: eq retried_def split_beta)
qed

definition dead_api :: "unit zk_api" where
  "dead_api = idle_api\<lparr>zoo_delete := (\<lambda>zh p v w. (ZCONNECTIONLOSS, w))\<rparr>"

theorem destroy_retries_for_ever_witness:
  "\<exists>st. ps_destroy_zookeeper dead_api ''abc'' st = None"
proof -
  let ?st = "\<lparr>ps_world = (), ps_heap = [0 \<mapsto> sim_session], ps_fresh = 1,
     ps_plist = (\<lambda>_. None), ps_mod_data = Some 0\<rparr> :: unit php_state"
  have "ps_mod_data ?st = Some 0" "ps_heap ?st 0 = Some sim_session" by simp_all
  from destroy_retries_for_ever [OF this, of dead_api]
  have "ps_destroy_zookeeper dead_api ''abc'' ?st = None" by (simp add: lost_def status_op_eq dead_api_def)
  then show ?thesis by blast
qed

text \<open>
  Opening a session reuses the persistent connection of its save path: after an open that
  succeeded, another open with the same save path gives the same session, whatever happened to
  the world meanwhile, and makes no library call.
\<close>

theorem open_reuses_connection:
  assumes "ps_open_zookeeper env api st = Some (Ret (True, st1))"
    and "ps_plist st2 = ps_plist st1"
  shows "ps_open_zookeeper env api' st2 = Some (Ret (True, st2\<lparr>ps_mod_data := ps_mod_data st1\<rparr>))"
proof -
  from assms(1) obtain r st' where get: "php_zookeeper_session_get env api (e_save_path env) st = Some (Ret (r, st'))"
    and r: "r \<noteq> None" "st1 = st'\<lparr>ps_mod_data := r\<rparr>"
    by (auto simp: ps_open_zookeeper_def xbind_eq_Ret split: option.splits)
  from get have "ps_plist st' (plist_key env (e_save_path env)) = Some (e_le_connection env, r)"
    by (cases rule: get_Ret) auto
  with r assms(2) show ?thesis
    by (auto simp: ps_open_zookeeper_def php_zookeeper_session_get_def)
qed

theorem open_reuses_connection_witness:
  "\<exists>st st'. ps_open_zookeeper sim_env idle_api (initial_state ()) = Some (Ret (True, st)) \<and>
     ps_open_zookeeper sim_env dead_api (st\<lparr>ps_mod_data := None\<rparr>) = Some (Ret (True, st')) \<and> ps_mod_data st' = Some 0"
proof -
  obtain st where "ps_open_zookeeper sim_env idle_api (initial_state ()) = Some (Ret (True, st))"
    "ps_mod_data st = Some 0" using sim_open by blast
  then show ?thesis using open_reuses_connection [of sim_env idle_api "initial_state ()" st
      "st\<lparr>ps_mod_data := None\<rparr>" dead_api] by auto
qed

text \<open>
  A connection that can not be set up does not end in the failure the handler means to
  report: the session was allocated with the persistent allocator and is released with
  \<open>efree\<close>, both when \<open>zookeeper_init\<close> fails and when the parent node can not be created.
\<close>

theorem failed_connect_bad_free:
  assumes new: "ps_plist st (plist_key env (e_save_path env)) = None"
    and fail: "zookeeper_init api (e_save_path env) None (to_int32 (g_recv_timeout env)) (ps_world st) = (None, w1) \<or>
      zookeeper_init api (e_save_path env) None (to_int32 (g_recv_timeout env)) (ps_world st) = (Some zh, w1) \<and>
      zoo_exists api zh PHP_ZK_PARENT_NODE True w1 = ((ZNONODE, stat), w2) \<and>
      zoo_create api zh PHP_ZK_PARENT_NODE None 0 (Some ZOO_OPEN_ACL_UNSAFE) 0 0 w2 = ((e, q), w3) \<and>
      e \<noteq> ZOK \<and> e \<noteq> ZCONNECTIONLOSS"
  shows "ps_open_zookeeper env api st = Some (Fault BadFree)"
proof -
  have "php_zookeeper_session_init env api (e_save_path env) st = Some (Fault BadFree)"
    using fail
  proof (elim disjE conjE)
    assume "zookeeper_init api (e_save_path env) None (to_int32 (g_recv_timeout env)) (ps_world st) = (None, w1)"
    then show ?thesis by (simp add: php_zookeeper_session_init_def efree_def)
  next
    assume a: "zookeeper_init api (e_save_path env) None (to_int32 (g_recv_timeout env)) (ps_world st) = (Some zh, w1)"
      "zoo_exists api zh PHP_ZK_PARENT_NODE True w1 = ((ZNONODE, stat), w2)"
      "zoo_create api zh PHP_ZK_PARENT_NODE None 0 (Some ZOO_OPEN_ACL_UNSAFE) 0 0 w2 = ((e, q), w3)"
      "e \<noteq> ZOK" "e \<noteq> ZCONNECTIONLOSS"
    from retried_answer [of "zoo_create api zh PHP_ZK_PARENT_NODE None 0 (Some ZOO_OPEN_ACL_UNSAFE) 0 0", OF a(3,5)] a
    show ?thesis
      by (simp add: php_zookeeper_session_init_def efree_def Let_def)
  qed
  with new show ?thesis
    by (simp add: ps_open_zookeeper_def php_zookeeper_session_get_def session_connect_def)
qed

theorem failed_connect_bad_free_witness:
  "ps_open_zookeeper sim_env (idle_api\<lparr>zookeeper_init := (\<lambda>h wt t w. (None, w))\<rparr>) (initial_state ()) =
     Some (Fault BadFree)"
  using failed_connect_bad_free [of "initial_state ()" sim_env "idle_api\<lparr>zookeeper_init := (\<lambda>h wt t w. (None, w))\<rparr>"]
  by (simp add: initial_state_def)

section \<open>Waiting for the lock\<close>

lemma lock_attempts_refused:
  assumes "\<And>m w. J m \<Longrightarrow> lock m w = Some (Ret (False, f (m, w))) \<and> J (fst (f (m, w)))" and "J m"
  shows "lock_attempts lock n m w =
    Some (Ret (False, (f ^^ nat (max 1 n)) (m, w)))"
  using assms(2)
proof (induction "nat (max 1 n)" arbitrary: n m w)
  case 0
  then show ?case by simp
next
  case (Suc k)
  obtain m' w' where f: "f (m, w) = (m', w')" by fastforce
  with assms(1) [OF Suc.prems, of w] have l: "lock m w = Some (Ret (False, m', w'))" "J m'" by auto
  show ?case
  proof (cases "n - 1 > 0")
    case True
    then have k: "k = nat (max 1 (n - 1))" "nat (max 1 n) = Suc (nat (max 1 (n - 1)))" using Suc.hyps(2) by auto
    from True l have "lock_attempts lock n m w = lock_attempts lock (n - 1) m' w'"
      by (subst lock_attempts.simps) simp
    also have "\<dots> = Some (Ret (False, (f ^^ nat (max 1 (n - 1))) (m', w')))"
      by (rule Suc.hyps(1) [OF k(1) l(2)])
    finally show ?thesis using f unfolding k(2) funpow_Suc_right o_apply by simp
  next
    case False
    then have "nat (max 1 n) = 1" by simp
    moreover from False l have "lock_attempts lock n m w = Some (Ret (False, m', w'))"
      by (subst lock_attempts.simps) simp
    ultimately show ?thesis using f by simp
  qed
qed

text \<open>
  C38: a session whose lock is never granted is given up after as many calls of
  \<open>zkr_lock_lock\<close> as the attempts computed from the settings, and after one call where that
  number is not positive; the mark that the lock is held stays as it was.
\<close>

theorem session_lock_gives_up:
  fixes api :: "'w zk_api"
  assumes refused: "\<And>m w. J m \<Longrightarrow> zkr_lock_lock api m w = Some (Ret (False, f (m, w))) \<and> J (fst (f (m, w)))"
    and start: "J m" and "zkr_lock_init (s_lock s) (s_zk s) (Str (lock_path_of env key)) (Some ZOO_OPEN_ACL_UNSAFE) = (0, m)"
    and attempts: "lock_attempts_of env = Ret n"
  shows "php_zookeeper_sess_lock env api s key w =
    (let (m', w') = (f ^^ nat (max 1 n)) (m, w) in Some (Ret (False, s\<lparr>s_lock := m'\<rparr>, w')))"
proof -
  have "lock_attempts (zkr_lock_lock api) n m w = Some (Ret (False, (f ^^ nat (max 1 n)) (m, w)))"
    by (rule lock_attempts_refused [of J "zkr_lock_lock api" f, OF refused start])
  with assms(3) attempts show ?thesis
    by (simp add: php_zookeeper_sess_lock_def split_beta)
qed

text \<open>A library whose listing always fails; it counts the calls.\<close>

definition refusing_api :: "nat zk_api" where
  "refusing_api = idle_api\<lparr>zoo_get_children := (\<lambda>zh p b n. ((ZSYSTEMERROR, []), Suc n))\<rparr>"

definition refused_ok :: "zkr_lock_mutex \<Rightarrow> bool" where
  "refused_ok m \<longleftrightarrow> m_pmutex m = PUnlocked \<and> (\<exists>p. m_path m = Str p) \<and> m_id m = Null"

lemma refusing_operation:
  "m_path m = Str p \<Longrightarrow> zkr_lock_operation refusing_api m n = Some (Ret (ZSYSTEMERROR, m, Suc n))"
proof -
  have "zoo_get_children refusing_api zh q b k = ((ZSYSTEMERROR, []), Suc k)" for zh q b k
    by (simp add: refusing_api_def)
  then show "m_path m = Str p \<Longrightarrow> ?thesis"
    by (simp add: zkr_lock_operation.simps [of refusing_api m n] lock_find_or_create_def retry_getchildren_def
        numeral_3_eq_3 split_beta)
qed

lemma refusing_lock:
  assumes "refused_ok m"
  shows "zkr_lock_lock refusing_api m n = Some (Ret (False, m, n + 4))"
proof -
  from assms obtain p where m: "m_pmutex m = PUnlocked" "m_path m = Str p" "m_id m = Null"
    by (auto simp: refused_ok_def)
  have "lock_op_loop refusing_api 4 ZCONNECTIONLOSS (m\<lparr>m_pmutex := PLocked\<rparr>) n =
      Some (Ret (ZSYSTEMERROR, m\<lparr>m_pmutex := PLocked\<rparr>, n + 4))"
    using m by (simp add: eval_nat_numeral refusing_operation)
  moreover have "m\<lparr>m_pmutex := PUnlocked\<rparr> = m" using m(1) by (cases m) simp
  moreover have "ensure_path refusing_api (m_zh m) p (m_acl m) 4 0 n = (0, n)" by (simp add: eval_nat_numeral)
  moreover have "zoo_exists refusing_api (m_zh m) p False n = ((0, no_stat), n)" by (simp add: refusing_api_def)
  ultimately show ?thesis using m
    by (simp add: zkr_lock_lock_def pthread_mutex_lock_def pthread_mutex_unlock_def zkr_lock_isowner_def)
qed

theorem session_lock_gives_up_witness:
  "\<exists>s'. php_zookeeper_sess_lock sim_env refusing_api sim_session ''abc'' 0 = Some (Ret (False, s', 800)) \<and>
     \<not> s_is_locked s'"
proof -
  let ?f = "\<lambda>(m :: zkr_lock_mutex, n :: nat). (m, n + 4)"
  let ?init = "zkr_lock_init (s_lock sim_session) (s_zk sim_session) (Str (lock_path_of sim_env ''abc''))
     (Some ZOO_OPEN_ACL_UNSAFE)"
  have "lock_attempts_of sim_env = Ret 200" by (simp add: lock_attempts_of_def c_div_def long_max_def)
  moreover have "refused_ok (snd ?init)" by (simp add: zkr_lock_init_def refused_ok_def)
  moreover have "?init = (0, snd ?init)" by (simp add: zkr_lock_init_def)
  moreover have "refused_ok m \<Longrightarrow> zkr_lock_lock refusing_api m w = Some (Ret (False, ?f (m, w))) \<and>
      refused_ok (fst (?f (m, w)))" for m w by (simp add: refusing_lock)
  ultimately have eq: "php_zookeeper_sess_lock sim_env refusing_api sim_session ''abc'' 0 =
     (let (m', w') = (?f ^^ nat (max 1 200)) (snd ?init, 0)
      in Some (Ret (False, sim_session\<lparr>s_lock := m'\<rparr>, w')))"
    by (intro session_lock_gives_up [of refused_ok refusing_api ?f]) auto
  have "(?f ^^ k) (m, n) = (m, n + 4 * k)" for k m n by (induction k) auto
  with eq show ?thesis by (simp add: sim_session_def zeroed_session_def)
qed

text \<open>
  The number of attempts spends the time budget and no more: with a positive pause the
  attempts times the pause fit \<open>max_execution_time\<close> (or 30 seconds) in microseconds and one more
  would not; 200 attempts with the default pause and no time limit; and the multiplication leaves
  \<open>long\<close> exactly from a limit of 9223372036855 seconds on.
\<close>

theorem lock_attempts_budget:
  "(lock_attempts_of env = Fault SignedOverflow \<longleftrightarrow> 9223372036855 \<le> lock_maxwait_of env) \<and>
   (\<forall>n. lock_attempts_of env = Ret n \<and> 0 < lock_wait_of env \<longrightarrow>
      n * lock_wait_of env \<le> lock_maxwait_of env * 1000000 \<and>
      lock_maxwait_of env * 1000000 < (n + 1) * lock_wait_of env) \<and>
   (e_max_execution_time env \<le> 0 \<and> g_sess_lock_wait env = 0 \<longrightarrow> lock_attempts_of env = Ret 200)"
proof (intro conjI allI impI)
  show "lock_attempts_of env = Fault SignedOverflow \<longleftrightarrow> 9223372036855 \<le> lock_maxwait_of env"
    by (auto simp: lock_attempts_of_def long_max_def)
next
  fix n
  assume a: "lock_attempts_of env = Ret n \<and> 0 < lock_wait_of env"
  let ?a = "lock_maxwait_of env * 1000000" and ?b = "lock_wait_of env"
  have "0 < lock_maxwait_of env" by (simp add: lock_maxwait_of_def)
  with a have n: "n = ?a div ?b" by (auto simp: lock_attempts_of_def c_div_def split: if_splits)
  have "?a mod ?b < ?b" "0 \<le> ?a mod ?b" using a by simp_all
  moreover have "?a = n * ?b + ?a mod ?b" using n by simp
  ultimately show "n * ?b \<le> ?a" "?a < (n + 1) * ?b" by (simp_all add: distrib_right)
next
  assume "e_max_execution_time env \<le> 0 \<and> g_sess_lock_wait env = 0"
  then show "lock_attempts_of env = Ret 200"
    by (simp add: lock_attempts_of_def lock_maxwait_of_def lock_wait_of_def c_div_def long_max_def)
qed

theorem lock_attempts_budget_witness:
  "lock_attempts_of (sim_env\<lparr>g_sess_lock_wait := 0\<rparr>) = Ret 200 \<and>
   lock_attempts_of (sim_env\<lparr>e_max_execution_time := 9223372036855\<rparr>) = Fault SignedOverflow"
  using lock_attempts_budget [of "sim_env\<lparr>g_sess_lock_wait := 0\<rparr>"]
    lock_attempts_budget [of "sim_env\<lparr>e_max_execution_time := 9223372036855\<rparr>"]
  by (simp add: sim_env_def lock_maxwait_of_def)

section \<open>Names of nodes\<close>

lemma session_path_short: "length key \<le> 499 \<Longrightarrow> session_path key = PHP_ZK_PARENT_NODE @ ''/'' @ key"
  unfolding session_path_def by (rule snprintf_fits) simp

text \<open>
  Session keys of at most 499 bytes have nodes of their own, longer ones are cut and
  share a node with every key that agrees on the first 499 bytes; and the lock directory of a session
  key is the very node that holds the data of the session whose key ends in \<open>-lock\<close>.
\<close>

theorem session_nodes:
  "(length k \<le> 499 \<and> length k' \<le> 499 \<longrightarrow> (session_path k = session_path k' \<longleftrightarrow> k = k')) \<and>
   (499 \<le> length k \<longrightarrow> session_path k = session_path (take 499 k)) \<and>
   (length k \<le> 494 \<and> e_spprintf env (512 + 5) (PHP_ZK_PARENT_NODE @ ''/'' @ k @ ''-lock'') =
      PHP_ZK_PARENT_NODE @ ''/'' @ k @ ''-lock'' \<longrightarrow>
    lock_path_of env k = session_path (k @ ''-lock''))"
proof (intro conjI impI)
  show "session_path k = session_path k' \<longleftrightarrow> k = k'" if "length k \<le> 499 \<and> length k' \<le> 499"
    using that by (simp add: session_path_short)
  show "session_path k = session_path (take 499 k)" if "499 \<le> length k"
    using that by (simp add: session_path_def snprintf_def)
  show "lock_path_of env k = session_path (k @ ''-lock'')"
    if "length k \<le> 494 \<and> e_spprintf env (512 + 5) (PHP_ZK_PARENT_NODE @ ''/'' @ k @ ''-lock'') =
      PHP_ZK_PARENT_NODE @ ''/'' @ k @ ''-lock''"
    using that by (simp add: session_path_short lock_path_of_def)
qed

theorem session_nodes_witness:
  "lock_path_of sim_env ''abc'' = session_path ''abc-lock'' \<and>
   session_path (replicate 499 (CHR ''a'') @ ''b'') = session_path (replicate 499 (CHR ''a'') @ ''c'')"
  using session_nodes [of "''abc''" "''abc''" sim_env]
    session_nodes [of "replicate 499 (CHR ''a'') @ ''b''" "[]" sim_env]
    session_nodes [of "replicate 499 (CHR ''a'') @ ''c''" "[]" sim_env] by simp

end
