(* ===== verification/Module_Properties.thy ===== *)
theory Module_Properties
  imports Module Class_Properties Session_Properties
begin

text \<open>The properties of the module's tables and of its start.\<close>

lemma constant_names:
  "map fst (php_zk_register_constants c) = map fst (php_zk_register_constants (\<lambda>_. 0))"
  by (simp add: php_zk_register_constants_def)

lemma constant_names_documented:
  "set (map fst (php_zk_register_constants (\<lambda>_. 0))) \<subseteq> set (map fst api_constants)"
  "set (map fst api_constants) \<subseteq> set (map fst (php_zk_register_constants (\<lambda>_. 0)))"
  by (simp_all add: php_zk_register_constants_def api_constants_def)

text \<open>
  The class gets exactly the constants that the stub file documents, each declared once, under
  the library symbol of its name; \<open>NOTCONNECTED_STATE\<close> alone has a value of its own, 999.
\<close>

theorem class_constants:
  "distinct (map fst (php_zk_register_constants c)) \<and>
   set (map fst (php_zk_register_constants c)) = set (map fst api_constants) \<and>
   (\<forall>(n, v)\<in>set (php_zk_register_constants c).
      v = (if n = ''NOTCONNECTED_STATE'' then 999 else c (''ZOO_'' @ n)) \<or> v = c (''Z'' @ n))"
proof (intro conjI)
  show "distinct (map fst (php_zk_register_constants c))" by (simp add: php_zk_register_constants_def)
  show "set (map fst (php_zk_register_constants c)) = set (map fst api_constants)"
    unfolding constant_names [of c] by (rule equalityI [OF constant_names_documented])
  show "\<forall>(n, v)\<in>set (php_zk_register_constants c).
      v = (if n = ''NOTCONNECTED_STATE'' then 999 else c (''ZOO_'' @ n)) \<or> v = c (''Z'' @ n)"
    by (simp add: php_zk_register_constants_def)
qed

theorem class_constants_witness:
  "(''NOTCONNECTED_STATE'', 999) \<in> set (php_zk_register_constants (\<lambda>_. 0)) \<and>
   (999 :: int) = (if ''NOTCONNECTED_STATE'' = ''NOTCONNECTED_STATE'' then 999 else 0) \<and>
   distinct (map fst (php_zk_register_constants (\<lambda>_. 0)))"
  using class_constants [of "\<lambda>_. 0"] by (simp add: php_zk_register_constants_def)

text \<open>
  After the module's start the settings are the declared defaults, the callback table is empty
  and the class constants are declared; a \<open>connect\<close> without a timeout then waits 10000
  milliseconds, and with no limit on the execution time a session that is locked by another
  request is tried 200 times.
\<close>

theorem module_defaults:
  assumes laws: "hash_laws H V" and parse: "parse ''10000'' = 10000" "parse ''1'' = 1" "parse ''150000'' = 150000"
  shows "let m' = minit_zookeeper H api c parse le m; g = ms_globals m' in
    mg_recv_timeout g = 10000 \<and> mg_session_lock g \<and> mg_sess_lock_wait g = 150000 \<and>
    entries V (mg_callbacks g) = [] \<and> ms_constants m' = php_zk_register_constants c \<and> ms_le_connection m' = le \<and>
    zookeeper_connect H api2 (mg_recv_timeout g) this (Some (host, fci, None)) st =
      php_zookeeper_connect_impl H api2 this host fci 10000 st \<and>
    (e_max_execution_time env \<le> 0 \<longrightarrow> lock_attempts_of (env_of_globals g env) = Ret 200)"
proof -
  let ?m = "minit_zookeeper H api c parse le m"
  let ?g = "ms_globals ?m"
  have g: "?g = (php_zk_init_globals H (ms_globals m))\<lparr>mg_recv_timeout := 10000, mg_session_lock := True,
      mg_sess_lock_wait := 150000\<rparr>"
    using parse by (simp add: minit_zookeeper_def Let_def register_ini_entries_eq)
  moreover have "e_max_execution_time env \<le> 0 \<longrightarrow> lock_attempts_of (env_of_globals ?g env) = Ret 200"
    by (simp add: g env_of_globals_def lock_attempts_of_def lock_maxwait_of_def lock_wait_of_def c_div_def long_max_def)
  ultimately show ?thesis
    using hash_lawsD(1) [OF laws]
    by (simp add: minit_zookeeper_def Let_def php_zk_init_globals_def zookeeper_connect_def with_args_def)
qed

definition digits_value :: "string \<Rightarrow> int" where
  "digits_value s = foldl (\<lambda>n ch. 10 * n + (int (of_char ch) - 48)) 0 s"

definition blank_module :: "(unit, list_table) module_state" where
  "blank_module = \<lparr>ms_world = (), ms_globals = \<lparr>mg_callbacks = ([(4, 4)], 9), mg_recv_timeout = 0,
     mg_session_lock = False, mg_sess_lock_wait = 0\<rparr>, ms_le_connection = 0, ms_class = None, ms_constants = [],
     ms_session_module = None\<rparr>"

theorem module_defaults_witness:
  "lock_attempts_of (env_of_globals
     (ms_globals (minit_zookeeper list_hash idle_api (\<lambda>_. 0) digits_value 7 blank_module)) sim_env) = Ret 200"
proof -
  have "digits_value ''10000'' = 10000" "digits_value ''1'' = 1" "digits_value ''150000'' = 150000"
    by (simp_all add: digits_value_def)
  from module_defaults [OF list_hash_laws this, of idle_api "\<lambda>_. 0" 7 blank_module idle_api 0 "[]" None sim_conn sim_env]
  show ?thesis by (simp add: sim_env_def Let_def)
qed

section \<open>The version row\<close>

lemma length_printf_ld: "0 \<le> n \<Longrightarrow> n < 10 ^ 9 \<Longrightarrow> length (printf_ld n) \<le> 9"
proof -
  assume "0 \<le> n" "n < 10 ^ 9"
  then have "nat n < 10 ^ 9" "\<not> n < 0" by (simp_all add: nat_less_iff)
  with pad0_to_base [of 10 "nat n" 9] show ?thesis by (simp add: printf_ld_def)
qed

text \<open>A version of three numbers with up to nine digits each fits the buffer of \<open>PHP_MINFO\<close>.\<close>

lemma minfo_version_uncut:
  assumes "\<And>s. s \<in> {''ZOO_MAJOR_VERSION'', ''ZOO_MINOR_VERSION'', ''ZOO_PATCH_VERSION''} \<Longrightarrow> 0 \<le> c s \<and> c s < 10 ^ 9"
  shows "[''libzookeeper version'', printf_ld (c ''ZOO_MAJOR_VERSION'') @ ''.'' @ printf_ld (c ''ZOO_MINOR_VERSION'') @ ''.'' @
    printf_ld (c ''ZOO_PATCH_VERSION'')] \<in> set (minfo_zookeeper c)"
proof -
  have "length (printf_ld (c s)) \<le> 9" if "s \<in> {''ZOO_MAJOR_VERSION'', ''ZOO_MINOR_VERSION'', ''ZOO_PATCH_VERSION''}" for s
    using assms [OF that] by (intro length_printf_ld) simp_all
  from this [of "''ZOO_MAJOR_VERSION''"] this [of "''ZOO_MINOR_VERSION''"] this [of "''ZOO_PATCH_VERSION''"]
  show ?thesis by (simp add: minfo_zookeeper_def snprintf_fits)
qed

end
