(* ===== verification/Lifecycle.thy ===== *)
theory Lifecycle
  imports Module_Properties
begin

text \<open>
  The life of a PHP process that has loaded the extension: the module's start, any number of
  requests through the hooks of the module entry, and the module's end. A handle or a record
  that outlives its request would show here.
\<close>

section \<open>Requests in a row\<close>

text \<open>The class's part of the state after the module's start.\<close>

definition process_start :: "('w, 'h) module_state \<Rightarrow> ('w, 'h) zk_state" where
  "process_start m = \<lparr>z_world = ms_world m, z_cbs = (\<lambda>_. None), z_fresh = 0,
     z_table = mg_callbacks (ms_globals m), z_objs = (\<lambda>_. None), z_next_obj = 0, z_nulled = []\<rparr>"

text \<open>After the shutdown hook the engine destroys the objects that are left, in some order.\<close>

fun free_objects ::
  "'h hash_api \<Rightarrow> 'w zk_api \<Rightarrow> nat list \<Rightarrow> ('w, 'h) zk_state \<Rightarrow> ('w, 'h) zk_state outcome" where
  "free_objects H api [] st = Ret st"
| "free_objects H api (ob # obs) st = obind (php_zk_free_storage H api ob st) (free_objects H api obs)"

definition run_hook :: "('a \<Rightarrow> 'a outcome) option \<Rightarrow> 'a \<Rightarrow> 'a outcome" where
  "run_hook hook st = (case hook of None \<Rightarrow> Ret st | Some f \<Rightarrow> f st)"

text \<open>
  The states between requests, of which each has gone through: its activity is a \<open>zk_run\<close>, in which no watched
  call fails, and the objects that it left were destroyed without a fault. \<open>M\<close> is the module entry.
\<close>

inductive process :: "('w, 'h) zend_module_entry \<Rightarrow> 'h hash_api \<Rightarrow> 'w zk_api \<Rightarrow> ('w, 'h) zk_state \<Rightarrow> bool"
  for M H api where
  process_loaded: "process M H api (process_start (mo_module_startup M m))"
| process_request: "process M H api st \<Longrightarrow> run_hook (mo_request_startup M) st = Ret st0 \<Longrightarrow>
    zk_run H api st0 st1 \<Longrightarrow> run_hook (mo_request_shutdown M) st1 = Ret st2 \<Longrightarrow>
    distinct obs \<Longrightarrow> set obs = {ob. z_objs st2 ob \<noteq> None} \<Longrightarrow> free_objects H api obs st2 = Ret st3 \<Longrightarrow>
    process M H api st3"

text \<open>No record, no object and a table as new.\<close>

definition clean_state :: "'h hash_view \<Rightarrow> ('w, 'h) zk_state \<Rightarrow> bool" where
  "clean_state V st \<longleftrightarrow> z_cbs st = (\<lambda>_. None) \<and> z_objs st = (\<lambda>_. None) \<and>
     entries V (z_table st) = [] \<and> next_free V (z_table st) = 0"

lemma clean_table_ok: "clean_state V st \<Longrightarrow> table_ok V st"
  by (simp add: clean_state_def table_ok_def indices_ok_def)

lemma destroy_all_table: "destroy_all as st = Ret st' \<Longrightarrow> z_table st' = z_table st \<and> z_world st' = z_world st"
  by (induction as arbitrary: st) (auto simp: php_cb_data_destroy_def obind_eq_Ret split: option.splits)

lemma rshutdown_table:
  assumes "hash_laws H V" "rshutdown_zookeeper H st = Ret st'"
  shows "next_free V (z_table st') = 0" "z_world st' = z_world st"
  using assms(2) hash_lawsD(11) [OF assms(1), of "z_table st"]
  by (auto simp: rshutdown_zookeeper_def split_beta dest: destroy_all_table)

text \<open>An object that still holds a record reads it when it is destroyed after the shutdown hook.\<close>

lemma free_object_clean:
  assumes "z_cbs st = (\<lambda>_. None)" "z_objs st ob = Some i_obj"
  shows "php_zk_free_storage H api ob st =
    (if o_cb_data i_obj = None then Ret (st\<lparr>z_world := (case o_zk i_obj of None \<Rightarrow> z_world st
        | Some zh \<Rightarrow> zookeeper_close api zh (z_world st)), z_objs := (z_objs st)(ob := None)\<rparr>)
     else Fault UseAfterFree)"
  using assms by (auto simp: php_zk_free_storage_def php_zk_destroy_def drop_object_callback_def Let_def)

definition watched :: "('w, 'h) zk_state \<Rightarrow> nat \<Rightarrow> bool" where
  "watched st ob \<longleftrightarrow> (case z_objs st ob of None \<Rightarrow> False | Some i_obj \<Rightarrow> o_cb_data i_obj \<noteq> None)"

lemma free_objects_outcome:
  assumes "z_cbs st = (\<lambda>_. None)" "distinct obs" "\<forall>ob\<in>set obs. z_objs st ob \<noteq> None"
  shows "((\<exists>ob\<in>set obs. watched st ob) \<longrightarrow> free_objects H api obs st = Fault UseAfterFree) \<and>
    ((\<forall>ob\<in>set obs. \<not> watched st ob) \<longrightarrow>
      (\<exists>st'. free_objects H api obs st = Ret st' \<and> z_cbs st' = (\<lambda>_. None) \<and> z_table st' = z_table st \<and>
        z_objs st' = (z_objs st) |` (- set obs)))"
  using assms
proof (induction obs arbitrary: st)
  case Nil
  then show ?case by simp
next
  case (Cons ob obs)
  then obtain i_obj where i: "z_objs st ob = Some i_obj" by auto
  show ?case
  proof (cases "o_cb_data i_obj")
    case (Some a)
    with free_object_clean [OF Cons.prems(1) i, of H api] i show ?thesis by (simp add: watched_def)
  next
    case None
    define st1 where "st1 = st\<lparr>z_world := (case o_zk i_obj of None \<Rightarrow> z_world st
        | Some zh \<Rightarrow> zookeeper_close api zh (z_world st)), z_objs := (z_objs st)(ob := None)\<rparr>"
    have free: "free_objects H api (ob # obs) st = free_objects H api obs st1"
      using free_object_clean [OF Cons.prems(1) i, of H api] None by (simp add: st1_def)
    have same: "z_objs st1 o' = z_objs st o'" if "o' \<in> set obs" for o'
      using that Cons.prems(2) by (auto simp: st1_def)
    then have "\<forall>o'\<in>set obs. watched st1 o' = watched st o'" by (simp add: watched_def)
    moreover have "\<not> watched st ob" using i None by (simp add: watched_def)
    moreover have st1: "z_cbs st1 = (\<lambda>_. None)" "z_table st1 = z_table st" "\<forall>ob\<in>set obs. z_objs st1 ob \<noteq> None"
      using Cons.prems same by (simp_all add: st1_def del: not_None_eq)
    moreover have "z_objs st1 |` (- set obs) = z_objs st |` (- set (ob # obs))"
      by (rule ext) (simp add: st1_def restrict_map_def)
    ultimately show ?thesis
      unfolding free using Cons.IH [OF st1(1) _ st1(3)] Cons.prems(2) by simp
  qed
qed

text \<open>What the requests rely on of the hooks: a new table, nothing at the start of a request, the cleaning at its end.\<close>

locale module_hooks =
  fixes M :: "('w, 'h) zend_module_entry" and H :: "'h hash_api"
  assumes start_table: "mg_callbacks (ms_globals (mo_module_startup M m)) = hash_init H"
    and startup_none: "run_hook (mo_request_startup M) st = Ret st"
    and shutdown_cleans: "run_hook (mo_request_shutdown M) st = rshutdown_zookeeper H st"
begin

lemma process_clean:
  assumes laws: "hash_laws H V"
  shows "process M H api st \<Longrightarrow> clean_state V st"
proof (induction rule: process.induct)
  case (process_loaded m)
  then show ?case using start_table [of m] by (simp add: clean_state_def process_start_def hash_lawsD [OF laws])
next
  case (process_request st st0 st1 st2 obs st3)
  then have "st0 = st" by (simp add: startup_none)
  with process_request have ok: "table_ok V st1" by (blast intro: zk_run_ok laws clean_table_ok)
  have shut: "rshutdown_zookeeper H st1 = Ret st2" using process_request(4) by (simp add: shutdown_cleans)
  with rshutdown_ok [OF laws ok] have st2: "z_cbs st2 = (\<lambda>_. None)" "entries V (z_table st2) = []" by auto
  have "next_free V (z_table st2) = 0" by (rule rshutdown_table(1) [OF laws shut])
  moreover have live: "\<forall>ob\<in>set obs. z_objs st2 ob \<noteq> None" using process_request(6) by blast
  have "\<not> (\<exists>ob\<in>set obs. watched st2 ob)"
    using free_objects_outcome [OF st2(1) process_request(5) live, of H api] process_request(7) by auto
  with free_objects_outcome [OF st2(1) process_request(5) live, of H api] process_request(7)
  have st3: "z_cbs st3 = (\<lambda>_. None)" "z_table st3 = z_table st2" "z_objs st3 = z_objs st2 |` (- set obs)" by auto
  moreover have "z_objs st3 = (\<lambda>_. None)"
    unfolding st3(3) process_request(6) by (rule ext) (simp add: restrict_map_def)
  ultimately show ?case using st2(2) by (simp add: clean_state_def)
qed

text \<open>However a request goes on, the shutdown hook comes through.\<close>

lemma shutdown_releases:
  assumes laws: "hash_laws H V" and "process M H api st" "zk_run H api st st1"
  shows "\<exists>st2. run_hook (mo_request_shutdown M) st1 = Ret st2 \<and> z_cbs st2 = (\<lambda>_. None) \<and> z_objs st2 = z_objs st1"
proof -
  have "table_ok V st1"
    by (rule zk_run_ok [OF assms(3) laws clean_table_ok [OF process_clean [OF laws assms(2)]]])
  from rshutdown_ok [OF laws this] show ?thesis by (auto simp: shutdown_cleans)
qed

end

interpretation zk_module: module_hooks "zookeeper_module_entry H api c parse le" H for H api c parse le
  by unfold_locales
    (simp_all add: zookeeper_module_entry_def run_hook_def minit_zookeeper_def Let_def register_ini_entries_def
      ini_entries_def apply_ini_def php_zk_init_globals_def)

section \<open>Properties\<close>

text \<open>
  C9: requests in which no watched call fails do not leak into each other. After any number of them, each of
  which ended with its left objects destroyed without a fault, no callback record and no object
  is live and the table is as new, so that the first record of a request always stores its own index, and the
  module's shutdown releases nothing. In the next request, as long as no watched call fails in it, the shutdown hook succeeds whatever
  was done; what follows it, the destruction of the objects that are left, reads a released record exactly if one of them
  still has a watcher.
\<close>

theorem requests_are_isolated:
  assumes laws: "hash_laws H V" and M: "M = zookeeper_module_entry H api c parse le"
    and st: "process M H api st"
  shows "clean_state V st \<and> mo_module_shutdown M st = Ret st \<and>
    cb_h (the (z_cbs (snd (php_cb_data_new H fci o1 st)) (z_fresh st))) = next_free V (z_table st) \<and>
    (\<forall>st1. zk_run H api st st1 \<longrightarrow> (\<exists>st2. run_hook (mo_request_shutdown M) st1 = Ret st2 \<and>
      (\<forall>obs. distinct obs \<longrightarrow> set obs = {ob. z_objs st2 ob \<noteq> None} \<longrightarrow>
        (free_objects H api obs st2 = Fault UseAfterFree \<longleftrightarrow>
         (\<exists>ob. watched st1 ob)))))"
proof (intro conjI allI impI)
  show clean: "clean_state V st" using zk_module.process_clean [OF laws st [unfolded M]] .
  show "mo_module_shutdown M st = Ret st"
    using clean hash_lawsD(12) [OF laws]
    by (simp add: M zookeeper_module_entry_def mshutdown_zookeeper_def php_zk_destroy_globals_def clean_state_def)
  show "cb_h (the (z_cbs (snd (php_cb_data_new H fci o1 st)) (z_fresh st))) = next_free V (z_table st)"
    using clean by (simp add: php_cb_data_new_def Let_def clean_state_def hash_lawsD [OF laws])
  fix st1 assume "zk_run H api st st1"
  from zk_module.shutdown_releases [OF laws st [unfolded M] this] obtain st2 where
    st2: "run_hook (mo_request_shutdown M) st1 = Ret st2" "z_cbs st2 = (\<lambda>_. None)" "z_objs st2 = z_objs st1"
    unfolding M by blast
  have "free_objects H api obs st2 = Fault UseAfterFree \<longleftrightarrow>
      (\<exists>ob. watched st1 ob)"
    if "distinct obs" "set obs = {ob. z_objs st2 ob \<noteq> None}" for obs
  proof -
    have dom: "ob \<in> set obs" if "watched st1 ob" for ob
      using that \<open>set obs = _\<close> st2(3) by (auto simp: watched_def split: option.splits)
    have "watched st2 = watched st1" using st2(3) by (simp add: watched_def fun_eq_iff)
    moreover have "\<forall>ob\<in>set obs. z_objs st2 ob \<noteq> None" using that(2) by blast
    ultimately show ?thesis using free_objects_outcome [OF st2(2) that(1), of H api] dom by force
  qed
  with st2(1) show "\<exists>st2. run_hook (mo_request_shutdown M) st1 = Ret st2 \<and>
      (\<forall>obs. distinct obs \<longrightarrow> set obs = {ob. z_objs st2 ob \<noteq> None} \<longrightarrow>
        (free_objects H api obs st2 = Fault UseAfterFree \<longleftrightarrow>
         (\<exists>ob. watched st1 ob)))" by blast
qed

text \<open>A request that leaves an object with a watcher behind.\<close>

lemma loaded_state:
  "process_start (mo_module_startup (zookeeper_module_entry list_hash idle_api c parse le) blank_module) =
    request_start list_hash ()"
  by (simp add: process_start_def request_start_def zookeeper_module_entry_def minit_zookeeper_def Let_def
    register_ini_entries_def ini_entries_def apply_ini_def php_zk_init_globals_def)

theorem requests_are_isolated_witness:
  "let M = zookeeper_module_entry list_hash idle_api (\<lambda>_. 0) digits_value 7; st = request_start list_hash () in
   process M list_hash idle_api st \<and> mo_module_shutdown M st = Ret st \<and>
   (\<exists>st2. run_hook (mo_request_shutdown M)
      (snd (php_cb_data_new list_hash 9 False sim_conn)\<lparr>z_objs := [0 \<mapsto> \<lparr>o_zk = Some 0, o_cb_data = Some 0\<rparr>]\<rparr>) = Ret st2 \<and>
      (set [0] = {ob. z_objs st2 ob \<noteq> None} \<longrightarrow> free_objects list_hash idle_api [0] st2 = Fault UseAfterFree))"
proof -
  let ?M = "zookeeper_module_entry list_hash idle_api (\<lambda>_. 0) digits_value 7"
  let ?st = "request_start list_hash () :: (unit, list_table) zk_state"
  let ?st1 = "snd (php_cb_data_new list_hash 9 False sim_conn)\<lparr>z_objs := [0 \<mapsto> \<lparr>o_zk = Some 0, o_cb_data = Some 0\<rparr>]\<rparr>"
  have run: "process ?M list_hash idle_api ?st"
    using process_loaded [of ?M list_hash idle_api blank_module] by (simp add: loaded_state)
  have "watched ?st1 0" by (simp add: watched_def)
  then have "\<exists>ob. watched ?st1 ob" by blast
  with requests_are_isolated [OF list_hash_laws refl run, of 0 True] sim_run run
  show ?thesis unfolding Let_def by (metis distinct_singleton)
qed

section \<open>Connecting twice\<close>

lemma connect_with_watcher:
  assumes laws: "hash_laws H V" and dense: "next_free V (z_table st) = length (entries V (z_table st))"
    and small: "length (entries V (z_table st)) < 2 ^ 64"
    and call: "php_zookeeper_connect_impl H api this host (Some f) t st = returns ZNull st1"
  shows "\<exists>zh. fst (zookeeper_init api (c_str host) (Some (PhpWatcher (z_fresh st))) (to_int32 t) (z_world st)) = Some zh \<and>
    z_objs st1 this = Some \<lparr>o_zk = Some zh, o_cb_data = Some (z_fresh st)\<rparr> \<and>
    z_cbs st1 = (z_cbs st)(z_fresh st \<mapsto> \<lparr>cb_fci = f, cb_oneshot = False, cb_h = length (entries V (z_table st))\<rparr>) \<and>
    entries V (z_table st1) = entries V (z_table st) @ [(next_free V (z_table st), z_fresh st)] \<and>
    next_free V (z_table st1) = length (entries V (z_table st1)) \<and> z_fresh st1 = Suc (z_fresh st)"
proof -
  have "int (length (entries V (z_table st))) mod 2 ^ 64 = int (length (entries V (z_table st)))"
    using small by (intro mod_pos_pos_trivial) auto
  with call dense show ?thesis
    by (auto simp: php_zookeeper_connect_impl_def new_callback_def php_cb_data_new_def Let_def returns_def warns_def
      hash_lawsD [OF laws] split: if_splits option.splits prod.splits)
qed

text \<open>
  C30: a second \<open>connect\<close> on an object loses the first connection. Destroying the object closes the second handle and
  releases the second record only; the first watcher stays live for the rest of the request, and as its
  handle is never closed, an event that comes after the request ends uses the released record.
\<close>

theorem reconnect_leaks_handle:
  assumes laws: "hash_laws H V" and ok: "table_ok V st"
    and dense: "next_free V (z_table st) = length (entries V (z_table st))" "length (entries V (z_table st)) < 2 ^ 63"
    and first: "php_zookeeper_connect_impl H api this h1 (Some f1) t1 st = returns ZNull st1"
    and second: "php_zookeeper_connect_impl H api this h2 (Some f2) t2 st1 = returns ZNull st2"
  shows "\<exists>zh1 a1 zh2 a2 st3 st4.
    fst (zookeeper_init api (c_str h1) (Some (PhpWatcher a1)) (to_int32 t1) (z_world st)) = Some zh1 \<and>
    z_objs st1 this = Some \<lparr>o_zk = Some zh1, o_cb_data = Some a1\<rparr> \<and>
    z_objs st2 this = Some \<lparr>o_zk = Some zh2, o_cb_data = Some a2\<rparr> \<and>
    php_zk_free_storage H api this st2 = Ret st3 \<and> z_world st3 = zookeeper_close api zh2 (z_world st2) \<and>
    z_cbs st3 = (z_cbs st2)(a2 := None) \<and> a1 \<noteq> a2 \<and> z_cbs st3 a1 \<noteq> None \<and>
    rshutdown_zookeeper H st3 = Ret st4 \<and> z_world st4 = z_world st3 \<and>
    (\<forall>call ty state path. php_zk_watcher_marshal H call ty state path (Some a1) st4 = Fault UseAfterFree)"
proof -
  let ?n = "length (entries V (z_table st))"
  from connect_with_watcher [OF laws dense(1) _ first] dense(2) obtain zh1 where
    c1: "fst (zookeeper_init api (c_str h1) (Some (PhpWatcher (z_fresh st))) (to_int32 t1) (z_world st)) = Some zh1"
      "z_objs st1 this = Some \<lparr>o_zk = Some zh1, o_cb_data = Some (z_fresh st)\<rparr>"
      "z_cbs st1 (z_fresh st) \<noteq> None" "length (entries V (z_table st1)) = Suc ?n"
      "next_free V (z_table st1) = length (entries V (z_table st1))" "z_fresh st1 = Suc (z_fresh st)" by auto
  from connect_with_watcher [OF laws c1(5) _ second] dense(2) c1(4-6) obtain zh2 where
    c2: "z_objs st2 this = Some \<lparr>o_zk = Some zh2, o_cb_data = Some (Suc (z_fresh st))\<rparr>"
      "z_cbs st2 = (z_cbs st1)(Suc (z_fresh st) \<mapsto> \<lparr>cb_fci = f2, cb_oneshot = False, cb_h = Suc ?n\<rparr>)"
      "(Suc ?n, Suc (z_fresh st)) \<in> set (entries V (z_table st2))" by auto
  have "table_ok V st1" using method_ok(1) [OF laws ok] first by (auto simp: returns_def)
  from method_ok(1) [OF laws this] second have ok2: "table_ok V st2" by (auto simp: returns_def)
  then have "map_of (entries V (z_table st2)) (Suc ?n) = Some (Suc (z_fresh st))"
    using c2(3) by (simp add: table_ok_def indices_ok_def)
  with object_record_freed [OF laws ok2 c2(1)] c2(2) obtain st3 where
    st3: "php_zk_free_storage H api this st2 = Ret st3" "z_world st3 = zookeeper_close api zh2 (z_world st2)"
      "z_cbs st3 = (z_cbs st2)(Suc (z_fresh st) := None)" by fastforce
  have live: "z_cbs st3 (z_fresh st) \<noteq> None" using c1(3) c2(2) by (simp add: st3(3) del: not_None_eq)
  from rshutdown_ok [OF laws zk_destroy_ok [OF laws ok2 st3(1)]] obtain st4 where
    st4: "rshutdown_zookeeper H st3 = Ret st4" "z_cbs st4 = (\<lambda>_. None)" by blast
  have "php_zk_watcher_marshal H call ty state path (Some (z_fresh st)) st4 = Fault UseAfterFree" for call ty state path
    by (simp add: php_zk_watcher_marshal_def run_callback_def st4(2))
  with c1(1,2) c2(1) st3 live st4(1) rshutdown_table(2) [OF laws st4(1)] show ?thesis by (metis n_not_Suc_n)
qed

text \<open>A library that numbers its handles and counts the closed ones.\<close>

definition handle_api :: "(nat \<times> nat list) zk_api" where
  "handle_api = idle_api\<lparr>zookeeper_init := (\<lambda>h wt t w. (Some (fst w), (Suc (fst w), snd w))),
     zookeeper_close := (\<lambda>zh w. (fst w, zh # snd w))\<rparr>"

theorem reconnect_leaks_handle_witness:
  "\<exists>st1 st2 st3. php_zookeeper_connect_impl list_hash handle_api 0 ''h'' (Some 7) 10
       (snd (php_zk_new (request_start list_hash (0, [])))) = returns ZNull st1 \<and>
     php_zookeeper_connect_impl list_hash handle_api 0 ''h'' (Some 8) 10 st1 = returns ZNull st2 \<and>
     php_zk_free_storage list_hash handle_api 0 st2 = Ret st3 \<and> z_world st3 = (2, [1])"
proof -
  let ?st = "snd (php_zk_new (request_start list_hash (0, [])))"
  have st: "table_ok list_view ?st" "z_table ?st = ([], 0)" "z_objs ?st 0 = Some \<lparr>o_zk = None, o_cb_data = None\<rparr>"
    "z_world ?st = (0, [])"
    by (simp_all add: php_zk_new_def request_start_def list_hash_def table_ok_def indices_ok_def list_view_def)
  obtain st1 where st1: "php_zookeeper_connect_impl list_hash handle_api 0 ''h'' (Some 7) 10 ?st = returns ZNull st1"
    "z_objs st1 0 = Some \<lparr>o_zk = Some 0, o_cb_data = Some 0\<rparr>" "z_world st1 = (1, [])"
    by (simp add: php_zookeeper_connect_impl_def handle_api_def new_callback_def php_cb_data_new_def php_zk_new_def
      request_start_def Let_def)
  obtain st2 where st2: "php_zookeeper_connect_impl list_hash handle_api 0 ''h'' (Some 8) 10 st1 = returns ZNull st2"
    "\<exists>a. z_objs st2 0 = Some \<lparr>o_zk = Some 1, o_cb_data = a\<rparr>" "z_world st2 = (2, [])"
    using st1(2,3) by (simp add: php_zookeeper_connect_impl_def handle_api_def new_callback_def php_cb_data_new_def Let_def)
  have "next_free list_view (z_table ?st) = length (entries list_view (z_table ?st))"
    "length (entries list_view (z_table ?st)) < 2 ^ 63" by (simp_all add: st(2) list_view_def)
  from reconnect_leaks_handle [OF list_hash_laws st(1) this st1(1) st2(1)] st2(2,3) obtain st3 where
    "php_zk_free_storage list_hash handle_api 0 st2 = Ret st3" "z_world st3 = zookeeper_close handle_api 1 (2, [])"
    by auto
  with st1(1) st2(1) show ?thesis by (auto simp: handle_api_def)
qed

end
