(* ===== verification/Lock_Memory.thy ===== *)
theory Lock_Memory
  imports Lock_Properties
begin

text \<open>
  The memory of one lock operation of \<open>zoo_lock.c\<close>: the same code as in \<open>Zoo_Lock\<close> with the
  listings as structs, their release by \<open>free_String_vector\<close>, and a ledger of the blocks
  that the operation has allocated and not released. Blocks of the listings, of the duplicated child
  name and of the duplicated owner name are counted; what the library allocates for itself is not.
\<close>

section \<open>Listings\<close>

record String_vector =
  sv_count :: nat
  sv_data :: "cptr list option"

text \<open>A listing as \<open>zoo_get_children\<close> fills it, with the blocks it takes: one per name and one for the array.\<close>

definition vector_of :: "string list \<Rightarrow> String_vector" where
  "vector_of kids = \<lparr>sv_count = length kids, sv_data = Some (map Str kids)\<rparr>"

definition listing_blocks :: "string list \<Rightarrow> int" where
  "listing_blocks kids = int (Suc (length kids))"

fun free_cells :: "cptr list \<Rightarrow> int \<Rightarrow> int outcome" where
  "free_cells [] live = Ret live"
| "free_cells (p # ps) live = obind (free_ptr p) (\<lambda>_. free_cells ps (live - 1))"

definition free_String_vector :: "String_vector \<Rightarrow> int \<Rightarrow> (String_vector \<times> int) outcome" where
  "free_String_vector v live = (case sv_data v of
     None \<Rightarrow> Ret (v, live)
   | Some cells \<Rightarrow> obind (free_cells (take (sv_count v) cells) live) (\<lambda>live'.
       Ret (v\<lparr>sv_data := None\<rparr>, live' - 1)))"

lemma free_cells_Str: "free_cells (map Str kids) live = Ret (live - int (length kids))"
  by (induction kids arbitrary: live) simp_all

lemma free_vector [simp]:
  "free_String_vector (vector_of kids) (live + listing_blocks kids) = Ret ((vector_of kids)\<lparr>sv_data := None\<rparr>, live)"
  "free_String_vector (vector_of kids) (live + listing_blocks kids + k) =
    Ret ((vector_of kids)\<lparr>sv_data := None\<rparr>, live + k)"
  by (simp_all add: free_String_vector_def vector_of_def free_cells_Str listing_blocks_def)

section \<open>The operation with its ledger\<close>

definition find_or_create_mem ::
  "'w zk_api \<Rightarrow> zkr_lock_mutex \<Rightarrow> string \<Rightarrow> 'w \<Rightarrow> int \<Rightarrow>
   ((int + unit) \<times> zkr_lock_mutex \<times> 'w \<times> int) outcome" where
  "find_or_create_mem api m path w live =
     (let zh = m_zh m;
          (session, _) = zoo_client_id api zh w;
          prefix = lock_prefix session;
          ((ret, kids), w1) = retry_getchildren api zh path 3 w
      in if ret \<noteq> ZOK then Ret (Inl ret, m, w1, live)
         else let m1 = m\<lparr>m_id := ptr_of (lookupnode kids prefix)\<rparr>;
                  live1 = live + listing_blocks kids + blocks_of (m_id m1)
           in obind (free_String_vector (vector_of kids) live1) (\<lambda>(_, live2).
             if m_id m1 = Null then
               let len = length path + length prefix + 2;
                   buf = snprintf len (child_path path prefix);
                   ((ret, retbuf), w2) = zoo_create api zh buf None 0 (m_acl m1)
                      (or ZOO_EPHEMERAL ZOO_SEQUENCE) (len + 20) w1;
                   m2 = m1\<lparr>m_id := getName retbuf\<rparr>
               in if ret \<noteq> ZOK then Ret (Inl ret, m1, w2, live2)
                  else Ret (Inr (), m2, w2, live2 + blocks_of (m_id m2))
             else Ret (Inr (), m1, w1, live2)))"

definition lock_decide_mem ::
  "'w zk_api \<Rightarrow> zkr_lock_mutex \<Rightarrow> string \<Rightarrow> string \<Rightarrow> 'w \<Rightarrow> int \<Rightarrow> (int \<times> zkr_lock_mutex \<times> 'w \<times> int) run" where
  "lock_decide_mem api m path ident w live =
     (let zh = m_zh m; ((ret, kids), w1) = retry_getchildren api zh path 3 w
      in if ret \<noteq> ZOK then Some (Ret (ret, m, w1, live))
         else xbind (Some (sort_children kids)) (\<lambda>sorted_data. case sorted_data of
           [] \<Rightarrow> Some (Fault OutOfBounds)
         | owner_id # _ \<Rightarrow>
             let m1 = m\<lparr>m_ownerid := Str owner_id\<rparr>; vector = vector_of sorted_data;
                 live1 = live + listing_blocks sorted_data + blocks_of (m_ownerid m1) in
             case child_floor sorted_data ident of
               Some lessthanme \<Rightarrow>
                 let last_child = child_path path lessthanme;
                     ((ret, _), w2) = retry_zoowexists api zh last_child LockWatcher 3 w1
                 in xbind (Some (free_String_vector vector live1)) (\<lambda>(_, live2).
                      if ret \<noteq> ZOK then xbind (unlock_until_error api m1 w2) (\<lambda>(r, m2, w3).
                        Some (Ret (r, m2, w3, live2)))
                      else Some (Ret (ZOK, m1\<lparr>m_isOwner := 0\<rparr>, w2, live2)))
             | None \<Rightarrow>
                 if strcmp ident owner_id = 0 then
                   let m2 = m1\<lparr>m_isOwner := 1\<rparr>
                   in Some (Ret (ZOK, m2, call_completion api m2 0 w1, live1))
                 else xbind (Some (free_String_vector vector live1)) (\<lambda>(_, live2).
                        Some (Ret (ZOK, m1, w1, live2)))))"

partial_function (option) lock_operation_mem ::
  "'w zk_api \<Rightarrow> zkr_lock_mutex \<Rightarrow> 'w \<Rightarrow> int \<Rightarrow> (int \<times> zkr_lock_mutex \<times> 'w \<times> int) run" where
  "lock_operation_mem api m w live = (case deref (m_path m) of
     Fault e \<Rightarrow> Some (Fault e) | Bailout s \<Rightarrow> Some (Bailout s)
   | Ret path \<Rightarrow> (case find_or_create_mem api m path w live of
       Fault e \<Rightarrow> Some (Fault e) | Bailout s \<Rightarrow> Some (Bailout s)
     | Ret out \<Rightarrow> (case out of (res, m1, w1, live1) \<Rightarrow> (case res of
          Inl ret \<Rightarrow> Some (Ret (ret, m1, w1, live1))
        | Inr _ \<Rightarrow> (case m_id m1 of
            Null \<Rightarrow> lock_operation_mem api m1 w1 live1
          | Freed \<Rightarrow> Some (Fault UseAfterFree)
          | Str ident \<Rightarrow> lock_decide_mem api m1 path ident w1 live1)))))"

section \<open>The ledger follows the pointers of the struct\<close>

definition owned :: "zkr_lock_mutex \<Rightarrow> int" where
  "owned m = blocks_of (m_id m) + blocks_of (m_ownerid m)"

lemma find_or_create_mem:
  assumes "lock_find_or_create api m path w = (res, m1, w1)" "m_id m = Null"
  shows "find_or_create_mem api m path w live = Ret (res, m1, w1, live + blocks_of (m_id m1))"
  using assms(1)
proof (cases rule: find_or_create_cases)
  case (lost ret kids)
  then show ?thesis using assms(2) by (simp add: find_or_create_mem_def split_beta)
next
  case (found kids c)
  then show ?thesis by (simp add: find_or_create_mem_def split_beta)
next
  case (created kids w2 len ret retbuf)
  then show ?thesis by (auto simp: find_or_create_mem_def split_beta Let_def add_ac)
qed

text \<open>What the second half leaves allocated besides the owner's name: the listing, if it grants the lock.\<close>

lemma lock_decide_mem:
  assumes dec: "lock_decide api m path ident w = Some (Ret (r, m', w'))" and "m_pmutex m = PLocked"
    and fresh: "m_ownerid m = Null" "m_isOwner m = 0"
  shows "\<exists>kids w1. retry_getchildren api (m_zh m) path 3 w = ((r, kids), w1) \<and>
    lock_decide_mem api m path ident w live = Some (Ret (r, m', w',
      live + blocks_of (m_ownerid m') + (if m_isOwner m' = 1 then listing_blocks kids else 0)))"
  using assms(1,2)
proof (cases rule: decide_cases)
  case (lost kids)
  then show ?thesis using fresh by (simp add: lock_decide_mem_def)
next
  case (waits kids w1 owner rest pred st)
  then show ?thesis by (simp add: lock_decide_mem_def Let_def)
next
  case (owns kids w1 owner rest)
  have "length kids = length (owner # rest)" using sort_children_perm [OF owns(2)] by (metis size_mset)
  then have "listing_blocks kids = listing_blocks (owner # rest)" by (simp add: listing_blocks_def)
  with owns show ?thesis by (simp add: lock_decide_mem_def Let_def)
next
  case (stranded kids owner rest)
  with fresh show ?thesis by (simp add: lock_decide_mem_def Let_def)
qed

section \<open>What an operation leaves allocated\<close>

lemma find_or_create_fields:
  assumes "lock_find_or_create api m path w = (res, m1, w1)"
  shows "\<exists>i. m1 = m\<lparr>m_id := i\<rparr> \<and> (m_id m = Null \<longrightarrow> i \<noteq> Freed)"
  using assms by (cases rule: find_or_create_cases) (auto intro: exI [of _ "m_id m"])

lemma decide_fields:
  assumes "lock_decide api m path ident w = Some (Ret (r, m', w'))" "m_pmutex m = PLocked"
  shows "m_id m' = m_id m \<and> m_zh m' = m_zh m \<and> (m_isOwner m = 0 \<longrightarrow> m_isOwner m' = 1 \<longrightarrow> r = ZOK)"
  using assms by (cases rule: decide_cases) auto

text \<open>
  C35: with its memory written out the operation does the same, every listing is released at most once, and the
  blocks it leaves are accounted for: on a fresh mutex they are the two names that the struct owns, and in
  addition the whole last listing exactly if the lock was granted, since that return skips the release.
\<close>

theorem granted_lock_leaks_listing:
  assumes ret: "zkr_lock_operation api m w = Some (Ret (r, m', w'))"
    and fresh: "m_pmutex m = PLocked" "m_path m = Str path" "m_id m = Null" "m_ownerid m = Null" "m_isOwner m = 0"
  shows "\<exists>kids w1 w2. lock_operation_mem api m w live = Some (Ret (r, m', w',
      live + owned m' + (if m_isOwner m' = 1 then listing_blocks kids else 0))) \<and>
    (m_isOwner m' = 1 \<longrightarrow> r = ZOK \<and> retry_getchildren api (m_zh m') path 3 w1 = ((ZOK, kids), w2))"
proof -
  let ?start = "lock_operation_mem api m w live"
  let ?held = "\<lambda>m. m_pmutex m = PLocked \<and> m_path m = Str path \<and> m_ownerid m = Null \<and> m_isOwner m = 0"
  let ?I = "\<lambda>m w. ?held m \<and> m_id m = Null \<and> ?start = lock_operation_mem api m w live"
  let ?J = "\<lambda>m w. ?held m \<and> ?start = (case m_id m of Null \<Rightarrow> lock_operation_mem api m w live
     | Str i \<Rightarrow> lock_decide_mem api m path i w (live + 1) | Freed \<Rightarrow> None)"
  show ?thesis
  proof (rule operation_rule [where I = ?I and J = ?J, OF ret])
    show "?I m w" using fresh by simp
    show "m_path m = Str path" by (rule fresh)
  next
    fix m w ret m1 w1 assume I: "?I m w" and fc: "lock_find_or_create api m path w = (Inl ret, m1, w1)"
    then have "lock_operation_mem api m w live = Some (Ret (ret, m1, w1, live + blocks_of (m_id m1)))"
      using find_or_create_mem [OF fc] by (simp add: lock_operation_mem.simps [of api m w live])
    moreover have "m_ownerid m1 = Null" "m_isOwner m1 = 0" using find_or_create_fields [OF fc] I by auto
    ultimately show "\<exists>kids w2 w3. ?start = Some (Ret (ret, m1, w1,
        live + owned m1 + (if m_isOwner m1 = 1 then listing_blocks kids else 0))) \<and>
      (m_isOwner m1 = 1 \<longrightarrow> ret = ZOK \<and> retry_getchildren api (m_zh m1) path 3 w2 = ((ZOK, kids), w3))"
      using I by (simp add: owned_def)
  next
    fix m w m1 w1 assume I: "?I m w" and fc: "lock_find_or_create api m path w = (Inr (), m1, w1)"
    from find_or_create_fields [OF fc] I obtain i where i: "m1 = m\<lparr>m_id := i\<rparr>" "i \<noteq> Freed" by blast
    have "lock_operation_mem api m w live = (case m_id m1 of Null \<Rightarrow> lock_operation_mem api m1 w1 live
        | Str i \<Rightarrow> lock_decide_mem api m1 path i w1 (live + 1) | Freed \<Rightarrow> None)"
      using find_or_create_mem [OF fc] I i
      by (cases i) (simp_all add: lock_operation_mem.simps [of api m w live])
    with I i(1) show "?J m1 w1" by simp
  next
    fix m :: zkr_lock_mutex and w assume "?J m w" "m_id m = Null"
    then show "?I m w" by simp
  next
    fix m w i r m' w' assume J: "?J m w" and id: "m_id m = Str i"
      and dec: "lock_decide api m path i w = Some (Ret (r, m', w'))"
    from lock_decide_mem [OF dec] J obtain kids w1 where k: "retry_getchildren api (m_zh m) path 3 w = ((r, kids), w1)"
      "lock_decide_mem api m path i w (live + 1) = Some (Ret (r, m', w',
        live + 1 + blocks_of (m_ownerid m') + (if m_isOwner m' = 1 then listing_blocks kids else 0)))" by blast
    from decide_fields [OF dec] J id have "owned m' = 1 + blocks_of (m_ownerid m')" "m_zh m' = m_zh m"
      "m_isOwner m' = 1 \<longrightarrow> r = ZOK" by (simp_all add: owned_def)
    with J id k show "\<exists>kids w1 w2. ?start = Some (Ret (r, m', w',
        live + owned m' + (if m_isOwner m' = 1 then listing_blocks kids else 0))) \<and>
      (m_isOwner m' = 1 \<longrightarrow> r = ZOK \<and> retry_getchildren api (m_zh m') path 3 w1 = ((ZOK, kids), w2))"
      by (intro exI [of _ kids] exI [of _ w] exI [of _ w1]) (simp add: add_ac)
  qed
qed

definition held_mutex :: zkr_lock_mutex where
  "held_mutex = (client_mutex 1)\<lparr>m_pmutex := PLocked\<rparr>"

lemma first_operation:
  "zkr_lock_operation dir_api held_mutex ([], 0) =
    Some (Ret (0, locked_mutex\<lparr>m_pmutex := PLocked\<rparr>, ([lock_child 1 0], 1)))"
  by code_simp

theorem granted_lock_leaks_listing_witness:
  "\<exists>live. lock_operation_mem dir_api held_mutex ([], 0) 0 =
     Some (Ret (0, locked_mutex\<lparr>m_pmutex := PLocked\<rparr>, ([lock_child 1 0], 1), live)) \<and> 2 < live"
proof -
  have "m_pmutex held_mutex = PLocked" "m_path held_mutex = Str ''/l''" "m_id held_mutex = Null"
    "m_ownerid held_mutex = Null" "m_isOwner held_mutex = 0"
    by (simp_all add: held_mutex_def client_mutex_def zkr_lock_init_def)
  from granted_lock_leaks_listing [OF first_operation this, of 0] show ?thesis
    by (auto simp: locked_mutex_def owned_def listing_blocks_def)
qed

end
