(* ===== verification/Lock_Progress.thy ===== *)
theory Lock_Progress
  imports Lock_Properties
begin

text \<open>
  Progress of the lock of \<open>zoo_lock.c\<close>: what one call of lock or unlock does when the server answers
  it and no other client acts during the call. What the server then promises is the predicate
  \<open>quiet_lock_laws\<close>. The call's result is exact: it is the ownership of the child with the least
  counter, so that a released lock goes to the next child in the queue.
\<close>

section \<open>A server that answers\<close>

definition same_dir :: "'w lock_dir \<Rightarrow> 'w \<Rightarrow> 'w \<Rightarrow> bool" where
  "same_dir D w w' \<longleftrightarrow> dir_nodes D w' = dir_nodes D w \<and> dir_next D w' = dir_next D w"

text \<open>
  For the handle \<open>zh\<close> of session \<open>sid\<close>: the directory exists; a listing gives the children; a
  sequential create below the counter value \<open>cap\<close> appends a child of that session with the next counter; a
  child that exists can be watched and deleted.
\<close>

definition quiet_lock_laws ::
  "'w zk_api \<Rightarrow> 'w lock_dir \<Rightarrow> zhandle \<Rightarrow> string \<Rightarrow> 64 word \<Rightarrow> nat \<Rightarrow> bool" where
  "quiet_lock_laws api D zh path sid cap \<longleftrightarrow>
     (\<forall>w. fst (zoo_client_id api zh w) = sid) \<and>
     (\<forall>w. \<exists>st w'. zoo_exists api zh path False w = ((ZOK, st), w') \<and> same_dir D w w') \<and>
     (\<forall>w. \<exists>kids w'. zoo_get_children api zh path False w = ((ZOK, kids), w') \<and> same_dir D w w' \<and>
        set kids = dir_nodes D w) \<and>
     (\<forall>w acl sz. dir_next D w < cap \<longrightarrow> (\<exists>w'. zoo_create api zh (child_path path (lock_prefix sid)) None 0 acl
          (or ZOO_EPHEMERAL ZOO_SEQUENCE) sz w =
            ((ZOK, snprintf sz (child_path path (lock_child sid (dir_next D w)))), w') \<and>
        dir_nodes D w' = insert (lock_child sid (dir_next D w)) (dir_nodes D w) \<and>
        dir_next D w' = Suc (dir_next D w))) \<and>
     (\<forall>w c. c \<in> dir_nodes D w \<longrightarrow> (\<exists>st w'. zoo_wexists api zh (child_path path c) (Some LockWatcher) w =
        ((ZOK, st), w') \<and> same_dir D w w')) \<and>
     (\<forall>w c. c \<in> dir_nodes D w \<longrightarrow> (\<exists>w'. zoo_delete api zh (child_path path c) (-1) w = (ZOK, w') \<and>
        dir_nodes D w' = dir_nodes D w - {c} \<and> dir_next D w' = dir_next D w)) \<and>
     (\<forall>w f rc cb. same_dir D w (run_completion api f rc cb w))"

lemma quiet_lawsD:
  assumes "quiet_lock_laws api D zh path sid cap"
  shows quiet_client: "fst (zoo_client_id api zh w) = sid"
    and quiet_exists: "\<exists>st w'. zoo_exists api zh path False w = ((ZOK, st), w') \<and> same_dir D w w'"
    and quiet_list: "\<exists>kids w'. zoo_get_children api zh path False w = ((ZOK, kids), w') \<and> same_dir D w w' \<and>
        set kids = dir_nodes D w"
    and quiet_create: "dir_next D w < cap \<Longrightarrow> \<exists>w'. zoo_create api zh (child_path path (lock_prefix sid)) None 0 acl
          (or ZOO_EPHEMERAL ZOO_SEQUENCE) sz w =
            ((ZOK, snprintf sz (child_path path (lock_child sid (dir_next D w)))), w') \<and>
        dir_nodes D w' = insert (lock_child sid (dir_next D w)) (dir_nodes D w) \<and>
        dir_next D w' = Suc (dir_next D w)"
    and quiet_watch: "c \<in> dir_nodes D w \<Longrightarrow> \<exists>st w'. zoo_wexists api zh (child_path path c) (Some LockWatcher) w =
        ((ZOK, st), w') \<and> same_dir D w w'"
    and quiet_delete: "c \<in> dir_nodes D w \<Longrightarrow> \<exists>w'. zoo_delete api zh (child_path path c) (-1) w = (ZOK, w') \<and>
        dir_nodes D w' = dir_nodes D w - {c} \<and> dir_next D w' = dir_next D w"
    and quiet_completion: "same_dir D w (run_completion api f rc cb w)"
proof -
  note l1 = assms [unfolded quiet_lock_laws_def]
  note l2 = l1 [THEN conjunct2]
  note l3 = l2 [THEN conjunct2]
  note l4 = l3 [THEN conjunct2]
  note l5 = l4 [THEN conjunct2]
  note l6 = l5 [THEN conjunct2]
  show "fst (zoo_client_id api zh w) = sid" by (rule l1 [THEN conjunct1, rule_format])
  show "\<exists>st w'. zoo_exists api zh path False w = ((ZOK, st), w') \<and> same_dir D w w'"
    by (rule l2 [THEN conjunct1, rule_format])
  show "\<exists>kids w'. zoo_get_children api zh path False w = ((ZOK, kids), w') \<and> same_dir D w w' \<and>
      set kids = dir_nodes D w" by (rule l3 [THEN conjunct1, rule_format])
  show "\<exists>w'. zoo_create api zh (child_path path (lock_prefix sid)) None 0 acl
          (or ZOO_EPHEMERAL ZOO_SEQUENCE) sz w =
            ((ZOK, snprintf sz (child_path path (lock_child sid (dir_next D w)))), w') \<and>
        dir_nodes D w' = insert (lock_child sid (dir_next D w)) (dir_nodes D w) \<and>
        dir_next D w' = Suc (dir_next D w)" if "dir_next D w < cap"
    using that by (rule l4 [THEN conjunct1, rule_format])
  show "\<exists>st w'. zoo_wexists api zh (child_path path c) (Some LockWatcher) w =
        ((ZOK, st), w') \<and> same_dir D w w'" if "c \<in> dir_nodes D w"
    using that by (rule l5 [THEN conjunct1, rule_format])
  show "\<exists>w'. zoo_delete api zh (child_path path c) (-1) w = (ZOK, w') \<and>
        dir_nodes D w' = dir_nodes D w - {c} \<and> dir_next D w' = dir_next D w" if "c \<in> dir_nodes D w"
    using that by (rule l6 [THEN conjunct1, rule_format])
  show "same_dir D w (run_completion api f rc cb w)" by (rule l6 [THEN conjunct2, rule_format])
qed

lemma same_dir_trans: "same_dir D a b \<Longrightarrow> same_dir D b c \<Longrightarrow> same_dir D a c"
  by (simp add: same_dir_def)

lemma same_dir_ok: "same_dir D w w' \<Longrightarrow> dir_ok D w' = dir_ok D w"
  by (simp add: same_dir_def dir_ok_def)

lemma same_dir_least: "same_dir D w w' \<Longrightarrow> least_child D w' n = least_child D w n"
  by (simp add: same_dir_def least_child_def)

lemma retry_upto_answered:
  "op w = ((s, r), w') \<Longrightarrow> s \<noteq> ZCONNECTIONLOSS \<Longrightarrow> 0 < n \<Longrightarrow> retry_upto op n (ZCONNECTIONLOSS, d) w = ((s, r), w')"
  by (cases n) (simp_all add: retry_upto_stop)

lemma quiet_getchildren:
  assumes "quiet_lock_laws api D zh path sid cap"
  shows "\<exists>kids w'. retry_getchildren api zh path 3 w = ((ZOK, kids), w') \<and> same_dir D w w' \<and> set kids = dir_nodes D w"
proof -
  from quiet_list [OF assms, of w] obtain kids w' where
    l: "zoo_get_children api zh path False w = ((ZOK, kids), w')" "same_dir D w w'" "set kids = dir_nodes D w" by blast
  then have "retry_getchildren api zh path 3 w = ((ZOK, kids), w')"
    by (simp add: retry_getchildren_def retry_upto_answered)
  with l(2,3) show ?thesis by blast
qed

lemma op_loop_done: "lock_op_loop api n ZOK m w = Some (Ret (ZOK, m, w))"
  by (cases n) simp_all

lemma op_loop_first: "lock_op_loop api 4 ZCONNECTIONLOSS m w =
    xbind (zkr_lock_operation api m w) (\<lambda>(r, m', w'). lock_op_loop api 3 r m' w')"
  using lock_op_loop.simps(2) [of api 3] by simp

lemma ensure_path_done: "ex \<noteq> ZCONNECTIONLOSS \<Longrightarrow> ex \<noteq> ZNONODE \<Longrightarrow> ensure_path api zh path acl n ex w = (ex, w)"
  by (cases n) simp_all

section \<open>One call of lock\<close>

text \<open>The counter that a client of session \<open>sid\<close> queues with: its child's, or the next one.\<close>

definition queue_counter :: "'w lock_dir \<Rightarrow> 64 word \<Rightarrow> 'w \<Rightarrow> nat \<Rightarrow> bool" where
  "queue_counter D sid w n \<longleftrightarrow>
     (if \<exists>k < seq_max. lock_child sid k \<in> dir_nodes D w
      then n < seq_max \<and> lock_child sid n \<in> dir_nodes D w \<and> (\<forall>k < seq_max. lock_child sid k \<in> dir_nodes D w \<longrightarrow> k = n)
      else n = dir_next D w)"

lemma same_dir_queue: "same_dir D w w' \<Longrightarrow> queue_counter D sid w' n = queue_counter D sid w n"
  by (simp only: queue_counter_def same_dir_def)

lemma quiet_find_or_create:
  assumes laws: "quiet_lock_laws api D zh path sid cap" and ok: "dir_ok D w"
    and m: "m_zh m = zh" and room: "dir_next D w < cap" "dir_next D w < seq_max" and n: "queue_counter D sid w n"
  shows "\<exists>w1. lock_find_or_create api m path w = (Inr (), m\<lparr>m_id := Str (lock_child sid n)\<rparr>, w1) \<and>
    dir_nodes D w1 = insert (lock_child sid n) (dir_nodes D w) \<and> dir_ok D w1 \<and> n < seq_max \<and>
    (lock_child sid n \<in> dir_nodes D w \<longrightarrow> dir_next D w1 = dir_next D w) \<and> dir_next D w1 \<le> Suc (dir_next D w)"
proof -
  from quiet_getchildren [OF laws, of w] obtain kids wl where
    l: "retry_getchildren api zh path 3 w = ((ZOK, kids), wl)" "same_dir D w wl" "set kids = dir_nodes D w" by blast
  note g = l(1)
  have kid: "\<exists>t k. c = lock_child t k \<and> k < seq_max" if "c \<in> set kids" for c
    using that l(3) dir_okD [OF ok] by blast
  show ?thesis
  proof (cases "\<exists>k < seq_max. lock_child sid k \<in> dir_nodes D w")
    case True
    with n have c: "n < seq_max" "lock_child sid n \<in> dir_nodes D w"
      "\<And>k. k < seq_max \<Longrightarrow> lock_child sid k \<in> dir_nodes D w \<Longrightarrow> k = n" by (simp_all add: queue_counter_def)
    have "lookupnode kids (lock_prefix sid) \<noteq> None"
      using l(3) c(2) by (auto simp: lookupnode_None intro!: bexI [of _ "lock_child sid n"])
    then obtain x where x: "lookupnode kids (lock_prefix sid) = Some x" by blast
    then have "x \<in> set kids" "take 19 x = lock_prefix sid" using lookupnode_SomeD [OF x] by simp_all
    then have "x = lock_child sid n" using kid [of x] c(3) l(3) by auto
    with x g m have "lock_find_or_create api m path w = (Inr (), m\<lparr>m_id := Str (lock_child sid n)\<rparr>, wl)"
      by (simp add: lock_find_or_create_def split_beta quiet_client [OF laws])
    moreover have "dir_nodes D wl = insert (lock_child sid n) (dir_nodes D w)" "dir_ok D wl" "dir_next D wl = dir_next D w"
      using l(2) c(2) ok by (auto simp: same_dir_ok) (auto simp: same_dir_def)
    moreover from this(3) have "dir_next D wl \<le> Suc (dir_next D w)" by simp
    ultimately show ?thesis using c(1) by blast
  next
    case False
    with n have n': "n = dir_next D w" by (simp add: queue_counter_def)
    have "take 19 x \<noteq> lock_prefix sid" if "x \<in> set kids" for x using kid [OF that] False that l(3) by auto
    then have none: "lookupnode kids (lock_prefix sid) = None" by (simp add: lookupnode_None)
    have nx: "dir_next D wl = n" "dir_nodes D wl = dir_nodes D w" using l(2) n' by (simp_all add: same_dir_def)
    with quiet_create [OF laws, of wl "m_acl m" "length path + 41"] room n' obtain w1 where
      cr: "zoo_create api zh (child_path path (lock_prefix sid)) None 0 (m_acl m) (or ZOO_EPHEMERAL ZOO_SEQUENCE)
          (length path + 41) wl = ((ZOK, snprintf (length path + 41) (child_path path (lock_child sid n))), w1)"
        "dir_nodes D w1 = insert (lock_child sid n) (dir_nodes D w)" "dir_next D w1 = Suc n" by auto
    have old: "k < n \<and> k < seq_max" if "lock_child t k \<in> dir_nodes D w" "k < seq_max" for t k
      using dir_okD [OF ok that(1)] lock_child_inj [OF that(2)] that(2) n' by auto
    have "dir_ok D w1" unfolding dir_ok_def cr(2,3)
    proof (intro conjI ballI allI impI)
      fix c assume "c \<in> insert (lock_child sid n) (dir_nodes D w)"
      then show "\<exists>s k. c = lock_child s k \<and> k < Suc n" using dir_okD [OF ok, of c] n' by (auto simp: less_Suc_eq)
    next
      fix s t k assume k: "k < seq_max" "lock_child s k \<in> insert (lock_child sid n) (dir_nodes D w)"
        "lock_child t k \<in> insert (lock_child sid n) (dir_nodes D w)"
      have uniq: "s = t" if "lock_child s k \<in> dir_nodes D w" "lock_child t k \<in> dir_nodes D w"
        using ok k(1) that unfolding dir_ok_def by blast
      show "s = t" using uniq old [of s k] old [of t k] lock_child_inj [of k n] room(2) n' k by auto
    qed (use room n' in simp)
    moreover have "lock_child sid n \<notin> dir_nodes D w" using False room(2) n' by blast
    ultimately show ?thesis using cr g none m room n'
      by (simp add: lock_find_or_create_def split_beta quiet_client [OF laws] snprintf_lock_buf
          snprintf_retbuf getName_child_path lock_child_no_slash Let_def add.commute)
  qed
qed

lemma quiet_decide:
  assumes laws: "quiet_lock_laws api D zh path sid cap" and ok: "dir_ok D w"
    and m: "m_zh m = zh" and mem: "lock_child sid n \<in> dir_nodes D w" "n < seq_max"
  shows "\<exists>t k b w'. lock_decide api m path (lock_child sid n) w =
      Some (Ret (ZOK, m\<lparr>m_ownerid := Str (lock_child t k), m_isOwner := b\<rparr>, w')) \<and> same_dir D w w' \<and>
    lock_child t k \<in> dir_nodes D w \<and> k < seq_max \<and> least_child D w k"
proof -
  from quiet_getchildren [OF laws, of w] obtain kids wl where
    l: "retry_getchildren api zh path 3 w = ((ZOK, kids), wl)" "same_dir D w wl" "set kids = dir_nodes D w" by blast
  note g = l(1)
  have "list_all (\<lambda>c. strrchr c (CHR ''-'') \<noteq> None) kids"
    using l(3) dir_okD [OF ok] strrchr_lock_child by (fastforce simp: list_all_iff simp del: strrchr_None)
  then obtain sv where sv: "sort_children kids = Ret sv" using sort_children_Ret by blast
  with mem l(3) sort_children_set [OF sv] obtain owner rest where s: "sort_children kids = Ret (owner # rest)"
    by (cases sv) auto
  from sorted_head_least [OF ok l(3) s] obtain t k where o: "owner = lock_child t k" "k < dir_next D w"
    "owner \<in> dir_nodes D w" "least_child D w k" .
  have k: "k < seq_max" using o(2) ok by (simp add: dir_ok_def)
  show ?thesis
  proof (cases "child_floor (owner # rest) (lock_child sid n)")
    case (Some pred)
    then have "pred \<in> dir_nodes D wl"
      using child_floor_SomeD [OF Some] sort_children_set [OF s] l(2,3) by (auto simp: same_dir_def)
    from quiet_watch [OF laws this] obtain st w2 where
      w2: "zoo_wexists api zh (child_path path pred) (Some LockWatcher) wl = ((ZOK, st), w2)" "same_dir D wl w2" by blast
    then have "retry_zoowexists api zh (child_path path pred) LockWatcher 3 wl = ((ZOK, st), w2)"
      unfolding retry_zoowexists_def by (intro retry_upto_answered) simp_all
    with Some g s m o k w2(2) l(2) show ?thesis
      by (auto simp: lock_decide_def Let_def intro: same_dir_trans)
  next
    case None
    have "same_dir D wl (call_completion api m' 0 wl)" for m'
      using quiet_completion [OF laws] by (simp add: call_completion_def same_dir_def split: option.split)
    note sd = same_dir_trans [OF l(2) this]
    show ?thesis
    proof (cases "lock_child sid n = owner")
      case True
      with None g s m o k sd show ?thesis by (auto simp: lock_decide_def Let_def)
    next
      case False
      have "m\<lparr>m_ownerid := Str owner\<rparr> = m\<lparr>m_ownerid := Str owner, m_isOwner := m_isOwner m\<rparr>" by (cases m) simp
      with False None g s m have "lock_decide api m path (lock_child sid n) w =
          Some (Ret (ZOK, m\<lparr>m_ownerid := Str owner, m_isOwner := m_isOwner m\<rparr>, wl))"
        by (simp add: lock_decide_def Let_def)
      with o k l(2) show ?thesis by blast
    qed
  qed
qed

text \<open>
  A call of lock taken apart: it asks for the path, finds or creates the own child, and decides. It comes
  back, the client has its child in the queue, nothing else has changed, and it is the owner if and only
  if no child has a smaller counter.
\<close>

lemma quiet_lock_steps:
  assumes laws: "quiet_lock_laws api D (m_zh m) path sid cap" and ok: "dir_ok D w"
    and m: "mutex_ok m" "m_path m = Str path"
    and room: "dir_next D w < cap" "dir_next D w < seq_max" and n: "queue_counter D sid w n"
  obtains st w1 w2 m' w' where
    "zoo_exists api (m_zh m) path False w = ((ZOK, st), w1)"
    "lock_find_or_create api (m\<lparr>m_pmutex := PLocked\<rparr>) path w1 =
      (Inr (), m\<lparr>m_pmutex := PLocked, m_id := Str (lock_child sid n)\<rparr>, w2)"
    "lock_decide api (m\<lparr>m_pmutex := PLocked, m_id := Str (lock_child sid n)\<rparr>) path (lock_child sid n) w2 =
      Some (Ret (ZOK, m'\<lparr>m_pmutex := PLocked\<rparr>, w'))"
    "dir_ok D w2" "dir_nodes D w2 = insert (lock_child sid n) (dir_nodes D w)" "same_dir D w2 w'" "n < seq_max"
    "zkr_lock_lock api m w = Some (Ret (least_child D w n, m', w'))"
    "m_id m' = Str (lock_child sid n)" "mutex_ok m'" "same_config m m'"
    "lock_child sid n \<in> dir_nodes D w \<Longrightarrow> dir_next D w' = dir_next D w" "dir_next D w' \<le> Suc (dir_next D w)"
proof -
  let ?zh = "m_zh m" and ?m = "m\<lparr>m_pmutex := PLocked\<rparr>"
  have f: "m_pmutex m = PUnlocked" using m(1) by (simp add: mutex_defs)
  from quiet_exists [OF laws, of w] obtain st w1 where
    e: "zoo_exists api ?zh path False w = ((ZOK, st), w1)" "same_dir D w w1" by blast
  have w1: "dir_ok D w1" "dir_next D w1 < cap" "dir_next D w1 < seq_max" "queue_counter D sid w1 n"
    "dir_nodes D w1 = dir_nodes D w" "dir_next D w1 = dir_next D w"
    using e(2) ok room same_dir_queue [OF e(2)] n by (simp_all add: same_dir_ok) (simp_all add: same_dir_def)
  have "m_zh ?m = ?zh" by simp
  from quiet_find_or_create [OF laws w1(1) this w1(2-4)] w1(5,6) obtain w2 where
    c: "lock_find_or_create api ?m path w1 = (Inr (), ?m\<lparr>m_id := Str (lock_child sid n)\<rparr>, w2)"
      "dir_nodes D w2 = insert (lock_child sid n) (dir_nodes D w)" "dir_ok D w2" "n < seq_max"
      "lock_child sid n \<in> dir_nodes D w \<longrightarrow> dir_next D w2 = dir_next D w" "dir_next D w2 \<le> Suc (dir_next D w)" by auto
  let ?m1 = "?m\<lparr>m_id := Str (lock_child sid n)\<rparr>"
  have "m_zh ?m1 = ?zh" "lock_child sid n \<in> dir_nodes D w2" using c(2) by simp_all
  from quiet_decide [OF laws c(3) this c(4)] obtain t k b w3 where
    d: "lock_decide api ?m1 path (lock_child sid n) w2 =
        Some (Ret (ZOK, ?m1\<lparr>m_ownerid := Str (lock_child t k), m_isOwner := b\<rparr>, w3))"
      "same_dir D w2 w3" "lock_child t k \<in> dir_nodes D w2" "k < seq_max" "least_child D w2 k" by blast
  define m' where "m' = ?m1\<lparr>m_ownerid := Str (lock_child t k), m_isOwner := b, m_pmutex := PUnlocked\<rparr>"
  have op: "zkr_lock_operation api ?m w1 = Some (Ret (ZOK, ?m1\<lparr>m_ownerid := Str (lock_child t k), m_isOwner := b\<rparr>, w3))"
    using m(2) c(1) d(1) by (simp add: zkr_lock_operation.simps [of api ?m w1])
  have ok': "mutex_ok m'" using m by (simp add: m'_def mutex_defs)
  have least: "least_child D w2 n \<longleftrightarrow> least_child D w n"
    using c(2,4) lock_child_inj [of _ n _ sid] by (auto simp: least_child_def)
  have "lock_child sid n = lock_child t k \<longleftrightarrow> least_child D w n"
  proof
    assume "lock_child sid n = lock_child t k"
    then have "n = k" using lock_child_inj [OF c(4) d(4)] by simp
    with d(5) least show "least_child D w n" by simp
  next
    assume "least_child D w n"
    with least have "sid = t \<and> n = k"
      using least_child_unique [OF c(3) _ d(3) c(4) d(4) _ d(5), of sid] c(2) by blast
    then show "lock_child sid n = lock_child t k" by simp
  qed
  then have "zkr_lock_isowner m' = Ret (least_child D w n)"
    using ok' isowner_ok [of m'] by (simp add: mutex_ok_def) (simp add: m'_def)
  moreover have "lock_op_loop api 4 ZCONNECTIONLOSS ?m w1 =
      Some (Ret (ZOK, ?m1\<lparr>m_ownerid := Str (lock_child t k), m_isOwner := b\<rparr>, w3))"
    using op by (simp add: op_loop_first op_loop_done)
  moreover have "ensure_path api ?zh path (m_acl m) 4 ZOK w1 = (ZOK, w1)" by (rule ensure_path_done) simp_all
  ultimately have "zkr_lock_lock api m w =
      Some (Ret (least_child D w n, m', w3))"
    using f m(2) e(1) by (simp add: zkr_lock_lock_def pthread_mutex_lock_def pthread_mutex_unlock_def Let_def m'_def)
  moreover have "same_config m m'" by (simp add: m'_def same_config_def)
  moreover have "lock_child sid n \<in> dir_nodes D w \<Longrightarrow> dir_next D w3 = dir_next D w"
    using d(2) c(5) by (simp add: same_dir_def)
  moreover have "dir_next D w3 \<le> Suc (dir_next D w)" using d(2) c(6) by (simp add: same_dir_def)
  moreover have "m_id m' = Str (lock_child sid n)"
    "?m1\<lparr>m_ownerid := Str (lock_child t k), m_isOwner := b\<rparr> = m'\<lparr>m_pmutex := PLocked\<rparr>" by (simp_all add: m'_def)
  ultimately show thesis using that [OF e(1) c(1) _ c(3,2) d(2) c(4)] d(1) ok' by simp
qed

lemma quiet_lock:
  assumes "quiet_lock_laws api D (m_zh m) path sid cap" and "dir_ok D w"
    and "mutex_ok m" "m_path m = Str path"
    and "dir_next D w < cap" "dir_next D w < seq_max" and "queue_counter D sid w n"
  shows "\<exists>m' w'. zkr_lock_lock api m w =
      Some (Ret (least_child D w n, m', w')) \<and>
    m_id m' = Str (lock_child sid n) \<and> mutex_ok m' \<and> same_config m m' \<and>
    dir_nodes D w' = insert (lock_child sid n) (dir_nodes D w) \<and> dir_ok D w' \<and>
    (lock_child sid n \<in> dir_nodes D w \<longrightarrow> dir_next D w' = dir_next D w) \<and> dir_next D w' \<le> Suc (dir_next D w)"
proof -
  from quiet_lock_steps [OF assms] obtain m' w' w2 where l:
    "zkr_lock_lock api m w = Some (Ret (least_child D w n, m', w'))" "m_id m' = Str (lock_child sid n)"
    "mutex_ok m'" "same_config m m'" "dir_nodes D w2 = insert (lock_child sid n) (dir_nodes D w)" "dir_ok D w2"
    "same_dir D w2 w'" "lock_child sid n \<in> dir_nodes D w \<Longrightarrow> dir_next D w' = dir_next D w"
    "dir_next D w' \<le> Suc (dir_next D w)" by metis
  then have "dir_nodes D w' = insert (lock_child sid n) (dir_nodes D w)" "dir_ok D w'"
    by (simp_all add: same_dir_ok) (simp add: same_dir_def)
  with l show ?thesis by blast
qed

lemma quiet_unlock:
  assumes laws: "quiet_lock_laws api D (m_zh m) path sid cap" and m: "mutex_ok m" "m_path m = Str path"
    and i: "m_id m = Str c" "c \<in> dir_nodes D w"
  shows "\<exists>m' w'. zkr_lock_unlock api m w = Ret (0, m', w') \<and> m_id m' = Null \<and>
    dir_nodes D w' = dir_nodes D w - {c} \<and> dir_next D w' = dir_next D w"
proof -
  from quiet_delete [OF laws i(2)] obtain w1 where d: "zoo_delete api (m_zh m) (child_path path c) (-1) w = (ZOK, w1)"
    "dir_nodes D w1 = dir_nodes D w - {c}" "dir_next D w1 = dir_next D w" by blast
  then have "delete_result api m path c w = (ZOK, w1)"
    by (simp add: delete_result_def status_op_eq retry_upto_answered)
  moreover have "same_dir D w1 (call_completion api m 1 w1)"
    using quiet_completion [OF laws] by (simp add: call_completion_def same_dir_def split: option.split)
  moreover have "m_pmutex m = PUnlocked" using m(1) by (simp add: mutex_defs)
  ultimately show ?thesis using d(2,3) i m(2) by (simp add: unlock_eq same_dir_def)
qed

section \<open>The queue is served in order\<close>

text \<open>Each client in turn locks and gives the lock up again; the results of its two calls.\<close>

fun serve_queue :: "'w zk_api \<Rightarrow> zkr_lock_mutex list \<Rightarrow> 'w \<Rightarrow> ((bool \<times> int) list \<times> 'w) run" where
  "serve_queue api [] w = Some (Ret ([], w))"
| "serve_queue api (m # ms) w = xbind (zkr_lock_lock api m w) (\<lambda>(b, m1, w1).
     xbind (Some (zkr_lock_unlock api m1 w1)) (\<lambda>(r, m2, w2).
       xbind (serve_queue api ms w2) (\<lambda>(rs, w3). Some (Ret ((b, r) # rs, w3)))))"

text \<open>A client that waits: its mutex struct, its session and the counter of its child.\<close>

type_synonym waiter = "zkr_lock_mutex \<times> 64 word \<times> nat"

definition waiter_ok :: "'w zk_api \<Rightarrow> 'w lock_dir \<Rightarrow> string \<Rightarrow> nat \<Rightarrow> waiter \<Rightarrow> bool" where
  "waiter_ok api D path cap = (\<lambda>(m, s, n). mutex_ok m \<and> m_path m = Str path \<and> n < seq_max \<and>
     quiet_lock_laws api D (m_zh m) path s cap)"

definition waiter_child :: "waiter \<Rightarrow> string" where
  "waiter_child = (\<lambda>(m, s, n). lock_child s n)"

definition queue_of :: "'w lock_dir \<Rightarrow> waiter list \<Rightarrow> 'w \<Rightarrow> bool" where
  "queue_of D ws w \<longleftrightarrow> dir_nodes D w = waiter_child ` set ws \<and> dir_ok D w \<and>
     sorted_wrt (<) (map (snd \<circ> snd) ws) \<and> distinct (map (fst \<circ> snd) ws)"

lemma dir_ok_remove: "dir_ok D w \<Longrightarrow> dir_nodes D w' \<subseteq> dir_nodes D w \<Longrightarrow> dir_next D w' = dir_next D w \<Longrightarrow> dir_ok D w'"
  unfolding dir_ok_def by (metis subset_iff)

lemma serve_first:
  assumes q: "queue_of D ((m, s, n) # ws) w" and ok: "list_all (waiter_ok api D path cap) ((m, s, n) # ws)"
    and room: "dir_next D w < cap" "dir_next D w < seq_max"
  shows "\<exists>m1 w1 m2 w2. zkr_lock_lock api m w = Some (Ret (True, m1, w1)) \<and> zkr_lock_unlock api m1 w1 = Ret (0, m2, w2) \<and>
    queue_of D ws w2 \<and> dir_next D w2 = dir_next D w"
proof -
  have m: "mutex_ok m" "m_path m = Str path" "n < seq_max" "quiet_lock_laws api D (m_zh m) path s cap"
    and rest: "(m', s', n') \<in> set ws \<Longrightarrow> n' < seq_max" for m' s' n'
    using ok by (auto simp: waiter_ok_def list_all_iff)
  have nodes: "dir_nodes D w = insert (lock_child s n) (waiter_child ` set ws)" and dok: "dir_ok D w"
    using q by (auto simp: queue_of_def waiter_child_def)
  have "\<forall>c\<in>set ws. n < snd (snd c) \<and> fst (snd c) \<noteq> s" using q unfolding queue_of_def by auto
  then have after: "n < n' \<and> s' \<noteq> s" if "(m', s', n') \<in> set ws" for m' s' n' using that by fastforce
  have member: "t = s \<and> k = n \<or> (\<exists>m'. (m', t, k) \<in> set ws)" if k: "lock_child t k \<in> dir_nodes D w" "k < seq_max" for t k
  proof (cases "lock_child t k = lock_child s n")
    case True
    with lock_child_inj [OF k(2) m(3)] show ?thesis by simp
  next
    case False
    with k(1) nodes obtain m' s' n' where "(m', s', n') \<in> set ws" "lock_child t k = lock_child s' n'"
      by (auto simp: waiter_child_def)
    with lock_child_inj [OF k(2), of n' t s'] rest show ?thesis by blast
  qed
  have own: "lock_child s n \<in> dir_nodes D w" using nodes by simp
  have "k = n" if "k < seq_max" "lock_child s k \<in> dir_nodes D w" for k
    using member [OF that(2,1)] after by blast
  with m(3) own have "queue_counter D s w n" unfolding queue_counter_def by (subst if_P) blast+
  from quiet_lock [OF m(4) dok m(1,2) room this] obtain m1 w1 where
    l: "zkr_lock_lock api m w = Some (Ret (least_child D w n, m1, w1))" "m_id m1 = Str (lock_child s n)" "mutex_ok m1"
      "same_config m m1" "dir_nodes D w1 = dir_nodes D w" "dir_next D w1 = dir_next D w" "dir_ok D w1"
    using own by (auto simp: insert_absorb)
  have "n \<le> k" if "k < seq_max" "lock_child t k \<in> dir_nodes D w" for t k
    using member [OF that(2,1)] after by (auto intro: less_imp_le)
  then have least: "least_child D w n" by (simp add: least_child_def)
  have "quiet_lock_laws api D (m_zh m1) path s cap" "m_path m1 = Str path" "lock_child s n \<in> dir_nodes D w1"
    using m(2,4) l(4,5) nodes by (simp_all add: same_config_def)
  from quiet_unlock [OF this(1) l(3) this(2) l(2) this(3)] obtain m2 w2 where
    u: "zkr_lock_unlock api m1 w1 = Ret (0, m2, w2)" "dir_nodes D w2 = dir_nodes D w - {lock_child s n}"
      "dir_next D w2 = dir_next D w" using l(5,6) by auto
  have "lock_child s n \<notin> waiter_child ` set ws"
    using after rest lock_child_inj [OF m(3)] by (fastforce simp: waiter_child_def)
  then have "dir_nodes D w2 = waiter_child ` set ws" using u(2) nodes by simp
  moreover have "dir_ok D w2" using dir_ok_remove [OF dok _ u(3)] u(2) by blast
  ultimately have "queue_of D ws w2" using q by (simp add: queue_of_def)
  moreover have "zkr_lock_lock api m w = Some (Ret (True, m1, w1))" using l(1) least by simp
  ultimately show ?thesis using u(1,3) by blast
qed

text \<open>
  C12: with a server that answers and no other activity, one call of lock is exact. It comes back with
  the client's child in the queue (found by the session prefix, or created with the next counter) and no
  other change, and says true if and only if no child has a smaller counter.
\<close>

theorem lock_result_exact:
  assumes "quiet_lock_laws api D (m_zh m) path sid cap" and "dir_ok D w"
    and "mutex_ok m" and "m_path m = Str path"
    and "dir_next D w < cap" and "dir_next D w < seq_max" and "queue_counter D sid w n"
  shows "\<exists>m' w'. zkr_lock_lock api m w =
      Some (Ret (\<forall>t k. k < seq_max \<longrightarrow> lock_child t k \<in> dir_nodes D w \<longrightarrow> n \<le> k, m', w')) \<and>
    m_id m' = Str (lock_child sid n) \<and> dir_nodes D w' = insert (lock_child sid n) (dir_nodes D w)"
  using quiet_lock [OF assms] unfolding least_child_def by blast

lemma child_path_inj [simp]: "child_path p c = child_path p d \<longleftrightarrow> c = d"
  by (simp add: child_path_def)

lemma dir_api_quiet: "quiet_lock_laws (dir_api_at path) dir_view zh path (of_nat zh) 9"
  unfolding quiet_lock_laws_def same_dir_def
  by (auto simp: dir_view_def dir_create_def Let_def)

theorem lock_result_exact_witness:
  "\<exists>m' w'. zkr_lock_lock dir_api (client_mutex 2) ([lock_child 1 0], 1) = Some (Ret (False, m', w')) \<and>
    m_id m' = Str (lock_child (of_nat 2) 1)"
proof -
  let ?w = "([lock_child 1 0], 1) :: dir_world"
  have room: "dir_next dir_view ?w < 9" "dir_next dir_view ?w < seq_max" by (simp_all add: dir_view_def)
  have "dir_ok dir_view ?w" by (rule dir_step_ok [OF dir_step_first])
  moreover have "queue_counter dir_view (of_nat 2) ?w 1"
    using lock_child_inj [of _ 0] by (auto simp: queue_counter_def dir_view_def)
  moreover have "quiet_lock_laws dir_api dir_view (m_zh (client_mutex 2)) ''/l'' (of_nat 2) 9"
    "mutex_ok (client_mutex 2)" "m_path (client_mutex 2) = Str ''/l''"
    using dir_api_quiet [of "''/l''" 2] by (simp_all add: client_mutex_def zkr_lock_init_def mutex_defs)
  ultimately have "\<exists>m' w'. zkr_lock_lock dir_api (client_mutex 2) ?w = Some (Ret
      (\<forall>t k. k < seq_max \<longrightarrow> lock_child t k \<in> dir_nodes dir_view ?w \<longrightarrow> 1 \<le> k, m', w')) \<and>
    m_id m' = Str (lock_child (of_nat 2) 1) \<and>
    dir_nodes dir_view w' = insert (lock_child (of_nat 2) 1) (dir_nodes dir_view ?w)"
    using room by (intro lock_result_exact)
  moreover have "(\<forall>t k. k < seq_max \<longrightarrow> lock_child t k \<in> dir_nodes dir_view ?w \<longrightarrow> 1 \<le> k) = False"
    by (simp add: dir_view_def) (rule exI [of _ 1], rule exI [of _ 0], simp)
  ultimately show ?thesis by (simp only:) blast
qed

text \<open>
  C13: the lock is handed over in the order of the queue. If the directory holds exactly the children of the waiting
  clients, and each client in the order of the counters calls lock and then unlock, then every lock is
  granted at its first call, every unlock succeeds, and the directory ends empty.
\<close>

theorem queue_served_in_order:
  assumes "queue_of D ws w" and "list_all (waiter_ok api D path cap) ws"
    and "dir_next D w < cap" and "dir_next D w < seq_max"
  shows "\<exists>w'. serve_queue api (map fst ws) w = Some (Ret (replicate (length ws) (True, 0), w')) \<and> dir_nodes D w' = {}"
  using assms
proof (induction ws arbitrary: w)
  case Nil
  then show ?case by (simp add: queue_of_def)
next
  case (Cons c ws)
  obtain m s n where c: "c = (m, s, n)" by (metis prod_cases3)
  from serve_first [OF Cons.prems(1,2) [unfolded c] Cons.prems(3,4)] obtain m1 w1 m2 w2 where
    f: "zkr_lock_lock api m w = Some (Ret (True, m1, w1))" "zkr_lock_unlock api m1 w1 = Ret (0, m2, w2)"
      "queue_of D ws w2" "dir_next D w2 = dir_next D w" by blast
  with Cons.IH [OF f(3)] Cons.prems obtain w' where
    "serve_queue api (map fst ws) w2 = Some (Ret (replicate (length ws) (True, 0), w'))" "dir_nodes D w' = {}" by auto
  with f(1,2) c show ?case by simp
qed

theorem queue_served_in_order_witness:
  "\<exists>w'. serve_queue dir_api [locked_mutex, waiting_mutex] two_children = Some (Ret ([(True, 0), (True, 0)], w'))"
proof -
  let ?ws = "[(locked_mutex, 1, 0), (waiting_mutex, 2, 1)] :: waiter list"
  have "queue_of dir_view ?ws two_children"
    using dir_step_ok [OF dir_step_second]
    by (simp add: queue_of_def waiter_child_def) (simp add: dir_view_def two_children_def)
  moreover have "list_all (waiter_ok dir_api dir_view ''/l'' 9) ?ws"
    using dir_api_quiet [of "''/l''" 1] dir_api_quiet [of "''/l''" 2]
    by (simp add: waiter_ok_def locked_mutex_def waiting_mutex_def client_mutex_def zkr_lock_init_def mutex_defs)
  moreover have "dir_next dir_view two_children < 9" "dir_next dir_view two_children < seq_max"
    by (simp_all add: dir_view_def two_children_def)
  ultimately have "\<exists>w'. serve_queue dir_api (map fst ?ws) two_children =
      Some (Ret (replicate (length ?ws) (True, 0), w')) \<and> dir_nodes dir_view w' = {}"
    by (rule queue_served_in_order)
  moreover have "replicate (length ?ws) (True, 0 :: int) = [(True, 0), (True, 0)]" by (simp add: numeral_2_eq_2)
  ultimately show ?thesis by auto
qed

end
