(* ===== verification/Lock_Watches.thy ===== *)
theory Lock_Watches
  imports Lock_Progress
begin

text \<open>
  Notification of waiting clients. A client that does not get the lock of \<open>zoo_lock.c\<close> watches another
  child, and the event of the watch calls lock again. This theory adds the watches and the pending events to
  the view of the server, runs any number of clients over it, and shows when no wakeup is lost. Calls of different
  clients do not overlap here; \<open>Lock_Overlap\<close> is about calls that do.
\<close>

section \<open>Watches and events\<close>

text \<open>
  The armed watches with their clients and the clients with an undelivered event; \<open>wv_take\<close> hands the
  event of a client to its watcher function.
\<close>

record 'w watch_view =
  wv_armed :: "'w \<Rightarrow> (zhandle \<times> string) set"
  wv_pending :: "'w \<Rightarrow> zhandle set"
  wv_take :: "zhandle \<Rightarrow> 'w \<Rightarrow> 'w"

definition same_watch :: "'w watch_view \<Rightarrow> 'w \<Rightarrow> 'w \<Rightarrow> bool" where
  "same_watch W w w' \<longleftrightarrow> wv_armed W w' = wv_armed W w \<and> wv_pending W w' = wv_pending W w"

text \<open>
  ZooKeeper's contract of one-shot watches: watching an existing child arms a watch, the deletion of the
  child turns every watch of it into an event, and no other call touches watches or events.
\<close>

definition watch_laws :: "'w zk_api \<Rightarrow> 'w lock_dir \<Rightarrow> 'w watch_view \<Rightarrow> zhandle \<Rightarrow> string \<Rightarrow> bool" where
  "watch_laws api D W zh path \<longleftrightarrow>
     (\<forall>w. same_watch W w (snd (zoo_exists api zh path False w))) \<and>
     (\<forall>w. same_watch W w (snd (zoo_get_children api zh path False w))) \<and>
     (\<forall>w p acl sz. same_watch W w (snd (zoo_create api zh p None 0 acl (or ZOO_EPHEMERAL ZOO_SEQUENCE) sz w))) \<and>
     (\<forall>w c w'. c \<in> dir_nodes D w \<longrightarrow> snd (zoo_wexists api zh (child_path path c) (Some LockWatcher) w) = w' \<longrightarrow>
        wv_armed W w' = insert (zh, c) (wv_armed W w) \<and> wv_pending W w' = wv_pending W w) \<and>
     (\<forall>w c w'. c \<in> dir_nodes D w \<longrightarrow> snd (zoo_delete api zh (child_path path c) (-1) w) = w' \<longrightarrow>
        wv_armed W w' = wv_armed W w - {x. snd x = c} \<and>
        wv_pending W w' = wv_pending W w \<union> {z. (z, c) \<in> wv_armed W w}) \<and>
     (\<forall>w f rc cb. same_watch W w (run_completion api f rc cb w)) \<and>
     (\<forall>w. same_dir D w (wv_take W zh w) \<and> wv_armed W (wv_take W zh w) = wv_armed W w \<and>
        wv_pending W (wv_take W zh w) = wv_pending W w - {zh})"

lemma watch_lawsD:
  assumes "watch_laws api D W zh path"
  shows watch_exists: "zoo_exists api zh path False w = (x, w') \<Longrightarrow> same_watch W w w'"
    and watch_list: "zoo_get_children api zh path False w = (y, w') \<Longrightarrow> same_watch W w w'"
    and watch_create: "zoo_create api zh p None 0 acl (or ZOO_EPHEMERAL ZOO_SEQUENCE) sz w = (z, w') \<Longrightarrow> same_watch W w w'"
    and watch_arm: "c \<in> dir_nodes D w \<Longrightarrow> zoo_wexists api zh (child_path path c) (Some LockWatcher) w = (x, w') \<Longrightarrow>
        wv_armed W w' = insert (zh, c) (wv_armed W w) \<and> wv_pending W w' = wv_pending W w"
    and watch_delete: "c \<in> dir_nodes D w \<Longrightarrow> zoo_delete api zh (child_path path c) (-1) w = (r, w') \<Longrightarrow>
        wv_armed W w' = wv_armed W w - {x. snd x = c} \<and>
        wv_pending W w' = wv_pending W w \<union> {z. (z, c) \<in> wv_armed W w}"
    and watch_completion: "same_watch W w (run_completion api f rc cb w)"
    and watch_take: "same_dir D w (wv_take W zh w) \<and> wv_armed W (wv_take W zh w) = wv_armed W w \<and>
        wv_pending W (wv_take W zh w) = wv_pending W w - {zh}"
  using assms unfolding watch_laws_def by (metis snd_conv)+

lemma same_watch_refl [simp]: "same_watch W w w"
  by (simp add: same_watch_def)

lemma same_watch_trans: "same_watch W a b \<Longrightarrow> same_watch W b c \<Longrightarrow> same_watch W a c"
  by (simp add: same_watch_def)

section \<open>Whom a waiter watches\<close>

text \<open>
  \<open>child_floor\<close> compares whole names. It finds the child before the own one when the session ids in
  the queue ascend with the counters.
\<close>

definition sessions_ascend :: "'w lock_dir \<Rightarrow> 'w \<Rightarrow> bool" where
  "sessions_ascend D w \<longleftrightarrow> (\<forall>s t n k. n < seq_max \<longrightarrow> k < seq_max \<longrightarrow> lock_child s n \<in> dir_nodes D w \<longrightarrow>
     lock_child t k \<in> dir_nodes D w \<longrightarrow> n < k \<longrightarrow> unat s < unat t)"

definition direct_pred :: "'w lock_dir \<Rightarrow> 'w \<Rightarrow> nat \<Rightarrow> 64 word \<Rightarrow> nat \<Rightarrow> bool" where
  "direct_pred D w n t k \<longleftrightarrow> k < n \<and> k < seq_max \<and> lock_child t k \<in> dir_nodes D w \<and>
     (\<forall>u j. j < seq_max \<longrightarrow> lock_child u j \<in> dir_nodes D w \<longrightarrow> j < n \<longrightarrow> j \<le> k)"

lemma name_below_own:
  assumes ok: "dir_ok D w" and asc: "sessions_ascend D w"
    and own: "lock_child s n \<in> dir_nodes D w" "n < seq_max" and c: "lock_child t k \<in> dir_nodes D w" "k < seq_max"
  shows "lock_child t k < lock_child s n \<longleftrightarrow> k < n"
proof (cases k n rule: linorder_cases)
  case less
  then show ?thesis using asc own c lock_child_less_prefix unfolding sessions_ascend_def by blast
next
  case equal
  then have "s = t" using ok own c unfolding dir_ok_def by blast
  with equal show ?thesis by simp
next
  case greater
  then have "lock_child s n < lock_child t k"
    using asc own c lock_child_less_prefix unfolding sessions_ascend_def by blast
  with greater show ?thesis by (meson less_asym)
qed

lemma sorted_wrt_last: "sorted_wrt R xs \<Longrightarrow> x \<in> set xs \<Longrightarrow> x = last xs \<or> R x (last xs)"
  by (induction xs) auto

lemma floor_is_predecessor:
  assumes ok: "dir_ok D w" and asc: "sessions_ascend D w" and kids: "set kids = dir_nodes D w"
    and sort: "sort_children kids = Ret sv" and own: "lock_child s n \<in> dir_nodes D w" "n < seq_max"
  shows "child_floor sv (lock_child s n) = None \<Longrightarrow> least_child D w n"
    and "child_floor sv (lock_child s n) = Some c \<Longrightarrow> \<exists>t k. c = lock_child t k \<and> direct_pred D w n t k"
proof -
  note below = name_below_own [OF ok asc own]
  have sv: "set sv = dir_nodes D w" using sort_children_set [OF sort] kids by simp
  show "least_child D w n" if "child_floor sv (lock_child s n) = None"
    unfolding least_child_def
  proof (intro allI impI)
    fix t k assume k: "k < seq_max" "lock_child t k \<in> dir_nodes D w"
    then have "\<not> lock_child t k < lock_child s n" using that sv by (simp add: child_floor_None)
    with below [OF k(2,1)] show "n \<le> k" by simp
  qed
  show "\<exists>t k. c = lock_child t k \<and> direct_pred D w n t k" if fl: "child_floor sv (lock_child s n) = Some c"
  proof -
    let ?low = "filter (\<lambda>c. c < lock_child s n) sv"
    have c: "c = last ?low" "c \<in> dir_nodes D w" "c < lock_child s n"
      using fl child_floor_SomeD [OF fl] sv by (simp_all add: child_floor_eq split: if_splits)
    then obtain t k where k: "c = lock_child t k" "k < seq_max" using dir_okD [OF ok] by blast
    have "CHR ''-'' \<in> set x" if "x \<in> set kids" for x
      using that kids dir_okD [OF ok, of x] by (auto simp: lock_child_def lock_prefix_eq)
    with sort_children_sorts [of kids] sort have "sorted_wrt (\<lambda>a b. the (vstrcmp a b) \<le> 0) sv" by auto
    then have sorted: "sorted_wrt (\<lambda>a b. the (vstrcmp a b) \<le> 0) ?low" by (rule sorted_wrt_filter)
    have "j \<le> k" if j: "j < seq_max" "lock_child u j \<in> dir_nodes D w" "j < n" for u j
    proof -
      have "lock_child u j \<in> set ?low" using j sv below by simp
      from sorted_wrt_last [OF sorted this] have "lock_child u j = lock_child t k \<or>
          the (vstrcmp (lock_child u j) (lock_child t k)) \<le> 0" using c(1) k(1) by simp
      then show ?thesis
        using j(1) k(2) lock_child_inj [OF j(1) k(2)] by (auto simp: vstrcmp_lock_child strcmp_le printf_010d_le)
    qed
    moreover have "k < n" using below [of t k] c k by simp
    ultimately show ?thesis using c(2) k unfolding direct_pred_def by blast
  qed
qed

lemma same_dir_pred: "same_dir D w w' \<Longrightarrow> direct_pred D w' n t k = direct_pred D w n t k"
  by (simp add: same_dir_def direct_pred_def)

lemma same_dir_ascend: "same_dir D w w' \<Longrightarrow> sessions_ascend D w' = sessions_ascend D w"
  by (simp add: same_dir_def sessions_ascend_def)

lemma least_no_pred: "least_child D w n \<Longrightarrow> \<not> direct_pred D w n t k"
  unfolding least_child_def direct_pred_def by (meson not_le)

section \<open>Clients over one server\<close>

record 'w lock_net =
  net_world :: 'w
  net_lock :: "zhandle \<Rightarrow> zkr_lock_mutex"

definition net_laws ::
  "'w zk_api \<Rightarrow> 'w lock_dir \<Rightarrow> 'w watch_view \<Rightarrow> string \<Rightarrow> nat \<Rightarrow> (zhandle \<Rightarrow> 64 word) \<Rightarrow> zhandle set \<Rightarrow> bool" where
  "net_laws api D W path cap sid C \<longleftrightarrow> cap \<le> seq_max \<and> inj_on sid C \<and>
     (\<forall>zh\<in>C. quiet_lock_laws api D zh path (sid zh) cap \<and> watch_laws api D W zh path)"

definition put_lock :: "'w lock_net \<Rightarrow> zhandle \<Rightarrow> zkr_lock_mutex \<Rightarrow> 'w \<Rightarrow> 'w lock_net" where
  "put_lock s zh m w = \<lparr>net_world = w, net_lock = (net_lock s)(zh := m)\<rparr>"

text \<open>
  The runs of the clients \<open>C\<close>: each may call lock, give its child up, or be notified. \<open>run_lock\<close> and
  \<open>run_event\<close> keep to queues in which the session ids ascend.
\<close>

inductive net_run ::
  "'w zk_api \<Rightarrow> 'w lock_dir \<Rightarrow> 'w watch_view \<Rightarrow> string \<Rightarrow> nat \<Rightarrow> zhandle set \<Rightarrow> 'w lock_net \<Rightarrow> bool"
  for api D W path cap C where
  run_start: "(\<And>zh. zh \<in> C \<Longrightarrow> net_lock s zh = snd (zkr_lock_init (m0 zh) zh (Str path) acl)) \<Longrightarrow>
    dir_nodes D (net_world s) = {} \<Longrightarrow> dir_next D (net_world s) \<le> seq_max \<Longrightarrow> net_run api D W path cap C s"
| run_lock: "net_run api D W path cap C s \<Longrightarrow> zh \<in> C \<Longrightarrow> dir_next D (net_world s) < cap \<Longrightarrow>
    zkr_lock_lock api (net_lock s zh) (net_world s) = Some (Ret (b, m', w')) \<Longrightarrow> sessions_ascend D w' \<Longrightarrow>
    net_run api D W path cap C (put_lock s zh m' w')"
| run_event: "net_run api D W path cap C s \<Longrightarrow> zh \<in> C \<Longrightarrow> dir_next D (net_world s) < cap \<Longrightarrow>
    zh \<in> wv_pending W (net_world s) \<Longrightarrow>
    lock_watcher_fn api (net_lock s zh) (wv_take W zh (net_world s)) = Some (Ret (b, m', w')) \<Longrightarrow>
    sessions_ascend D w' \<Longrightarrow> net_run api D W path cap C (put_lock s zh m' w')"
| run_unlock: "net_run api D W path cap C s \<Longrightarrow> zh \<in> C \<Longrightarrow>
    zkr_lock_unlock api (net_lock s zh) (net_world s) = Ret (r, m', w') \<Longrightarrow>
    net_run api D W path cap C (put_lock s zh m' w')"

section \<open>The invariant\<close>

text \<open>
  A client in the queue knows that it is the owner, or watches the child before its own, or has an event; and
  it takes itself for the owner only when its child is the first.
\<close>

definition notified :: "'w lock_dir \<Rightarrow> 'w watch_view \<Rightarrow> 'w \<Rightarrow> zkr_lock_mutex \<Rightarrow> zhandle \<Rightarrow> nat \<Rightarrow> bool" where
  "notified D W w m zh n \<longleftrightarrow> (zkr_lock_isowner m = Ret True \<longrightarrow> least_child D w n) \<and>
     (least_child D w n \<and> zkr_lock_isowner m = Ret True \<or>
      (\<exists>t k. direct_pred D w n t k \<and> (zh, lock_child t k) \<in> wv_armed W w) \<or> zh \<in> wv_pending W w)"

definition queued_ok :: "'w lock_dir \<Rightarrow> (zhandle \<Rightarrow> 64 word) \<Rightarrow> zhandle set \<Rightarrow> 'w lock_net \<Rightarrow> bool" where
  "queued_ok D sid C s \<longleftrightarrow>
     (\<forall>t k. k < seq_max \<longrightarrow> lock_child t k \<in> dir_nodes D (net_world s) \<longrightarrow>
        (\<exists>zh\<in>C. t = sid zh \<and> m_id (net_lock s zh) = Str (lock_child t k))) \<and>
     (\<forall>zh\<in>C. \<forall>c. m_id (net_lock s zh) = Str c \<longrightarrow> c \<in> dir_nodes D (net_world s) \<and>
        (\<exists>n < seq_max. c = lock_child (sid zh) n))"

text \<open>\<open>X\<close> holds the clients that are about to call lock and owe the last clause until then.\<close>

definition net_inv ::
  "'w lock_dir \<Rightarrow> 'w watch_view \<Rightarrow> string \<Rightarrow> (zhandle \<Rightarrow> 64 word) \<Rightarrow> zhandle set \<Rightarrow> zhandle set \<Rightarrow> 'w lock_net \<Rightarrow> bool" where
  "net_inv D W path sid C X s \<longleftrightarrow> dir_ok D (net_world s) \<and> sessions_ascend D (net_world s) \<and>
     (\<forall>zh\<in>C. mutex_ok (net_lock s zh) \<and> m_path (net_lock s zh) = Str path \<and> m_zh (net_lock s zh) = zh) \<and>
     queued_ok D sid C s \<and>
     (\<forall>zh\<in>C - X. \<forall>n < seq_max. m_id (net_lock s zh) = Str (lock_child (sid zh) n) \<longrightarrow>
        notified D W (net_world s) (net_lock s zh) zh n)"

lemma net_invD:
  assumes "net_inv D W path sid C X s"
  shows "dir_ok D (net_world s)" "sessions_ascend D (net_world s)" "queued_ok D sid C s"
    "zh \<in> C \<Longrightarrow> mutex_ok (net_lock s zh)" "zh \<in> C \<Longrightarrow> m_path (net_lock s zh) = Str path"
    "zh \<in> C \<Longrightarrow> m_zh (net_lock s zh) = zh"
    "zh \<in> C \<Longrightarrow> zh \<notin> X \<Longrightarrow> n < seq_max \<Longrightarrow> m_id (net_lock s zh) = Str (lock_child (sid zh) n) \<Longrightarrow>
      notified D W (net_world s) (net_lock s zh) zh n"
  using assms unfolding net_inv_def by blast+

lemma queued_okD:
  assumes "queued_ok D sid C s"
  shows queued_holder: "k < seq_max \<Longrightarrow> lock_child t k \<in> dir_nodes D (net_world s) \<Longrightarrow>
      \<exists>zh\<in>C. t = sid zh \<and> m_id (net_lock s zh) = Str (lock_child t k)"
    and queued_child: "zh \<in> C \<Longrightarrow> m_id (net_lock s zh) = Str c \<Longrightarrow>
      c \<in> dir_nodes D (net_world s) \<and> (\<exists>n < seq_max. c = lock_child (sid zh) n)"
  using assms unfolding queued_ok_def by blast+

lemma queued_counter:
  assumes q: "queued_ok D sid C s" and inj: "inj_on sid C" and zh: "zh \<in> C"
  shows "\<exists>n. queue_counter D (sid zh) (net_world s) n"
proof (cases "\<exists>k < seq_max. lock_child (sid zh) k \<in> dir_nodes D (net_world s)")
  case True
  then obtain n where n: "n < seq_max" "lock_child (sid zh) n \<in> dir_nodes D (net_world s)" by blast
  have own: "m_id (net_lock s zh) = Str (lock_child (sid zh) k)"
    if "k < seq_max" "lock_child (sid zh) k \<in> dir_nodes D (net_world s)" for k
    using queued_holder [OF q that] inj_onD [OF inj _ _ zh] by metis
  have "k = n" if "k < seq_max" "lock_child (sid zh) k \<in> dir_nodes D (net_world s)" for k
  proof -
    have "lock_child (sid zh) k = lock_child (sid zh) n" using own [OF that] own [OF n] by simp
    then show ?thesis unfolding lock_child_inj [OF that(1) n(1)] by (rule conjunct2)
  qed
  then have "n < seq_max \<and> lock_child (sid zh) n \<in> dir_nodes D (net_world s) \<and>
      (\<forall>k < seq_max. lock_child (sid zh) k \<in> dir_nodes D (net_world s) \<longrightarrow> k = n)" using n by blast
  then have "queue_counter D (sid zh) (net_world s) n" unfolding queue_counter_def if_P [OF True] .
  then show ?thesis by (rule exI)
next
  case False
  have "queue_counter D (sid zh) (net_world s) (dir_next D (net_world s))"
    unfolding queue_counter_def if_not_P [OF False] by (rule refl)
  then show ?thesis by (rule exI)
qed

text \<open>Counters in the queue are below the next one.\<close>

lemma queued_below: "dir_ok D w \<Longrightarrow> lock_child t k \<in> dir_nodes D w \<Longrightarrow> k < seq_max \<Longrightarrow> k < dir_next D w"
  using dir_okD [of D w "lock_child t k"] lock_child_inj [of k _ t] by fastforce

lemma notified_mono:
  assumes "notified D W w m zh i" and least: "least_child D w i \<Longrightarrow> least_child D w' i"
    and watch: "\<And>t k. direct_pred D w i t k \<Longrightarrow> (zh, lock_child t k) \<in> wv_armed W w \<Longrightarrow>
      direct_pred D w' i t k \<and> (zh, lock_child t k) \<in> wv_armed W w' \<or> zh \<in> wv_pending W w'"
    and event: "zh \<in> wv_pending W w \<Longrightarrow> zh \<in> wv_pending W w'"
  shows "notified D W w' m zh i"
proof -
  from assms(1) have own: "zkr_lock_isowner m = Ret True \<Longrightarrow> least_child D w i"
    and cases: "least_child D w i \<and> zkr_lock_isowner m = Ret True \<or>
      (\<exists>t k. direct_pred D w i t k \<and> (zh, lock_child t k) \<in> wv_armed W w) \<or> zh \<in> wv_pending W w"
    by (simp_all add: notified_def)
  from cases least watch event have "least_child D w' i \<and> zkr_lock_isowner m = Ret True \<or>
      (\<exists>t k. direct_pred D w' i t k \<and> (zh, lock_child t k) \<in> wv_armed W w') \<or> zh \<in> wv_pending W w'"
    by blast
  with own least show ?thesis by (simp add: notified_def)
qed

text \<open>The other clients do not notice that a child joins at the end of the queue.\<close>

lemma notified_join:
  assumes nodes: "dir_nodes D w' = insert (lock_child s n) (dir_nodes D w)" "n < seq_max"
    and late: "lock_child s n \<in> dir_nodes D w \<or> i \<le> n"
    and watch: "wv_armed W w \<subseteq> wv_armed W w'" "wv_pending W w \<subseteq> wv_pending W w'"
    and "notified D W w m zh i"
  shows "notified D W w' m zh i"
proof -
  have new: "lock_child u j \<in> dir_nodes D w \<or> j = n" if "j < seq_max" "lock_child u j \<in> dir_nodes D w'" for u j
    using that nodes lock_child_inj [OF that(1) nodes(2)] by auto
  have "least_child D w' i" if "least_child D w i"
    using that late new unfolding least_child_def by (metis insert_absorb nodes(1))
  moreover have "direct_pred D w' i t k" if "direct_pred D w i t k" for t k
    using that late new nodes(1) unfolding direct_pred_def by (metis insert_absorb insert_iff not_le)
  ultimately show ?thesis using notified_mono [OF assms(6)] watch by blast
qed

text \<open>A child that leaves turns the watches of it into events.\<close>

lemma notified_leave:
  assumes nodes: "dir_nodes D w' = dir_nodes D w - {c}"
    and watch: "wv_armed W w' = wv_armed W w - {x. snd x = c}"
      "wv_pending W w' = wv_pending W w \<union> {z. (z, c) \<in> wv_armed W w}"
    and "notified D W w m zh i"
  shows "notified D W w' m zh i"
proof -
  show ?thesis
  proof (rule notified_mono [OF assms(4)])
    show "least_child D w' i" if "least_child D w i" using that unfolding least_child_def nodes by blast
    show "direct_pred D w' i t k \<and> (zh, lock_child t k) \<in> wv_armed W w' \<or> zh \<in> wv_pending W w'"
      if "direct_pred D w i t k" "(zh, lock_child t k) \<in> wv_armed W w" for t k
      using that watch nodes unfolding direct_pred_def by (cases "lock_child t k = c") auto
  qed (use watch in blast)
qed

section \<open>One call of lock and its watch\<close>

lemma watch_getchildren:
  assumes laws: "quiet_lock_laws api D zh path sid cap" "watch_laws api D W zh path"
    and call: "retry_getchildren api zh path 3 w = ((r, kids), w')"
  shows "same_watch W w w' \<and> same_dir D w w' \<and> set kids = dir_nodes D w"
proof -
  from quiet_list [OF laws(1), of w] obtain ks w1 where
    l: "zoo_get_children api zh path False w = ((ZOK, ks), w1)" "same_dir D w w1" "set ks = dir_nodes D w" by blast
  then have "retry_getchildren api zh path 3 w = ((ZOK, ks), w1)"
    by (simp add: retry_getchildren_def retry_upto_answered)
  with call l watch_list [OF laws(2) l(1)] show ?thesis by simp
qed

lemma watch_find_or_create:
  assumes laws: "quiet_lock_laws api D (m_zh m) path sid cap" "watch_laws api D W (m_zh m) path"
    and call: "lock_find_or_create api m path w = (res, m1, w1)"
  shows "same_watch W w w1"
  using call
proof (cases rule: find_or_create_cases)
  case (lost ret kids)
  from watch_getchildren [OF laws lost(1)] show ?thesis by (rule conjunct1)
next
  case (found kids c)
  from watch_getchildren [OF laws found(1)] show ?thesis by (rule conjunct1)
next
  case (created kids w2 len ret retbuf)
  from watch_getchildren [OF laws created(1)] watch_create [OF laws(2) created(4)] show ?thesis
    by (auto intro: same_watch_trans)
qed

text \<open>The second half watches the child before the own one, or the own child is the first.\<close>

lemma watch_decide:
  assumes laws: "quiet_lock_laws api D zh path sid cap" "watch_laws api D W zh path"
    and ok: "dir_ok D w" "sessions_ascend D w" and own: "lock_child sid n \<in> dir_nodes D w" "n < seq_max"
    and m: "m_zh m = zh" "m_pmutex m = PLocked"
    and call: "lock_decide api m path (lock_child sid n) w = Some (Ret (ZOK, m', w'))"
  shows "wv_armed W w \<subseteq> wv_armed W w' \<and> wv_pending W w' = wv_pending W w \<and>
    (least_child D w n \<or> (\<exists>t k. direct_pred D w n t k \<and> (zh, lock_child t k) \<in> wv_armed W w'))"
  using call m(2)
proof (cases rule: decide_cases)
  case (lost kids)
  then show ?thesis by simp
next
  case (waits kids w1 owner rest pred st)
  note l = watch_getchildren [OF laws waits(1) [unfolded m(1)]]
  from floor_is_predecessor(2) [OF ok _ waits(2) own waits(3)] l obtain t k where
    p: "pred = lock_child t k" "direct_pred D w n t k" by blast
  then have mem: "pred \<in> dir_nodes D w1" using l by (simp add: direct_pred_def same_dir_def)
  from quiet_watch [OF laws(1) this] obtain st2 w2 where
    a: "zoo_wexists api zh (child_path path pred) (Some LockWatcher) w1 = ((ZOK, st2), w2)" by blast
  then have "retry_zoowexists api zh (child_path path pred) LockWatcher 3 w1 = ((ZOK, st2), w2)"
    unfolding retry_zoowexists_def by (intro retry_upto_answered) simp_all
  with waits(4) m(1) have "w2 = w'" by simp
  with watch_arm [OF laws(2) mem a] l p show ?thesis by (auto simp: same_watch_def)
next
  case (owns kids w1 owner rest)
  note l = watch_getchildren [OF laws owns(1) [unfolded m(1)]]
  have "same_watch W w1 w'"
    unfolding owns(5) using watch_completion [OF laws(2)] by (simp add: call_completion_def split: option.split)
  with l floor_is_predecessor(1) [OF ok _ owns(2) own owns(3)] show ?thesis by (simp add: same_watch_def)
next
  case (stranded kids owner rest)
  note l = watch_getchildren [OF laws stranded(1) [unfolded m(1)]]
  with floor_is_predecessor(1) [OF ok _ stranded(2) own stranded(3)] show ?thesis by (simp add: same_watch_def)
qed

lemma watch_lock:
  assumes laws: "quiet_lock_laws api D (m_zh m) path sid cap" "watch_laws api D W (m_zh m) path" and ok: "dir_ok D w"
    and m: "mutex_ok m" "m_path m = Str path"
    and room: "dir_next D w < cap" "dir_next D w < seq_max" and n: "queue_counter D sid w n"
    and call: "zkr_lock_lock api m w = Some (Ret (b, m', w'))" and asc: "sessions_ascend D w'"
  shows "n < seq_max \<and> dir_ok D w' \<and> dir_nodes D w' = insert (lock_child sid n) (dir_nodes D w) \<and>
    m_id m' = Str (lock_child sid n) \<and> mutex_ok m' \<and> same_config m m' \<and>
    wv_armed W w \<subseteq> wv_armed W w' \<and> wv_pending W w' = wv_pending W w \<and> notified D W w' m' (m_zh m) n"
proof -
  from quiet_lock_steps [OF laws(1) ok m room n] obtain st w1 w2 m2 w3 where l:
    "zoo_exists api (m_zh m) path False w = ((ZOK, st), w1)"
    "lock_find_or_create api (m\<lparr>m_pmutex := PLocked\<rparr>) path w1 =
      (Inr (), m\<lparr>m_pmutex := PLocked, m_id := Str (lock_child sid n)\<rparr>, w2)"
    "lock_decide api (m\<lparr>m_pmutex := PLocked, m_id := Str (lock_child sid n)\<rparr>) path (lock_child sid n) w2 =
      Some (Ret (ZOK, m2\<lparr>m_pmutex := PLocked\<rparr>, w3))"
    "dir_ok D w2" "dir_nodes D w2 = insert (lock_child sid n) (dir_nodes D w)" "same_dir D w2 w3" "n < seq_max"
    "zkr_lock_lock api m w = Some (Ret (least_child D w n, m2, w3))"
    "m_id m2 = Str (lock_child sid n)" "mutex_ok m2" "same_config m m2" by metis
  have eq: "b = least_child D w n" "m' = m2" "w' = w3" using l(8) call by simp_all
  have "same_watch W w w2"
    using watch_exists [OF laws(2) l(1)] watch_find_or_create [OF _ _ l(2)] laws same_watch_trans by fastforce
  moreover have asc2: "sessions_ascend D w2" using asc l(6) eq(3) by (simp add: same_dir_ascend)
  have "lock_child sid n \<in> dir_nodes D w2" using l(5) by simp
  from watch_decide [OF laws l(4) asc2 this l(7) _ _ l(3)] have d: "wv_armed W w2 \<subseteq> wv_armed W w3"
    "wv_pending W w3 = wv_pending W w2"
    "least_child D w2 n \<or> (\<exists>t k. direct_pred D w2 n t k \<and> (m_zh m, lock_child t k) \<in> wv_armed W w3)" by simp_all
  moreover have own: "zkr_lock_isowner m2 = Ret (least_child D w2 n)"
  proof -
    have "n \<le> k" if "k < seq_max" "lock_child t k = lock_child sid n" for t k
      using that(2) unfolding lock_child_inj [OF that(1) l(7)] by simp
    then have "least_child D w2 n = least_child D w n" unfolding least_child_def l(5) by blast
    then show ?thesis using lock_ok [OF m(1) l(8)] by simp
  qed
  then have "notified D W w3 m2 (m_zh m) n"
    unfolding notified_def same_dir_least [OF l(6)] same_dir_pred [OF l(6)] own using d(3)
    by (cases "least_child D w2 n") simp_all
  moreover have "dir_ok D w3" "dir_nodes D w3 = dir_nodes D w2" using l(4,6) by (simp_all add: same_dir_ok) (simp add: same_dir_def)
  ultimately show ?thesis using l(5,7,9-11) eq by (simp add: same_watch_def)
qed

section \<open>Every step keeps the invariant\<close>

lemma queue_counterD:
  assumes n: "queue_counter D s w n"
  shows queue_counter_own: "k < seq_max \<Longrightarrow> lock_child s k \<in> dir_nodes D w \<Longrightarrow> k = n"
    and queue_counter_new: "lock_child s n \<notin> dir_nodes D w \<Longrightarrow> n = dir_next D w"
proof -
  show "k = n" if "k < seq_max" "lock_child s k \<in> dir_nodes D w"
  proof -
    have "\<exists>k < seq_max. lock_child s k \<in> dir_nodes D w" using that by blast
    from n [unfolded queue_counter_def if_P [OF this]] that show ?thesis by blast
  qed
  show "n = dir_next D w" if "lock_child s n \<notin> dir_nodes D w"
  proof (rule ccontr)
    assume "n \<noteq> dir_next D w"
    with n have "lock_child s n \<in> dir_nodes D w" unfolding queue_counter_def by (meson if_split)
    with that show False ..
  qed
qed

lemma put_lock_simps [simp]:
  "net_world (put_lock s zh m w) = w" "net_lock (put_lock s zh m w) zh = m"
  "z \<noteq> zh \<Longrightarrow> net_lock (put_lock s zh m w) z = net_lock s z"
  by (simp_all add: put_lock_def)

lemma net_lawsD:
  assumes "net_laws api D W path cap sid C"
  shows "cap \<le> seq_max" "inj_on sid C" "zh \<in> C \<Longrightarrow> quiet_lock_laws api D zh path (sid zh) cap"
    "zh \<in> C \<Longrightarrow> watch_laws api D W zh path"
  using assms unfolding net_laws_def by blast+

text \<open>How the queue and the mutex structs fit together after a client has joined, and after one has left.\<close>

lemma queued_ok_join:
  assumes q: "queued_ok D sid C s" and inj: "inj_on sid C" and zh: "zh \<in> C"
    and n: "queue_counter D (sid zh) (net_world s) n" "n < seq_max"
    and nodes: "dir_nodes D w' = insert (lock_child (sid zh) n) (dir_nodes D (net_world s))"
    and m: "m_id m' = Str (lock_child (sid zh) n)"
  shows "queued_ok D sid C (put_lock s zh m' w')"
  unfolding queued_ok_def
proof (intro conjI allI ballI impI)
  fix t k assume k: "k < seq_max" "lock_child t k \<in> dir_nodes D (net_world (put_lock s zh m' w'))"
  show "\<exists>z\<in>C. t = sid z \<and> m_id (net_lock (put_lock s zh m' w') z) = Str (lock_child t k)"
  proof (cases "t = sid zh \<and> k = n")
    case True
    then show ?thesis using zh m by (intro bexI [of _ zh]) simp_all
  next
    case False
    then have old: "lock_child t k \<in> dir_nodes D (net_world s)" using k nodes lock_child_inj [OF k(1) n(2)] by auto
    from queued_holder [OF q k(1) old] obtain z where z: "z \<in> C" "t = sid z" "m_id (net_lock s z) = Str (lock_child t k)"
      by blast
    have "z \<noteq> zh" using False z(2) old queue_counter_own [OF n(1) k(1)] by blast
    with z show ?thesis by (intro bexI [of _ z]) simp_all
  qed
next
  fix z c assume z: "z \<in> C" "m_id (net_lock (put_lock s zh m' w') z) = Str c"
  show "c \<in> dir_nodes D (net_world (put_lock s zh m' w'))"
    using z m nodes queued_child [OF q z(1), of c] by (cases "z = zh") simp_all
  show "\<exists>n < seq_max. c = lock_child (sid z) n"
  proof (cases "z = zh")
    case True
    with z(2) m have "c = lock_child (sid z) n" by simp
    with n(2) show ?thesis by blast
  next
    case False
    with z(2) have "m_id (net_lock s z) = Str c" by simp
    from queued_child [OF q z(1) this] show ?thesis by (rule conjunct2)
  qed
qed

lemma queued_ok_leave:
  assumes q: "queued_ok D sid C s" and inj: "inj_on sid C" and zh: "zh \<in> C"
    and c: "m_id (net_lock s zh) = Str c" and nodes: "dir_nodes D w' = dir_nodes D (net_world s) - {c}"
    and m: "m_id m' = Null"
  shows "queued_ok D sid C (put_lock s zh m' w')"
  unfolding queued_ok_def
proof (intro conjI allI ballI impI)
  fix t k assume k: "k < seq_max" "lock_child t k \<in> dir_nodes D (net_world (put_lock s zh m' w'))"
  then have old: "lock_child t k \<in> dir_nodes D (net_world s)" "lock_child t k \<noteq> c" using nodes by simp_all
  from queued_holder [OF q k(1) old(1)] obtain z where z: "z \<in> C" "t = sid z" "m_id (net_lock s z) = Str (lock_child t k)"
    by blast
  have "z \<noteq> zh" using z(3) c old(2) by auto
  with z show "\<exists>z\<in>C. t = sid z \<and> m_id (net_lock (put_lock s zh m' w') z) = Str (lock_child t k)"
    by (intro bexI [of _ z]) simp_all
next
  fix z d assume z: "z \<in> C" "m_id (net_lock (put_lock s zh m' w') z) = Str d"
  have "z \<noteq> zh" using z(2) m by auto
  with z have d: "m_id (net_lock s z) = Str d" by simp
  note e = queued_child [OF q z(1) d] and e0 = queued_child [OF q zh c]
  show "\<exists>n < seq_max. d = lock_child (sid z) n" using e by (rule conjunct2)
  from e e0 obtain i j where "i < seq_max" "d = lock_child (sid z) i" "j < seq_max" "c = lock_child (sid zh) j" by blast
  then have "d \<noteq> c" using \<open>z \<noteq> zh\<close> inj_onD [OF inj _ z(1) zh] lock_child_inj [of i j] by auto
  then show "d \<in> dir_nodes D (net_world (put_lock s zh m' w'))" using e nodes by simp
qed

lemma lock_step_inv:
  assumes laws: "net_laws api D W path cap sid C" and inv: "net_inv D W path sid C X s" and X: "X \<subseteq> {zh}"
    and zh: "zh \<in> C" and room: "dir_next D (net_world s) < cap"
    and call: "zkr_lock_lock api (net_lock s zh) (net_world s) = Some (Ret (b, m', w'))"
    and asc: "sessions_ascend D w'"
  shows "net_inv D W path sid C {} (put_lock s zh m' w')"
proof -
  let ?w = "net_world s" and ?m = "net_lock s zh"
  note i = net_invD [OF inv]
  note L = net_lawsD [OF laws]
  from queued_counter [OF i(3) L(2) zh] obtain n where n: "queue_counter D (sid zh) ?w n" by blast
  have "quiet_lock_laws api D (m_zh ?m) path (sid zh) cap" "watch_laws api D W (m_zh ?m) path"
    using L(3,4) [OF zh] i(6) [OF zh] by simp_all
  from watch_lock [OF this i(1) i(4,5) [OF zh] room less_le_trans [OF room L(1)] n call asc]
  have l: "n < seq_max" "dir_ok D w'" "dir_nodes D w' = insert (lock_child (sid zh) n) (dir_nodes D ?w)"
    "m_id m' = Str (lock_child (sid zh) n)" "mutex_ok m'" "same_config ?m m'" "wv_armed W ?w \<subseteq> wv_armed W w'"
    "wv_pending W w' = wv_pending W ?w" "notified D W w' m' zh n" unfolding i(6) [OF zh] by iprover+
  have others: "notified D W w' (net_lock s z) z k"
    if z: "z \<in> C" "z \<noteq> zh" "k < seq_max" "m_id (net_lock s z) = Str (lock_child (sid z) k)" for z k
  proof (rule notified_join [OF l(3,1) _ l(7)])
    have "lock_child (sid z) k \<in> dir_nodes D ?w" using queued_child [OF i(3) z(1,4)] by (rule conjunct1)
    from queued_below [OF i(1) this z(3)] queue_counter_new [OF n]
    show "lock_child (sid zh) n \<in> dir_nodes D ?w \<or> k \<le> n" by (cases "lock_child (sid zh) n \<in> dir_nodes D ?w") simp_all
    show "wv_pending W ?w \<subseteq> wv_pending W w'" using l(8) by simp
    show "notified D W ?w (net_lock s z) z k" using i(7) [OF z(1) _ z(3,4)] X z(2) by blast
  qed
  have conf: "mutex_ok (net_lock (put_lock s zh m' w') z) \<and> m_path (net_lock (put_lock s zh m' w') z) = Str path \<and>
      m_zh (net_lock (put_lock s zh m' w') z) = z" if "z \<in> C" for z
    using i(4-6) [OF that] l(5,6) by (cases "z = zh") (simp_all add: same_config_def)
  have wake: "notified D W w' (net_lock (put_lock s zh m' w') z) z k"
    if z: "z \<in> C" "k < seq_max" "m_id (net_lock (put_lock s zh m' w') z) = Str (lock_child (sid z) k)" for z k
  proof (cases "z = zh")
    case True
    with z(3) l(4) have "lock_child (sid zh) k = lock_child (sid zh) n" by simp
    then have "k = n" unfolding lock_child_inj [OF z(2) l(1)] by (rule conjunct2)
    with True l(9) show ?thesis by simp
  next
    case False
    with z others show ?thesis by simp
  qed
  show ?thesis unfolding net_inv_def put_lock_simps(1)
    using l(2) asc conf queued_ok_join [OF i(3) L(2) zh n l(1,3,4)] wake by blast
qed

text \<open>Before the watcher function runs, its event is gone; the client may owe the last clause.\<close>

lemma take_inv:
  assumes laws: "net_laws api D W path cap sid C" and inv: "net_inv D W path sid C {} s" and zh: "zh \<in> C"
  shows "net_inv D W path sid C {zh} (s\<lparr>net_world := wv_take W zh (net_world s)\<rparr>)"
proof -
  let ?w = "wv_take W zh (net_world s)"
  note i = net_invD [OF inv]
  from watch_take [OF net_lawsD(4) [OF laws zh], of "net_world s"] have t: "same_dir D (net_world s) ?w"
    "wv_armed W ?w = wv_armed W (net_world s)" "wv_pending W ?w = wv_pending W (net_world s) - {zh}" by iprover+
  have "dir_nodes D ?w = dir_nodes D (net_world s)" using t(1) by (simp add: same_dir_def)
  then have q: "queued_ok D sid C (s\<lparr>net_world := ?w\<rparr>)" using i(3) by (simp add: queued_ok_def)
  have "notified D W ?w m z k" if "notified D W (net_world s) m z k" "z \<noteq> zh" for m z k
    by (rule notified_mono [OF that(1)]) (use that(2) in \<open>simp_all add: t(2,3) same_dir_least [OF t(1)] same_dir_pred [OF t(1)]\<close>)
  with i(7) have wake: "\<forall>z\<in>C - {zh}. \<forall>k < seq_max. m_id (net_lock s z) = Str (lock_child (sid z) k) \<longrightarrow>
      notified D W ?w (net_lock s z) z k" by blast
  show ?thesis unfolding net_inv_def
    using wake q i(4-6) same_dir_ok [OF t(1)] i(1) same_dir_ascend [OF t(1)] i(2) by simp
qed

lemma event_step_inv:
  assumes laws: "net_laws api D W path cap sid C" and inv: "net_inv D W path sid C {} s"
    and zh: "zh \<in> C" and room: "dir_next D (net_world s) < cap"
    and call: "lock_watcher_fn api (net_lock s zh) (wv_take W zh (net_world s)) = Some (Ret (b, m', w'))"
    and asc: "sessions_ascend D w'"
  shows "net_inv D W path sid C {} (put_lock s zh m' w')"
proof -
  let ?s = "s\<lparr>net_world := wv_take W zh (net_world s)\<rparr>"
  have "dir_next D (net_world ?s) < cap"
    using watch_take [OF net_lawsD(4) [OF laws zh], of "net_world s"] room by (simp add: same_dir_def)
  moreover have "zkr_lock_lock api (net_lock ?s zh) (net_world ?s) = Some (Ret (b, m', w'))"
    using call by (simp add: lock_watcher_fn_def)
  ultimately have "net_inv D W path sid C {} (put_lock ?s zh m' w')"
    using lock_step_inv [OF laws take_inv [OF laws inv zh] _ zh _ _ asc] by simp
  then show ?thesis by (simp add: put_lock_def)
qed

lemma watch_unlock:
  assumes laws: "quiet_lock_laws api D (m_zh m) path sid cap" "watch_laws api D W (m_zh m) path"
    and m: "mutex_ok m" "m_path m = Str path" "m_id m = Str c" and c: "c \<in> dir_nodes D w"
    and call: "zkr_lock_unlock api m w = Ret (r, m', w')"
  shows "m_id m' = Null \<and> dir_nodes D w' = dir_nodes D w - {c} \<and> dir_next D w' = dir_next D w \<and>
    wv_armed W w' = wv_armed W w - {x. snd x = c} \<and> wv_pending W w' = wv_pending W w \<union> {z. (z, c) \<in> wv_armed W w}"
proof -
  from quiet_delete [OF laws(1) c] obtain w1 where d: "zoo_delete api (m_zh m) (child_path path c) (-1) w = (ZOK, w1)"
    by blast
  then have "delete_result api m path c w = (ZOK, w1)"
    by (simp add: delete_result_def status_op_eq retry_upto_answered)
  moreover have "m_pmutex m = PUnlocked" using m(1) by (simp add: mutex_defs)
  ultimately have w': "w' = call_completion api m 1 w1" using call m(2,3) by (simp add: unlock_eq)
  have "same_watch W w1 w'"
    unfolding w' using watch_completion [OF laws(2)] by (simp add: call_completion_def split: option.split)
  with watch_delete [OF laws(2) c d] quiet_unlock [OF laws(1) m(1,2,3) c] call show ?thesis
    by (simp add: same_watch_def)
qed

lemma sessions_ascend_subset:
  "sessions_ascend D w \<Longrightarrow> dir_nodes D w' \<subseteq> dir_nodes D w \<Longrightarrow> sessions_ascend D w'"
  unfolding sessions_ascend_def by blast

lemma unlock_step_inv:
  assumes laws: "net_laws api D W path cap sid C" and inv: "net_inv D W path sid C {} s"
    and zh: "zh \<in> C" and call: "zkr_lock_unlock api (net_lock s zh) (net_world s) = Ret (r, m', w')"
  shows "net_inv D W path sid C {} (put_lock s zh m' w')"
proof -
  let ?w = "net_world s" and ?m = "net_lock s zh"
  note i = net_invD [OF inv]
  note L = net_lawsD [OF laws]
  from unlock_ok [OF i(4) [OF zh], of api ?w] call have ok: "mutex_ok m'" "same_config ?m m'" by simp_all
  have conf: "mutex_ok (net_lock (put_lock s zh m' w') z) \<and> m_path (net_lock (put_lock s zh m' w') z) = Str path \<and>
      m_zh (net_lock (put_lock s zh m' w') z) = z" if "z \<in> C" for z
    using i(4-6) [OF that] ok by (cases "z = zh") (simp_all add: same_config_def)
  show ?thesis
  proof (cases "m_id ?m")
    case (Str c)
    have laws': "quiet_lock_laws api D (m_zh ?m) path (sid zh) cap" "watch_laws api D W (m_zh ?m) path"
      using L(3,4) [OF zh] i(6) [OF zh] by simp_all
    have "c \<in> dir_nodes D ?w" using queued_child [OF i(3) zh Str] by (rule conjunct1)
    from watch_unlock [OF laws' i(4,5) [OF zh] Str this call]
    have u: "m_id m' = Null" "dir_nodes D w' = dir_nodes D ?w - {c}" "dir_next D w' = dir_next D ?w"
      "wv_armed W w' = wv_armed W ?w - {x. snd x = c}"
      "wv_pending W w' = wv_pending W ?w \<union> {z. (z, c) \<in> wv_armed W ?w}" by iprover+
    have sub: "dir_nodes D w' \<subseteq> dir_nodes D ?w" using u(2) by blast
    have wake: "notified D W w' (net_lock (put_lock s zh m' w') z) z k"
      if z: "z \<in> C" "k < seq_max" "m_id (net_lock (put_lock s zh m' w') z) = Str (lock_child (sid z) k)" for z k
    proof -
      have "z \<noteq> zh" using z(3) u(1) by auto
      with z notified_leave [OF u(2,4,5) i(7) [OF z(1) _ z(2)]] show ?thesis by simp
    qed
    show ?thesis unfolding net_inv_def put_lock_simps(1)
      using dir_ok_remove [OF i(1) sub u(3)] sessions_ascend_subset [OF i(2) sub] conf
        queued_ok_leave [OF i(3) L(2) zh Str u(2,1)] wake by blast
  next
    case Null
    obtain p where "m_pmutex ?m = PUnlocked" "m_path ?m = Str p" using i(4) [OF zh] by (auto simp: mutex_defs)
    with Null call have "m' = ?m" "w' = ?w" by (simp_all add: unlock_eq)
    then have "put_lock s zh m' w' = s" by (simp add: put_lock_def)
    with inv show ?thesis by simp
  next
    case Freed
    then show ?thesis using i(4) [OF zh] by (simp add: mutex_defs)
  qed
qed

lemma start_inv:
  assumes "\<And>zh. zh \<in> C \<Longrightarrow> net_lock s zh = snd (zkr_lock_init (m0 zh) zh (Str path) acl)"
    and "dir_nodes D (net_world s) = {}" and "dir_next D (net_world s) \<le> seq_max"
  shows "net_inv D W path sid C {} s"
proof -
  have m: "mutex_ok (net_lock s zh) \<and> m_path (net_lock s zh) = Str path \<and> m_zh (net_lock s zh) = zh \<and> m_id (net_lock s zh) = Null"
    if "zh \<in> C" for zh using assms(1) [OF that] by (simp add: zkr_lock_init_def mutex_defs)
  have "dir_ok D (net_world s)" "sessions_ascend D (net_world s)"
    unfolding dir_ok_def sessions_ascend_def assms(2) using assms(3) by simp_all
  moreover have "queued_ok D sid C s" unfolding queued_ok_def assms(2) using m by simp
  ultimately show ?thesis unfolding net_inv_def using m by simp
qed

lemma net_run_inv:
  assumes "net_run api D W path cap C s" and laws: "net_laws api D W path cap sid C"
  shows "net_inv D W path sid C {} s"
  using assms(1)
proof (induction rule: net_run.induct)
  case (run_start s m0 acl)
  then show ?case by (rule start_inv)
next
  case (run_lock s zh b m' w')
  then show ?case using lock_step_inv [OF laws, of "{}"] by blast
next
  case (run_event s zh b m' w')
  then show ?case using event_step_inv [OF laws] by blast
next
  case (run_unlock s zh r m' w')
  then show ?case using unlock_step_inv [OF laws] by blast
qed

section \<open>No wakeup is lost\<close>

text \<open>A waiting client whose turn has come gets the lock when its event reaches the watcher function.\<close>

lemma event_grants:
  assumes laws: "net_laws api D W path cap sid C" and inv: "net_inv D W path sid C {} s" and zh: "zh \<in> C"
    and own: "m_id (net_lock s zh) = Str (lock_child (sid zh) n)" "n < seq_max"
    and least: "least_child D (net_world s) n" and room: "dir_next D (net_world s) < cap"
  shows "\<exists>m' w'. lock_watcher_fn api (net_lock s zh) (wv_take W zh (net_world s)) = Some (Ret (True, m', w'))"
proof -
  let ?w = "wv_take W zh (net_world s)"
  note i = net_invD [OF inv]
  note L = net_lawsD [OF laws]
  from watch_take [OF L(4) [OF zh], of "net_world s"] have same: "same_dir D (net_world s) ?w" by (rule conjunct1)
  have dir: "dir_nodes D ?w = dir_nodes D (net_world s)" "dir_next D ?w = dir_next D (net_world s)"
    using same by (simp_all add: same_dir_def)
  have nx: "dir_next D ?w < cap" "dir_next D ?w < seq_max" using room L(1) dir by simp_all
  from queued_counter [OF i(3) L(2) zh] obtain k where k: "queue_counter D (sid zh) (net_world s) k" by blast
  have "lock_child (sid zh) n \<in> dir_nodes D (net_world s)" using queued_child [OF i(3) zh own(1)] by (rule conjunct1)
  from queue_counter_own [OF k own(2) this] have "queue_counter D (sid zh) ?w n"
    using k same_dir_queue [OF same] by simp
  moreover have "quiet_lock_laws api D (m_zh (net_lock s zh)) path (sid zh) cap" using L(3) [OF zh] i(6) [OF zh] by simp
  moreover have "dir_ok D ?w" using i(1) same_dir_ok [OF same] by simp
  ultimately obtain m' w' where
    "zkr_lock_lock api (net_lock s zh) ?w = Some (Ret (least_child D ?w n, m', w'))"
    using quiet_lock [OF _ _ i(4,5) [OF zh] nx] by blast
  with least same_dir_least [OF same] show ?thesis by (simp add: lock_watcher_fn_def)
qed

text \<open>
  C4: no wakeup is lost while the session ids ascend with the counters. In every state that the clients
  reach by calls of lock, of unlock and of the watcher function, a client with a child in the queue
  either knows that it is the owner, if its child is the first, or it has an undelivered event, or a
  watch on the child directly before its own; and when its turn has come, the watcher function gets the lock.
\<close>

theorem no_lost_wakeup:
  assumes "net_laws api D W path cap sid C" and "net_run api D W path cap C s" and "zh \<in> C"
    and "m_id (net_lock s zh) = Str c"
  shows "\<exists>n < seq_max. c = lock_child (sid zh) n \<and> c \<in> dir_nodes D (net_world s) \<and>
    (if least_child D (net_world s) n
     then zkr_lock_isowner (net_lock s zh) = Ret True \<or> zh \<in> wv_pending W (net_world s)
     else zh \<in> wv_pending W (net_world s) \<or>
       (\<exists>t k. direct_pred D (net_world s) n t k \<and> (zh, lock_child t k) \<in> wv_armed W (net_world s))) \<and>
    (least_child D (net_world s) n \<longrightarrow> dir_next D (net_world s) < cap \<longrightarrow>
       (\<exists>m' w'. lock_watcher_fn api (net_lock s zh) (wv_take W zh (net_world s)) = Some (Ret (True, m', w'))))"
proof -
  note inv = net_run_inv [OF assms(2,1)]
  note i = net_invD [OF inv]
  from queued_child [OF i(3) assms(3,4)] obtain n where
    n: "n < seq_max" "c = lock_child (sid zh) n" "c \<in> dir_nodes D (net_world s)" by blast
  have own: "m_id (net_lock s zh) = Str (lock_child (sid zh) n)" using assms(4) n(2) by simp
  have "notified D W (net_world s) (net_lock s zh) zh n" using i(7) [OF assms(3) _ n(1) own] by simp
  then have "if least_child D (net_world s) n
     then zkr_lock_isowner (net_lock s zh) = Ret True \<or> zh \<in> wv_pending W (net_world s)
     else zh \<in> wv_pending W (net_world s) \<or>
       (\<exists>t k. direct_pred D (net_world s) n t k \<and> (zh, lock_child t k) \<in> wv_armed W (net_world s))"
    unfolding notified_def by (cases "least_child D (net_world s) n") (auto dest: least_no_pred)
  with n event_grants [OF assms(1) inv assms(3) own n(1)] show ?thesis by blast
qed

text \<open>A client that takes itself for the owner has the first child of the queue.\<close>

lemma owner_is_first:
  assumes inv: "net_inv D W path sid C {} s" and zh: "zh \<in> C" and own: "zkr_lock_isowner (net_lock s zh) = Ret True"
  shows "\<exists>n < seq_max. lock_child (sid zh) n \<in> dir_nodes D (net_world s) \<and> least_child D (net_world s) n"
proof -
  note i = net_invD [OF inv]
  have "strings_ok (net_lock s zh)" using i(4) [OF zh] by (simp add: mutex_ok_def)
  with own obtain c where c: "m_id (net_lock s zh) = Str c"
    by (cases "m_id (net_lock s zh)") (auto simp: isowner_ok strings_ok_def)
  from queued_child [OF i(3) zh c] obtain n where
    n: "n < seq_max" "c = lock_child (sid zh) n" "c \<in> dir_nodes D (net_world s)" by blast
  have "m_id (net_lock s zh) = Str (lock_child (sid zh) n)" using c n(2) by simp
  from i(7) [OF zh _ n(1) this] own have "least_child D (net_world s) n" by (simp add: notified_def)
  with n show ?thesis by blast
qed

lemma first_child_exists:
  assumes "dir_ok D w" and "dir_nodes D w \<noteq> {}"
  shows "\<exists>t n. n < seq_max \<and> lock_child t n \<in> dir_nodes D w \<and> least_child D w n"
proof -
  let ?P = "\<lambda>n. n < seq_max \<and> (\<exists>t. lock_child t n \<in> dir_nodes D w)"
  from assms obtain t k where "?P k" using dir_okD [OF assms(1)] by blast
  then have "?P (LEAST n. ?P n)" by (rule LeastI)
  moreover have "least_child D w (LEAST n. ?P n)"
    unfolding least_child_def by (intro allI impI Least_le) blast
  ultimately show ?thesis by blast
qed

text \<open>
  C6: the clients of one lock agree on its owner, while the session ids in the queue ascend with the counters and
  the calls of different clients do not overlap (both are part of \<open>net_run\<close>; without the first a settled queue may have
  no owner). In every state that they reach by such calls of lock, of unlock and of the watcher function there is
  at most one owner; and when every event has been delivered and the queue is not empty, there is one.
\<close>

theorem settled_queue_has_one_owner:
  assumes "net_laws api D W path cap sid C" and "net_run api D W path cap C s"
  shows "(\<forall>zh\<in>C. \<forall>z\<in>C. zkr_lock_isowner (net_lock s zh) = Ret True \<longrightarrow>
      zkr_lock_isowner (net_lock s z) = Ret True \<longrightarrow> zh = z) \<and>
    (dir_nodes D (net_world s) \<noteq> {} \<longrightarrow> wv_pending W (net_world s) \<inter> C = {} \<longrightarrow>
      (\<exists>zh\<in>C. zkr_lock_isowner (net_lock s zh) = Ret True))"
proof -
  note inv = net_run_inv [OF assms(2,1)]
  note i = net_invD [OF inv]
  have "zh = z" if "zh \<in> C" "z \<in> C" "zkr_lock_isowner (net_lock s zh) = Ret True" "zkr_lock_isowner (net_lock s z) = Ret True"
    for zh z using owner_is_first [OF inv that(1,3)] owner_is_first [OF inv that(2,4)] least_child_unique [OF i(1)]
      inj_onD [OF net_lawsD(2) [OF assms(1)] _ that(1,2)] by blast
  moreover have "\<exists>zh\<in>C. zkr_lock_isowner (net_lock s zh) = Ret True"
    if some: "dir_nodes D (net_world s) \<noteq> {}" "wv_pending W (net_world s) \<inter> C = {}"
  proof -
    from first_child_exists [OF i(1) some(1)] obtain t n where
      n: "n < seq_max" "lock_child t n \<in> dir_nodes D (net_world s)" "least_child D (net_world s) n" by blast
    from queued_holder [OF i(3) n(1,2)] obtain zh where
      zh: "zh \<in> C" "t = sid zh" "m_id (net_lock s zh) = Str (lock_child t n)" by blast
    have "m_id (net_lock s zh) = Str (lock_child (sid zh) n)" using zh by simp
    from i(7) [OF zh(1) _ n(1) this] have "zkr_lock_isowner (net_lock s zh) = Ret True"
      using least_no_pred [OF n(3)] some(2) zh(1) by (auto simp: notified_def)
    with zh(1) show ?thesis by blast
  qed
  ultimately show ?thesis by blast
qed

text \<open>An event for a client without a child queues it again.\<close>

lemma event_requeues:
  assumes laws: "net_laws api D W path cap sid C" and run: "net_run api D W path cap C s" and zh: "zh \<in> C"
    and left: "m_id (net_lock s zh) = Null" and room: "dir_next D (net_world s) < cap"
  shows "\<exists>b m' w'. lock_watcher_fn api (net_lock s zh) (wv_take W zh (net_world s)) = Some (Ret (b, m', w')) \<and>
    m_id m' = Str (lock_child (sid zh) (dir_next D (net_world s))) \<and>
    dir_nodes D w' = insert (lock_child (sid zh) (dir_next D (net_world s))) (dir_nodes D (net_world s)) \<and>
    (b \<longleftrightarrow> dir_nodes D (net_world s) = {})"
proof -
  let ?w = "wv_take W zh (net_world s)" and ?n = "dir_next D (net_world s)"
  note i = net_invD [OF net_run_inv [OF run laws]]
  note L = net_lawsD [OF laws]
  from watch_take [OF L(4) [OF zh], of "net_world s"] have same: "same_dir D (net_world s) ?w" by (rule conjunct1)
  have dir: "dir_nodes D ?w = dir_nodes D (net_world s)" "dir_next D ?w = ?n" using same by (simp_all add: same_dir_def)
  have nx: "dir_next D ?w < cap" "dir_next D ?w < seq_max" using room L(1) dir by simp_all
  have none: "\<not> (\<exists>k < seq_max. lock_child (sid zh) k \<in> dir_nodes D ?w)"
    using queued_holder [OF i(3)] left inj_onD [OF L(2) _ zh] unfolding dir(1) by (metis cptr.distinct(1))
  have "queue_counter D (sid zh) ?w ?n" unfolding queue_counter_def if_not_P [OF none] dir(2) by (rule refl)
  moreover have "quiet_lock_laws api D (m_zh (net_lock s zh)) path (sid zh) cap" using L(3) [OF zh] i(6) [OF zh] by simp
  moreover have ok: "dir_ok D ?w" using i(1) same_dir_ok [OF same] by simp
  ultimately obtain m' w' where
    l: "zkr_lock_lock api (net_lock s zh) ?w = Some (Ret (least_child D ?w ?n, m', w'))"
      "m_id m' = Str (lock_child (sid zh) ?n)" "dir_nodes D w' = insert (lock_child (sid zh) ?n) (dir_nodes D ?w)"
    using quiet_lock [OF _ _ i(4,5) [OF zh] nx] by blast
  have "least_child D ?w ?n \<longleftrightarrow> dir_nodes D ?w = {}"
  proof
    assume least: "least_child D ?w ?n"
    have False if "c \<in> dir_nodes D ?w" for c
    proof -
      from dir_okD [OF ok that] obtain t k where "c = lock_child t k" "k < seq_max" by blast
      with least that queued_below [OF ok] dir(2) show False unfolding least_child_def by (metis not_le)
    qed
    then show "dir_nodes D ?w = {}" by blast
  qed (simp add: least_child_def)
  with l dir(1) show ?thesis by (simp add: lock_watcher_fn_def)
qed

text \<open>
  C34: unlock gives up the child and keeps the watch. A waiting client (with a child, not the owner, no event
  to come) that gives up with \<open>zkr_lock_unlock\<close> has no child any more, but its watch stays armed, on the
  child of another client. When that client gives up too, the event is there, and the watcher function calls lock: the
  first client queues again, with the next counter, although nobody asked for it, and owns the lock at once if
  nobody else is in the queue. The session ids ascend with the counters here, as they do in \<open>net_run\<close>.
\<close>

theorem stale_watch_requeues:
  assumes laws: "net_laws api D W path cap sid C" and run: "net_run api D W path cap C s" and zh: "zh \<in> C"
    and waits: "m_id (net_lock s zh) = Str c" "zkr_lock_isowner (net_lock s zh) = Ret False" "zh \<notin> wv_pending W (net_world s)"
    and room: "dir_next D (net_world s) < cap"
  shows "\<exists>m1 w1 z p m2 w2 b m3 w3. zkr_lock_unlock api (net_lock s zh) (net_world s) = Ret (0, m1, w1) \<and>
    m_id m1 = Null \<and> c \<notin> dir_nodes D w1 \<and> (zh, p) \<in> wv_armed W w1 \<and>
    z \<in> C \<and> z \<noteq> zh \<and> m_id (net_lock s z) = Str p \<and>
    zkr_lock_unlock api (net_lock s z) w1 = Ret (0, m2, w2) \<and> zh \<in> wv_pending W w2 \<and>
    lock_watcher_fn api m1 (wv_take W zh w2) = Some (Ret (b, m3, w3)) \<and>
    m_id m3 = Str (lock_child (sid zh) (dir_next D (net_world s))) \<and>
    dir_nodes D w3 = insert (lock_child (sid zh) (dir_next D (net_world s))) (dir_nodes D (net_world s) - {c, p}) \<and>
    (b \<longleftrightarrow> dir_nodes D (net_world s) = {c, p})"
proof -
  let ?w = "net_world s" and ?m = "net_lock s zh"
  note i = net_invD [OF net_run_inv [OF run laws]]
  note L = net_lawsD [OF laws]
  note c = queued_child [OF i(3) zh waits(1)]
  from c obtain n where n: "n < seq_max" "c = lock_child (sid zh) n" by blast
  have "m_id ?m = Str (lock_child (sid zh) n)" using waits(1) n(2) by simp
  from i(7) [OF zh _ n(1) this] waits(2,3) obtain t k where
    p: "direct_pred D ?w n t k" "(zh, lock_child t k) \<in> wv_armed W ?w" by (auto simp: notified_def)
  let ?p = "lock_child t k"
  have k: "k < seq_max" "?p \<in> dir_nodes D ?w" "?p \<noteq> c"
    using p(1) n lock_child_inj [of k n t "sid zh"] by (auto simp: direct_pred_def)
  from queued_holder [OF i(3) k(1,2)] obtain z where z: "z \<in> C" "m_id (net_lock s z) = Str ?p" by blast
  have "z \<noteq> zh" using z(2) waits(1) k(3) by auto
  have q: "quiet_lock_laws api D (m_zh (net_lock s x)) path (sid x) cap" "watch_laws api D W (m_zh (net_lock s x)) path"
    if "x \<in> C" for x using L(3,4) [OF that] i(6) [OF that] by simp_all
  from quiet_unlock [OF q(1) [OF zh] i(4,5) [OF zh] waits(1)] c obtain m1 w1 where
    u: "zkr_lock_unlock api ?m ?w = Ret (0, m1, w1)" by blast
  note u1 = watch_unlock [OF q [OF zh] i(4,5) [OF zh] waits(1) conjunct1 [OF c] u]
  have "?p \<in> dir_nodes D w1" using k(2,3) u1 by simp
  from quiet_unlock [OF q(1) [OF z(1)] i(4,5) [OF z(1)] z(2) this] obtain m2 w2 where
    v: "zkr_lock_unlock api (net_lock s z) w1 = Ret (0, m2, w2)" by blast
  note v1 = watch_unlock [OF q [OF z(1)] i(4,5) [OF z(1)] z(2) \<open>?p \<in> dir_nodes D w1\<close> v]
  have armed: "(zh, ?p) \<in> wv_armed W w1" using p(2) k(3) u1 by simp
  then have pend: "zh \<in> wv_pending W w2" using v1 by simp
  let ?s1 = "put_lock s zh m1 w1" and ?s2 = "put_lock (put_lock s zh m1 w1) z m2 w2"
  have "net_run api D W path cap C ?s1" by (rule run_unlock [OF run zh u])
  then have run2: "net_run api D W path cap C ?s2" using v \<open>z \<noteq> zh\<close> by (intro run_unlock [OF _ z(1)]) simp_all
  have dir: "dir_nodes D w2 = dir_nodes D ?w - {c, ?p}" "dir_next D w2 = dir_next D ?w" using u1 v1 by auto
  have "m_id (net_lock ?s2 zh) = Null" "dir_next D (net_world ?s2) < cap" using u1 \<open>z \<noteq> zh\<close> room dir(2) by simp_all
  from event_requeues [OF laws run2 zh this] obtain b m3 w3 where
    e: "lock_watcher_fn api m1 (wv_take W zh w2) = Some (Ret (b, m3, w3))"
      "m_id m3 = Str (lock_child (sid zh) (dir_next D ?w))"
      "dir_nodes D w3 = insert (lock_child (sid zh) (dir_next D ?w)) (dir_nodes D ?w - {c, ?p})"
      "b \<longleftrightarrow> dir_nodes D ?w - {c, ?p} = {}" using \<open>z \<noteq> zh\<close> dir by auto
  have "b \<longleftrightarrow> dir_nodes D ?w = {c, ?p}" using e(4) c k(2) by blast
  moreover have "m_id m1 = Null" "c \<notin> dir_nodes D w1" using u1 by simp_all
  ultimately show ?thesis using u armed z \<open>z \<noteq> zh\<close> v pend e(1-3) by blast
qed

section \<open>Two clients and a server with watches\<close>

type_synonym watch_world = "dir_world \<times> (zhandle \<times> string) list \<times> zhandle list"

definition watch_api_at :: "string \<Rightarrow> watch_world zk_api" where
  "watch_api_at path = idle_api\<lparr>
     zoo_get_children := (\<lambda>zh p wt w. ((ZOK, fst (fst w)), w)),
     zoo_create := (\<lambda>zh p v l acl fl sz w. (fst (dir_create path zh fl sz (fst w)), (snd (dir_create path zh fl sz (fst w)), snd w))),
     zoo_wexists := (\<lambda>zh p c w. if p \<in> set (map (child_path path) (fst (fst w)))
        then ((ZOK, no_stat), (fst w,
          map (Pair zh) (filter (\<lambda>c. child_path path c = p) (fst (fst w))) @ fst (snd w), snd (snd w)))
        else ((ZNONODE, no_stat), w)),
     zoo_delete := (\<lambda>zh p v w. (ZOK, ((filter (\<lambda>c. child_path path c \<noteq> p) (fst (fst w)), snd (fst w)),
        filter (\<lambda>x. child_path path (snd x) \<noteq> p) (fst (snd w)),
        map fst (filter (\<lambda>x. child_path path (snd x) = p) (fst (snd w))) @ snd (snd w))))\<rparr>"

abbreviation watch_api :: "watch_world zk_api" where "watch_api \<equiv> watch_api_at ''/l''"

definition watch_dir :: "watch_world lock_dir" where
  "watch_dir = \<lparr>dir_nodes = (\<lambda>w. set (fst (fst w))), dir_next = (\<lambda>w. snd (fst w))\<rparr>"

definition watch_list_view :: "watch_world watch_view" where
  "watch_list_view = \<lparr>wv_armed = (\<lambda>w. set (fst (snd w))), wv_pending = (\<lambda>w. set (snd (snd w))),
     wv_take = (\<lambda>zh w. (fst w, fst (snd w), filter (\<lambda>z. z \<noteq> zh) (snd (snd w))))\<rparr>"

lemma watch_at_laws:
  "quiet_lock_laws (watch_api_at path) watch_dir zh path (of_nat zh) 9"
  "watch_laws (watch_api_at path) watch_dir watch_list_view zh path"
proof -
  show "quiet_lock_laws (watch_api_at path) watch_dir zh path (of_nat zh) 9"
    unfolding quiet_lock_laws_def same_dir_def
    by (auto simp: watch_dir_def watch_api_at_def dir_create_def Let_def)
  show "watch_laws (watch_api_at path) watch_dir watch_list_view zh path"
    unfolding watch_laws_def same_dir_def same_watch_def
    by (auto simp: watch_dir_def watch_api_at_def watch_list_view_def) force
qed

lemma watch_api_laws: "net_laws watch_api watch_dir watch_list_view ''/l'' 9 of_nat {1, 2}"
proof -
  have "inj_on (of_nat :: nat \<Rightarrow> 64 word) {1, 2}" by (simp add: inj_on_def)
  then show ?thesis using watch_at_laws by (simp add: net_laws_def)
qed

definition net_start :: "watch_world lock_net" where
  "net_start = \<lparr>net_world = (([], 0), [], []), net_lock = client_mutex\<rparr>"

definition net_owned :: "watch_world lock_net" where
  "net_owned = put_lock net_start 1 locked_mutex (([lock_child 1 0], 1), [], [])"

definition net_waiting :: "watch_world lock_net" where
  "net_waiting = put_lock net_owned 2 waiting_mutex (two_children, [(2, lock_child 1 0)], [])"

definition net_released :: "watch_world lock_net" where
  "net_released = put_lock net_waiting 1 (locked_mutex\<lparr>m_id := Null\<rparr>) (([lock_child 2 1], 2), [], [2])"

lemma watch_client_locks:
  "zkr_lock_lock watch_api (client_mutex 1) (([], 0), [], []) =
     Some (Ret (True, locked_mutex, (([lock_child 1 0], 1), [], [])))"
  "zkr_lock_lock watch_api (client_mutex 2) (([lock_child 1 0], 1), [], []) =
     Some (Ret (False, waiting_mutex, (two_children, [(2, lock_child 1 0)], [])))"
  "zkr_lock_unlock watch_api locked_mutex (two_children, [(2, lock_child 1 0)], []) =
     Ret (0, locked_mutex\<lparr>m_id := Null\<rparr>, (([lock_child 2 1], 2), [], [2]))"
  by code_simp+

lemma ascend_two: "fst (fst w) = [lock_child 1 0, lock_child 2 1] \<Longrightarrow> sessions_ascend watch_dir w"
  "fst (fst w) = [lock_child 1 0] \<Longrightarrow> sessions_ascend watch_dir w"
  using lock_child_inj [of _ 0] lock_child_inj [of _ 1]
  by (auto simp: sessions_ascend_def watch_dir_def)

lemma net_runs:
  "net_run watch_api watch_dir watch_list_view ''/l'' 9 {1, 2} net_owned"
  "net_run watch_api watch_dir watch_list_view ''/l'' 9 {1, 2} net_waiting"
  "net_run watch_api watch_dir watch_list_view ''/l'' 9 {1, 2} net_released"
proof -
  let ?run = "net_run watch_api watch_dir watch_list_view ''/l'' 9 {1, 2}"
  have "?run net_start"
    by (rule run_start [of _ _ "\<lambda>zh. blank_mutex" _ None]) (simp_all add: net_start_def client_mutex_def watch_dir_def)
  then show a: "?run net_owned"
    unfolding net_owned_def by (rule run_lock [where b = True])
      (simp_all add: net_start_def watch_dir_def watch_client_locks(1) ascend_two(2) [unfolded watch_dir_def] del: One_nat_def)
  then show b: "?run net_waiting"
    unfolding net_waiting_def by (rule run_lock [where b = False])
      (simp_all add: net_owned_def net_start_def watch_dir_def watch_client_locks(2)
        ascend_two(1) [unfolded watch_dir_def] two_children_def del: One_nat_def)
  then show "?run net_released"
    unfolding net_released_def by (rule run_unlock [where r = 0])
      (simp_all add: net_waiting_def net_owned_def watch_client_locks(3) del: One_nat_def)
qed

theorem no_lost_wakeup_witness:
  "\<exists>m' w'. lock_watcher_fn watch_api waiting_mutex (([lock_child 2 1], 2), [], []) = Some (Ret (True, m', w'))"
proof -
  have "(2 :: nat) \<in> {1, 2}" "m_id (net_lock net_released 2) = Str (lock_child 2 1)"
    by (simp_all add: net_released_def net_waiting_def waiting_mutex_def)
  from no_lost_wakeup [OF watch_api_laws net_runs(3) this] obtain n where n: "n < seq_max"
    "lock_child 2 1 = lock_child (of_nat 2) n"
    "least_child watch_dir (net_world net_released) n \<Longrightarrow> dir_next watch_dir (net_world net_released) < 9 \<Longrightarrow>
       (\<exists>m' w'. lock_watcher_fn watch_api (net_lock net_released 2)
          (wv_take watch_list_view 2 (net_world net_released)) = Some (Ret (True, m', w')))" by blast
  have "(1 :: nat) < seq_max" by simp
  with n(2) have "n = 1" using lock_child_inj [OF \<open>1 < seq_max\<close> n(1)] by simp
  moreover have "least_child watch_dir (net_world net_released) 1"
    using lock_child_inj [OF _ \<open>1 < seq_max\<close>, of _ _ 2]
    unfolding least_child_def by (auto simp: net_released_def watch_dir_def)
  moreover have "dir_next watch_dir (net_world net_released) < 9" by (simp add: net_released_def watch_dir_def)
  ultimately show ?thesis using n(3) by (simp add: net_released_def net_waiting_def watch_list_view_def)
qed

theorem settled_queue_has_one_owner_witness:
  "\<exists>zh\<in>{1, 2}. zkr_lock_isowner (net_lock net_waiting zh) = Ret True"
proof -
  have "dir_nodes watch_dir (net_world net_waiting) \<noteq> {}" "wv_pending watch_list_view (net_world net_waiting) \<inter> {1, 2} = {}"
    by (simp_all add: net_waiting_def watch_dir_def watch_list_view_def two_children_def)
  with settled_queue_has_one_owner [OF watch_api_laws net_runs(2)] show ?thesis by blast
qed

text \<open>The second client gives up while the first one has the lock.\<close>

theorem stale_watch_requeues_witness:
  "\<exists>m1 w1 m3 w3. zkr_lock_unlock watch_api waiting_mutex (two_children, [(2, lock_child 1 0)], []) = Ret (0, m1, w1) \<and>
     (\<exists>p. (2, p) \<in> wv_armed watch_list_view w1) \<and>
     (\<exists>w2 b. lock_watcher_fn watch_api m1 w2 = Some (Ret (b, m3, w3))) \<and> m_id m3 = Str (lock_child 2 2)"
proof -
  have s: "(2 :: nat) \<in> {1, 2}" "m_id (net_lock net_waiting 2) = Str (lock_child 2 1)"
    "zkr_lock_isowner (net_lock net_waiting 2) = Ret False" "2 \<notin> wv_pending watch_list_view (net_world net_waiting)"
    "dir_next watch_dir (net_world net_waiting) < 9"
    by (simp_all add: net_waiting_def waiting_mutex_def zkr_lock_isowner_def lock_child_inj watch_list_view_def watch_dir_def
      two_children_def)
  have net: "net_lock net_waiting 2 = waiting_mutex" "net_world net_waiting = (two_children, [(2, lock_child 1 0)], [])"
    "dir_next watch_dir (two_children, [(2, lock_child 1 0)], []) = 2"
    by (simp_all add: net_waiting_def watch_dir_def two_children_def)
  from stale_watch_requeues [OF watch_api_laws net_runs(2) s] show ?thesis
    unfolding net of_nat_numeral by blast
qed

end
