(* ===== verification/Lock_Overlap.thy ===== *)
theory Lock_Overlap
  imports Lock_Watches
begin

text \<open>
  Waiting clients of \<open>zoo_lock.c\<close> whose calls overlap. As in \<open>Lock_Exclusion\<close>, every library call may be
  interleaved with the actions of other clients; here the evolution also says what becomes of the watches
  of one client. A client that comes out of the second half of the operation with \<open>ZOK\<close> is notified from then
  on, whatever the others do; the other outcome of the watch is the wait for the mutex it holds itself.
\<close>

section \<open>Evolution with watches\<close>

text \<open>
  The other clients keep the directory well formed and only evolve it; a watch of \<open>zh\<close> stays armed while the
  watched child exists, and becomes an event when it goes; events of \<open>zh\<close> stay.
\<close>

definition watch_step :: "'w lock_dir \<Rightarrow> 'w watch_view \<Rightarrow> zhandle \<Rightarrow> 'w \<Rightarrow> 'w \<Rightarrow> bool" where
  "watch_step D W zh w w' \<longleftrightarrow> dir_step D w w' \<and>
     (\<forall>c. (zh, c) \<in> wv_armed W w \<longrightarrow> c \<in> dir_nodes D w \<longrightarrow>
        (zh, c) \<in> wv_armed W w' \<and> c \<in> dir_nodes D w' \<or> zh \<in> wv_pending W w') \<and>
     (zh \<in> wv_pending W w \<longrightarrow> zh \<in> wv_pending W w')"

text \<open>
  A listing is the children at some moment of the call; a watch that is answered with \<open>ZOK\<close> was armed at some
  moment of the call at which the child existed.
\<close>

definition overlap_laws :: "'w zk_api \<Rightarrow> 'w lock_dir \<Rightarrow> 'w watch_view \<Rightarrow> zhandle \<Rightarrow> string \<Rightarrow> bool" where
  "overlap_laws api D W zh path \<longleftrightarrow>
     (\<forall>w r kids w'. dir_ok D w \<longrightarrow> zoo_get_children api zh path False w = ((r, kids), w') \<longrightarrow>
        watch_step D W zh w w' \<and>
        (r = ZOK \<longrightarrow> (\<exists>w1. watch_step D W zh w w1 \<and> watch_step D W zh w1 w' \<and> set kids = dir_nodes D w1))) \<and>
     (\<forall>w c r st w'. dir_ok D w \<longrightarrow> zoo_wexists api zh (child_path path c) (Some LockWatcher) w = ((r, st), w') \<longrightarrow>
        watch_step D W zh w w' \<and>
        (r = ZOK \<longrightarrow> (\<exists>w1. watch_step D W zh w w1 \<and> c \<in> dir_nodes D w1 \<and> (zh, c) \<in> wv_armed W w1 \<and>
           watch_step D W zh w1 w'))) \<and>
     (\<forall>w f rc cb. dir_ok D w \<longrightarrow> watch_step D W zh w (run_completion api f rc cb w))"

lemma overlap_lawsD:
  assumes "overlap_laws api D W zh path" "dir_ok D w"
  shows overlap_list: "zoo_get_children api zh path False w = (x, w') \<Longrightarrow> watch_step D W zh w w' \<and>
      (fst x = ZOK \<longrightarrow> (\<exists>w1. watch_step D W zh w w1 \<and> watch_step D W zh w1 w' \<and> set (snd x) = dir_nodes D w1))"
    and overlap_watch: "zoo_wexists api zh (child_path path c) (Some LockWatcher) w = (y, w') \<Longrightarrow> watch_step D W zh w w' \<and>
      (fst y = ZOK \<longrightarrow> (\<exists>w1. watch_step D W zh w w1 \<and> c \<in> dir_nodes D w1 \<and> (zh, c) \<in> wv_armed W w1 \<and>
         watch_step D W zh w1 w'))"
    and overlap_completion: "watch_step D W zh w (run_completion api f rc cb w)"
  using assms unfolding overlap_laws_def by (metis prod.collapse)+

lemma watch_step_refl: "dir_ok D w \<Longrightarrow> watch_step D W zh w w"
  by (simp add: watch_step_def dir_step_refl)

lemma watch_step_trans: "watch_step D W zh a b \<Longrightarrow> watch_step D W zh b c \<Longrightarrow> watch_step D W zh a c"
  unfolding watch_step_def using dir_step_trans by metis

lemma watch_step_dir: "watch_step D W zh w w' \<Longrightarrow> dir_step D w w'"
  by (simp add: watch_step_def)

lemma watch_step_ok: "watch_step D W zh w w' \<Longrightarrow> dir_ok D w'"
  by (simp add: watch_step_def dir_step_def)

lemma watch_steps: "(watch_step D W zh)\<^sup>*\<^sup>* w w' \<Longrightarrow> dir_ok D w \<Longrightarrow> watch_step D W zh w w'"
  by (induction rule: rtranclp_induct) (auto intro: watch_step_refl watch_step_trans)

section \<open>Notified once, notified for good\<close>

lemma direct_pred_stable:
  assumes ok: "dir_ok D w" "dir_ok D w'" and ev: "evolves D w w'" and n: "n \<le> dir_next D w"
    and pred: "direct_pred D w n t k" and there: "lock_child t k \<in> dir_nodes D w'"
  shows "direct_pred D w' n t k"
proof -
  have k: "k < n" "k < seq_max" using pred by (simp_all add: direct_pred_def)
  have "j \<le> k" if j: "j < seq_max" "lock_child u j \<in> dir_nodes D w'" "j < n" for u j
  proof -
    have "j < dir_next D w" using j(3) n by simp
    from child_was_there [OF ok ev this j(2)] pred j(1,3) show ?thesis unfolding direct_pred_def by blast
  qed
  with k there show ?thesis unfolding direct_pred_def by blast
qed

lemma notified_stable:
  assumes step: "watch_step D W zh w w'" and ok: "dir_ok D w" and n: "n < dir_next D w"
    and mem: "lock_child s n \<in> dir_nodes D w'" and woken: "notified D W w m zh n"
  shows "notified D W w' m zh n"
proof (rule notified_mono [OF woken])
  have d: "dir_ok D w'" "evolves D w w'" using step by (simp_all add: watch_step_def dir_step_def)
  show "least_child D w' n" if "least_child D w n" using least_child_stable [OF ok d n _ mem] that by simp
  show "zh \<in> wv_pending W w'" if "zh \<in> wv_pending W w" using step that by (simp add: watch_step_def)
  show "direct_pred D w' n t k \<and> (zh, lock_child t k) \<in> wv_armed W w' \<or> zh \<in> wv_pending W w'"
    if "direct_pred D w n t k" "(zh, lock_child t k) \<in> wv_armed W w" for t k
  proof -
    have "lock_child t k \<in> dir_nodes D w" using that(1) by (simp add: direct_pred_def)
    then have "(zh, lock_child t k) \<in> wv_armed W w' \<and> lock_child t k \<in> dir_nodes D w' \<or> zh \<in> wv_pending W w'"
      using step that(2) unfolding watch_step_def by blast
    then show ?thesis using direct_pred_stable [OF ok d less_imp_le [OF n] that(1)] by blast
  qed
qed

section \<open>The second half of the operation\<close>

lemma overlap_getchildren:
  assumes laws: "overlap_laws api D W zh path" and ok: "dir_ok D w"
    and call: "retry_getchildren api zh path 3 w = ((ZOK, kids), w')"
  shows "\<exists>w1. watch_step D W zh w w1 \<and> watch_step D W zh w1 w' \<and> set kids = dir_nodes D w1"
proof -
  let ?Q = "\<lambda>r w'. fst r = ZOK \<longrightarrow> (\<exists>w1. watch_step D W zh w w1 \<and> watch_step D W zh w1 w' \<and> set (snd r) = dir_nodes D w1)"
  have "watch_step D W zh w w' \<and> (fst (ZOK, kids) \<noteq> ZCONNECTIONLOSS \<longrightarrow> ?Q (ZOK, kids) w')"
  proof (rule retry_upto_invariant [where I = "\<lambda>w'. watch_step D W zh w w'" and Q = ?Q])
    fix v r v' assume v: "watch_step D W zh w v" "zoo_get_children api zh path False v = (r, v')"
    from overlap_list [OF laws watch_step_ok [OF v(1)] v(2)] v(1)
    show "watch_step D W zh w v' \<and> (fst r \<noteq> ZCONNECTIONLOSS \<longrightarrow> ?Q r v')" by (blast intro: watch_step_trans)
  qed (use ok call in \<open>auto simp: retry_getchildren_def intro: watch_step_refl\<close>)
  then show ?thesis by simp
qed

lemma overlap_wexists:
  assumes laws: "overlap_laws api D W zh path" and ok: "dir_ok D w"
    and call: "retry_zoowexists api zh (child_path path c) LockWatcher 3 w = ((ZOK, st), w')"
  shows "\<exists>w1. watch_step D W zh w w1 \<and> c \<in> dir_nodes D w1 \<and> (zh, c) \<in> wv_armed W w1 \<and> watch_step D W zh w1 w'"
proof -
  let ?Q = "\<lambda>r w'. fst r = ZOK \<longrightarrow> (\<exists>w1. watch_step D W zh w w1 \<and> c \<in> dir_nodes D w1 \<and> (zh, c) \<in> wv_armed W w1 \<and>
    watch_step D W zh w1 w')"
  have "watch_step D W zh w w' \<and> (fst (ZOK, st) \<noteq> ZCONNECTIONLOSS \<longrightarrow> ?Q (ZOK, st) w')"
  proof (rule retry_upto_invariant [where I = "\<lambda>w'. watch_step D W zh w w'" and Q = ?Q])
    fix v r v' assume v: "watch_step D W zh w v" "zoo_wexists api zh (child_path path c) (Some LockWatcher) v = (r, v')"
    from overlap_watch [OF laws watch_step_ok [OF v(1)] v(2)] v(1)
    show "watch_step D W zh w v' \<and> (fst r \<noteq> ZCONNECTIONLOSS \<longrightarrow> ?Q r v')" by (blast intro: watch_step_trans)
  qed (use ok call in \<open>auto simp: retry_zoowexists_def intro: watch_step_refl\<close>)
  then show ?thesis by simp
qed

lemma decide_steps:
  assumes laws: "overlap_laws api D W (m_zh m) path" and ok: "dir_ok D w" and m: "m_pmutex m = PLocked"
    and call: "lock_decide api m path ident w = Some (Ret (ZOK, m', w'))"
  shows "watch_step D W (m_zh m) w w'"
  using call m
proof (cases rule: decide_cases)
  case (lost kids)
  then show ?thesis by simp
next
  case (waits kids w1 owner rest pred st)
  from overlap_getchildren [OF laws ok waits(1)] have w1: "watch_step D W (m_zh m) w w1" by (blast intro: watch_step_trans)
  from overlap_wexists [OF laws watch_step_ok [OF w1] waits(4)] w1 show ?thesis by (blast intro: watch_step_trans)
next
  case (owns kids w1 owner rest)
  from overlap_getchildren [OF laws ok owns(1)] have w1: "watch_step D W (m_zh m) w w1" by (blast intro: watch_step_trans)
  have "watch_step D W (m_zh m) w1 w'" unfolding owns(5)
    by (simp add: call_completion_def overlap_completion [OF laws] watch_step_refl watch_step_ok [OF w1] split: option.split)
  with w1 show ?thesis by (rule watch_step_trans)
next
  case (stranded kids owner rest)
  from overlap_getchildren [OF laws ok stranded(1)] show ?thesis by (blast intro: watch_step_trans)
qed

text \<open>The order of the sessions in a listing.\<close>

definition names_ascend :: "string set \<Rightarrow> bool" where
  "names_ascend N \<longleftrightarrow> (\<forall>s t n k. n < seq_max \<longrightarrow> k < seq_max \<longrightarrow> lock_child s n \<in> N \<longrightarrow>
     lock_child t k \<in> N \<longrightarrow> n < k \<longrightarrow> unat s < unat t)"

lemma sessions_ascend_names: "sessions_ascend D w \<longleftrightarrow> names_ascend (dir_nodes D w)"
  by (simp only: sessions_ascend_def names_ascend_def)

lemma decide_notifies:
  assumes laws: "overlap_laws api D W (m_zh m) path" and ok: "dir_ok D w"
    and m: "m_pmutex m = PLocked" "m_id m = Str (lock_child sid n)" and n: "n < dir_next D w"
    and asc: "\<And>kids w1. retry_getchildren api (m_zh m) path 3 w = ((ZOK, kids), w1) \<Longrightarrow> names_ascend (set kids)"
    and call: "lock_decide api m path (lock_child sid n) w = Some (Ret (ZOK, m', w'))"
    and mem: "lock_child sid n \<in> dir_nodes D w'"
  shows "watch_step D W (m_zh m) w w' \<and> notified D W w' m' (m_zh m) n"
proof -
  let ?zh = "m_zh m"
  have bound: "n < seq_max" using n ok by (simp add: dir_ok_def)
  have half: "watch_step D W ?zh w v \<and> notified D W v m' ?zh n"
    if "watch_step D W ?zh w v1" "watch_step D W ?zh v1 v" "lock_child sid n \<in> dir_nodes D v" "notified D W v1 m' ?zh n" for v1 v
  proof -
    have "n < dir_next D v1" using watch_step_dir [OF that(1)] n by (simp add: dir_step_def evolves_def)
    from notified_stable [OF that(2) watch_step_ok [OF that(1)] this that(3,4)] that(1,2)
    show ?thesis by (blast intro: watch_step_trans)
  qed
  text \<open>At the moment of the listing.\<close>
  have list: "\<exists>v. watch_step D W ?zh w v \<and> watch_step D W ?zh v w1 \<and> set kids = dir_nodes D v \<and> dir_ok D v \<and>
      lock_child sid n \<in> dir_nodes D v \<and> n < dir_next D v \<and>
      (child_floor (owner # rest) (lock_child sid n) = None \<longrightarrow> least_child D v n) \<and>
      (\<forall>pred. child_floor (owner # rest) (lock_child sid n) = Some pred \<longrightarrow> (\<exists>t k. pred = lock_child t k \<and> direct_pred D v n t k)) \<and>
      (owner = lock_child sid n \<longleftrightarrow> least_child D v n)"
    if g: "retry_getchildren api ?zh path 3 w = ((ZOK, kids), w1)" "sort_children kids = Ret (owner # rest)"
      and later: "watch_step D W ?zh w1 w'" for kids w1 owner rest
  proof -
    from overlap_getchildren [OF laws ok g(1)] obtain v where
      v: "watch_step D W ?zh w v" "watch_step D W ?zh v w1" "set kids = dir_nodes D v" by blast
    note okv = watch_step_ok [OF v(1)]
    have nv: "n < dir_next D v" using watch_step_dir [OF v(1)] n by (simp add: dir_step_def evolves_def)
    have "watch_step D W ?zh v w'" using v(2) later by (rule watch_step_trans)
    then have own: "lock_child sid n \<in> dir_nodes D v"
      using child_was_there [OF okv watch_step_ok dir_step_evolves [OF watch_step_dir] nv mem] by blast
    have "sessions_ascend D v" using asc [OF g(1)] v(3) by (simp only: sessions_ascend_names)
    note floor = floor_is_predecessor [OF okv this v(3) g(2) own bound]
    from sorted_head_least [OF okv v(3) g(2)] obtain t k where
      o: "owner = lock_child t k" "k < dir_next D v" "owner \<in> dir_nodes D v" "least_child D v k" .
    have k: "k < seq_max" using o(2) okv by (simp add: dir_ok_def)
    have first: "owner = lock_child sid n \<longleftrightarrow> least_child D v n"
    proof
      assume "owner = lock_child sid n"
      then have "k = n" using o(1) lock_child_inj [OF k bound] by simp
      with o(4) show "least_child D v n" by simp
    next
      assume "least_child D v n"
      from least_child_unique [OF okv own _ bound k this o(4)] o(1,3) show "owner = lock_child sid n" by blast
    qed
    show ?thesis by (intro exI [of _ v] conjI allI impI) (fact v okv own nv first floor(1) floor(2) | assumption)+
  qed
  show ?thesis
    using call m(1)
  proof (cases rule: decide_cases)
    case (lost kids)
    then show ?thesis by simp
  next
    case (waits kids w1 owner rest pred st)
    have ok1: "dir_ok D w1" using overlap_getchildren [OF laws ok waits(1)] by (blast dest: watch_step_ok)
    from overlap_wexists [OF laws ok1 waits(4)] obtain u where
      u: "watch_step D W ?zh w1 u" "pred \<in> dir_nodes D u" "(?zh, pred) \<in> wv_armed W u" "watch_step D W ?zh u w'" by blast
    from list [OF waits(1,2) watch_step_trans [OF u(1,4)]] waits(3) obtain v t k where
      v: "watch_step D W ?zh w v" "watch_step D W ?zh v w1" "dir_ok D v" "n < dir_next D v"
        "pred = lock_child t k" "direct_pred D v n t k" "owner = lock_child sid n \<longleftrightarrow> least_child D v n" by blast
    have vu: "watch_step D W ?zh v u" using v(2) u(1) by (rule watch_step_trans)
    have "direct_pred D u n t k"
      using direct_pred_stable [OF v(3) watch_step_ok [OF vu] dir_step_evolves [OF watch_step_dir [OF vu]] less_imp_le [OF v(4)] v(6)]
        u(2) v(5) by simp
    moreover have "owner \<noteq> lock_child sid n" using v(7) least_no_pred [of D v n t k] v(6) by auto
    then have "zkr_lock_isowner m' = Ret False" using m(2) waits(6) by (simp add: zkr_lock_isowner_def)
    ultimately have "notified D W u m' ?zh n" using u(3) v(5) unfolding notified_def by auto
    with half [OF watch_step_trans [OF v(1) vu] u(4) mem] show ?thesis by blast
  next
    case (owns kids w1 owner rest)
    have "dir_ok D w1" using overlap_getchildren [OF laws ok owns(1)] by (blast dest: watch_step_ok)
    then have last: "watch_step D W ?zh w1 w'"
      unfolding owns(5) by (simp add: call_completion_def overlap_completion [OF laws] watch_step_refl split: option.split)
    from list [OF owns(1,2) last] owns(3) obtain v where
      v: "watch_step D W ?zh w v" "watch_step D W ?zh v w1" "least_child D v n" by blast
    have "zkr_lock_isowner m' = Ret True" using m(2) owns(4,7) by (simp add: zkr_lock_isowner_def)
    with v(3) have "notified D W v m' ?zh n" by (simp add: notified_def)
    with half [OF v(1) watch_step_trans [OF v(2) last] mem] show ?thesis by blast
  next
    case (stranded kids owner rest)
    have "dir_ok D w'" using overlap_getchildren [OF laws ok stranded(1)] by (blast dest: watch_step_ok)
    from list [OF stranded(1,2) watch_step_refl [OF this]] stranded(3,4) show ?thesis by blast
  qed
qed

text \<open>
  C5: with overlapping calls a waiting client is either notified for good or waits for itself, where the names in its
  listing ascend with the counters (the session ids do; otherwise a waiter may be left without a watch). Let every library
  call be interleaved with any actions of the others. If the second half
  of the operation ends with \<open>ZOK\<close>, then after any further actions of the others the client, while its child
  exists, is the owner of a first child, or has a watch on the child directly before its own, or an event; it
  believes to be the owner only if its child is the first. If the watch is not answered with \<open>ZOK\<close>, the operation locks
  the mutex that it holds already.
\<close>

theorem overlapping_waiter_is_notified:
  assumes laws: "overlap_laws api D W (m_zh m) path" and ok: "dir_ok D w"
    and m: "m_pmutex m = PLocked" "m_id m = Str (lock_child sid n)" and n: "n < dir_next D w"
    and list: "retry_getchildren api (m_zh m) path 3 w = ((ZOK, kids), w1)" "names_ascend (set kids)"
  shows "(\<forall>m' w' w''. lock_decide api m path (lock_child sid n) w = Some (Ret (ZOK, m', w')) \<longrightarrow>
      (watch_step D W (m_zh m))\<^sup>*\<^sup>* w' w'' \<longrightarrow> lock_child sid n \<in> dir_nodes D w'' \<longrightarrow>
      notified D W w'' m' (m_zh m) n) \<and>
    (\<forall>owner rest pred ret st w2. sort_children kids = Ret (owner # rest) \<longrightarrow>
      child_floor (owner # rest) (lock_child sid n) = Some pred \<longrightarrow>
      retry_zoowexists api (m_zh m) (child_path path pred) LockWatcher 3 w1 = ((ret, st), w2) \<longrightarrow> ret \<noteq> ZOK \<longrightarrow>
      lock_decide api m path (lock_child sid n) w = Some (Fault Deadlock))"
proof (intro conjI allI impI)
  fix m' w' w''
  assume call: "lock_decide api m path (lock_child sid n) w = Some (Ret (ZOK, m', w'))"
    and others: "(watch_step D W (m_zh m))\<^sup>*\<^sup>* w' w''" and mem: "lock_child sid n \<in> dir_nodes D w''"
  have step: "watch_step D W (m_zh m) w w'" by (rule decide_steps [OF laws ok m(1) call])
  note ok' = watch_step_ok [OF step]
  have n': "n < dir_next D w'" using watch_step_dir [OF step] n by (simp add: dir_step_def evolves_def)
  note last = watch_steps [OF others ok']
  have mem': "lock_child sid n \<in> dir_nodes D w'"
    by (rule child_was_there [OF ok' watch_step_ok [OF last] dir_step_evolves [OF watch_step_dir [OF last]] n' mem])
  have "notified D W w' m' (m_zh m) n"
    using decide_notifies [OF laws ok m n _ call mem'] list by simp
  from notified_stable [OF last ok' n' mem this] show "notified D W w'' m' (m_zh m) n" .
next
  fix owner rest pred ret st w2
  assume "sort_children kids = Ret (owner # rest)" "child_floor (owner # rest) (lock_child sid n) = Some pred"
    "retry_zoowexists api (m_zh m) (child_path path pred) LockWatcher 3 w1 = ((ret, st), w2)" "ret \<noteq> ZOK"
  with list(1) m(1) show "lock_decide api m path (lock_child sid n) w = Some (Fault Deadlock)"
    by (simp add: lock_decide_def Let_def unlock_until_error_held)
qed

section \<open>A client behind another one\<close>

text \<open>A server whose listing and watch calls keep the directory, over the two clients of \<open>Lock_Watches\<close>.\<close>

lemma watch_api_overlap: "overlap_laws watch_api watch_dir watch_list_view zh ''/l''"
proof -
  have keep: "watch_step watch_dir watch_list_view zh w (fst w, armed @ fst (snd w), snd (snd w))"
    if "dir_ok watch_dir w" for w :: watch_world and armed
    using that by (auto simp: watch_step_def dir_step_def dir_ok_def evolves_def watch_dir_def watch_list_view_def)
  note same = watch_step_refl
  have child: "c \<in> dir_nodes watch_dir w" if "child_path ''/l'' c \<in> set (map (child_path ''/l'') (fst (fst w)))"
    for w :: watch_world and c using that by (auto simp: watch_dir_def)
  have new: "(zh, c) \<in> wv_armed watch_list_view (fst w,
      map (Pair zh) (filter (\<lambda>d. child_path ''/l'' d = child_path ''/l'' c) (fst (fst w))) @ fst (snd w), snd (snd w))"
    if "c \<in> dir_nodes watch_dir w" for w :: watch_world and c
    using that by (simp add: watch_dir_def watch_list_view_def)
  show ?thesis
    unfolding overlap_laws_def
  proof (intro conjI allI impI)
    fix w r kids w'
    assume ok: "dir_ok watch_dir w" and call: "zoo_get_children watch_api zh ''/l'' False w = ((r, kids), w')"
    then have e: "w' = w" "kids = fst (fst w)" by (auto simp: watch_api_at_def)
    show "watch_step watch_dir watch_list_view zh w w'" using same [OF ok] e(1) by simp
    show "\<exists>w1. watch_step watch_dir watch_list_view zh w w1 \<and> watch_step watch_dir watch_list_view zh w1 w' \<and>
        set kids = dir_nodes watch_dir w1"
      using same [OF ok] e by (intro exI [of _ w]) (simp add: watch_dir_def)
  next
    fix w c r st w'
    assume ok: "dir_ok watch_dir w"
      and call: "zoo_wexists watch_api zh (child_path ''/l'' c) (Some LockWatcher) w = ((r, st), w')"
    show "watch_step watch_dir watch_list_view zh w w'"
      using call keep [OF ok] same [OF ok] by (auto simp: watch_api_at_def split: if_splits)
    then have ok': "dir_ok watch_dir w'" by (rule watch_step_ok)
    assume "r = ZOK"
    with call have c: "c \<in> dir_nodes watch_dir w" and w': "w' = (fst w,
        map (Pair zh) (filter (\<lambda>d. child_path ''/l'' d = child_path ''/l'' c) (fst (fst w))) @ fst (snd w), snd (snd w))"
      using child [of c w] by (simp_all add: watch_api_at_def split: if_splits)
    show "\<exists>w1. watch_step watch_dir watch_list_view zh w w1 \<and> c \<in> dir_nodes watch_dir w1 \<and>
        (zh, c) \<in> wv_armed watch_list_view w1 \<and> watch_step watch_dir watch_list_view zh w1 w'"
      using keep [OF ok] same [OF ok'] new [OF c] c w' by (intro exI [of _ w']) (simp add: watch_dir_def)
  next
    fix w :: watch_world and f rc cb
    assume ok: "dir_ok watch_dir w"
    show "watch_step watch_dir watch_list_view zh w (run_completion watch_api f rc cb w)"
      using same [OF ok] by (simp add: watch_api_at_def)
  qed
qed

text \<open>The second client watches the first one's child; then that child goes.\<close>

lemma second_client_decides:
  "lock_decide watch_api (waiting_mutex\<lparr>m_pmutex := PLocked\<rparr>) ''/l'' (lock_child 2 1) (two_children, [], []) =
     Some (Ret (ZOK, waiting_mutex\<lparr>m_pmutex := PLocked\<rparr>, (two_children, [(2, lock_child 1 0)], [])))"
  by code_simp

theorem overlapping_waiter_is_notified_witness:
  "notified watch_dir watch_list_view (([lock_child 2 1], 2), [], [2]) (waiting_mutex\<lparr>m_pmutex := PLocked\<rparr>) 2 1"
proof -
  let ?m = "waiting_mutex\<lparr>m_pmutex := PLocked\<rparr>" and ?w = "(two_children, [], []) :: watch_world"
  have inj: "lock_child s k = lock_child t 1 \<longleftrightarrow> s = t \<and> k = 1" "lock_child s k = lock_child t 0 \<longleftrightarrow> s = t \<and> k = 0"
    if "k < seq_max" for s t k using lock_child_inj [OF that, of 1] lock_child_inj [OF that, of 0] by auto
  have ok: "dir_ok watch_dir ?w"
    using dir_step_ok [OF dir_step_second] by (simp add: dir_ok_def dir_view_def watch_dir_def)
  have m: "m_zh ?m = 2" "m_pmutex ?m = PLocked" "m_id ?m = Str (lock_child 2 1)"
    by (simp_all add: waiting_mutex_def client_mutex_def zkr_lock_init_def)
  have n: "1 < dir_next watch_dir ?w" by (simp add: watch_dir_def two_children_def)
  have list: "retry_getchildren watch_api (m_zh ?m) ''/l'' 3 ?w = ((ZOK, [lock_child 1 0, lock_child 2 1]), ?w)"
    unfolding retry_getchildren_def
    by (rule retry_upto_answered) (simp_all add: watch_api_at_def two_children_def)
  have asc: "names_ascend (set [lock_child 1 0, lock_child 2 1])" unfolding names_ascend_def using inj by auto
  have laws: "overlap_laws watch_api watch_dir watch_list_view (m_zh ?m) ''/l''" by (rule watch_api_overlap)
  have "watch_step watch_dir watch_list_view 2 (two_children, [(2, lock_child 1 0)], []) (([lock_child 2 1], 2), [], [2])"
    using ok by (auto simp: watch_step_def dir_step_def dir_ok_def evolves_def watch_dir_def watch_list_view_def two_children_def)
  then have "(watch_step watch_dir watch_list_view (m_zh ?m))\<^sup>*\<^sup>* (two_children, [(2, lock_child 1 0)], []) (([lock_child 2 1], 2), [], [2])"
    unfolding m(1) by (rule r_into_rtranclp)
  moreover have "lock_child 2 1 \<in> dir_nodes watch_dir (([lock_child 2 1], 2), [], [2])" by (simp add: watch_dir_def)
  ultimately show ?thesis
    using overlapping_waiter_is_notified [OF laws ok m(2,3) n list asc, THEN conjunct1, rule_format, OF second_client_decides]
    unfolding m(1) by simp
qed

end
