(* ===== verification/Session_Lock.thy ===== *)
theory Session_Lock
  imports Session_Properties Lock_Progress
begin

text \<open>
  The session handlers and the lock together: what a locking read of one request means for the
  requests of other clients on the same session, and what it leaves behind when it gives up. Both
  rest on the invariants of \<open>Lock_Exclusion\<close>, carried through the attempts of
  \<open>php_zookeeper_sess_lock\<close>.
\<close>

section \<open>Invariants through the attempts\<close>

context lock_invariant
begin

lemma attempts_inv:
  assumes laws: "zk_lock_laws api D zh path sid" and inv: "client_inv D zh path I m w" and ok: "mutex_ok m"
    and call: "lock_attempts (zkr_lock_lock api) n m w = Some (Ret (b, m', w'))"
  shows "client_inv D zh path I m' w'"
proof -
  have "(client_inv D zh path I m' w' \<and> mutex_ok m') \<and> True"
  proof (rule lock_attempts_rule [OF call, of "\<lambda>m w. client_inv D zh path I m w \<and> mutex_ok m" "\<lambda>_ _ _. True"])
    fix m w b m' w'
    assume "client_inv D zh path I m w \<and> mutex_ok m" "zkr_lock_lock api m w = Some (Ret (b, m', w'))"
    then show "(client_inv D zh path I m' w' \<and> mutex_ok m') \<and> True" using lock_inv [OF laws] by blast
  qed (simp add: inv ok)
  then show ?thesis by simp
qed

text \<open>An invariant of the freshly initialised mutex is one of the session's lock.\<close>

lemma sess_lock_inv:
  assumes laws: "zk_lock_laws api D (s_zk s) (lock_path_of env key) sid" and ok: "dir_ok D w"
    and start: "\<And>m. m_id m = Null \<Longrightarrow> m_ownerid m = Null \<Longrightarrow> I m w"
    and call: "php_zookeeper_sess_lock env api s key w = Some (Ret (b, s', w'))"
  shows "client_inv D (s_zk s) (lock_path_of env key) I (s_lock s') w'"
  using call
proof (cases rule: sess_lock_attempts)
  case (1 n m')
  let ?m = "snd (zkr_lock_init (s_lock s) (s_zk s) (Str (lock_path_of env key)) (Some ZOO_OPEN_ACL_UNSAFE))"
  have "client_inv D (s_zk s) (lock_path_of env key) I ?m w"
    using ok start [of ?m] by (simp add: client_inv_def zkr_lock_init_def)
  from attempts_inv [OF laws this mutex_ok_init 1(1)] 1(2) show ?thesis by (simp split: if_splits)
qed

end

lemma sess_lock_owner_inv:
  assumes "zk_lock_laws api D (s_zk s) (lock_path_of env key) sid" "dir_ok D w"
    and "php_zookeeper_sess_lock env api s key w = Some (Ret (b, s', w'))"
  shows "client_inv D (s_zk s) (lock_path_of env key) (owner_inv D sid) (s_lock s') w'"
  by (rule owner.sess_lock_inv [OF assms(1,2) _ assms(3)]) (simp add: owner_inv_def)

text \<open>A granted lock: the own child is recorded, and it is the head of the queue while it exists.\<close>

lemma sess_lock_granted:
  assumes laws: "zk_lock_laws api D (s_zk s) (lock_path_of env key) sid" and ok: "dir_ok D w"
    and call: "php_zookeeper_sess_lock env api s key w = Some (Ret (True, s', w'))"
  obtains n where "m_id (s_lock s') = Str (lock_child sid n)" "dir_ok D w'"
    "\<And>m. m_ownerid m = Null \<Longrightarrow> head_inv D sid n m w'"
proof -
  have inv: "owner_inv D sid (s_lock s') w'" "dir_ok D w'"
    using sess_lock_owner_inv [OF laws ok call] by (simp_all add: client_inv_def)
  have "strings_ok (s_lock s')" "zkr_lock_isowner (s_lock s') = Ret True"
    using sess_lock_Ret [OF call] by (simp_all add: mutex_ok_def)
  with isowner_ok obtain c where c: "m_id (s_lock s') = Str c" "m_ownerid (s_lock s') = Str c"
    by (cases "m_id (s_lock s')") (auto simp: strings_ok_def)
  from inv(1) c obtain n t k where n: "c = lock_child sid n" "n < dir_next D w'"
    and k: "c = lock_child t k" "k < dir_next D w'" "c \<in> dir_nodes D w' \<longrightarrow> least_child D w' k"
    unfolding owner_inv_def by blast
  have "dir_next D w' \<le> seq_max" using inv(2) by (simp add: dir_ok_def)
  with n k have "k = n" using lock_child_inj [of n k sid t] by simp
  with n k(3) have "head_inv D sid n m w'" if "m_ownerid m = Null" for m using that by (simp add: head_inv_def)
  with c(1) n(1) inv(2) that show thesis by simp
qed

lemma other_session_child: "sA \<noteq> sB \<Longrightarrow> lock_child sA n \<noteq> lock_child sB k"
  using take_lock_child [of sA n] take_lock_child [of sB k] by (metis lock_prefix_inj)

section \<open>One request at a time\<close>

text \<open>
  C1: the requests on one session are serialised. Once a request of client A has locked the session
  and as long as its child exists, no locking read of the same session by a client of another ZooKeeper
  session gets past the lock: whatever else has happened in between, and however often it tries,
  when it stops trying its read ends with the fatal error and delivers nothing.
\<close>

theorem session_read_exclusive:
  assumes sessions: "sidA \<noteq> sidB"
    and lawsA: "zk_lock_laws api D (s_zk sA) (lock_path_of envA key) sidA"
    and lawsB: "zk_lock_laws api D (s_zk sB) (lock_path_of envB key) sidB"
    and lockA: "dir_ok D w0" "php_zookeeper_sess_lock envA api sA key w0 = Some (Ret (True, sA', w1))"
    and others: "dir_step D w1 (ps_world stB)"
    and B: "ps_mod_data stB = Some p" "ps_heap stB p = Some sB" "g_session_lock envB"
    and lockB: "php_zookeeper_sess_lock envB api sB key (ps_world stB) = Some (Ret (b, sB', w3))"
    and child: "m_id (s_lock sA') = Str a" "a \<in> dir_nodes D w3"
  shows "ps_read_zookeeper envB api key stB = Some (Bailout ''Failed to create session mutex'')"
proof -
  from sess_lock_granted [OF lawsA lockA] child(1) obtain n where a: "a = lock_child sidA n" "dir_ok D w1"
    and head: "\<And>m. m_ownerid m = Null \<Longrightarrow> head_inv D sidA n m w1" by auto
  have ok: "dir_ok D (ps_world stB)" by (rule dir_step_ok [OF others])
  have "client_inv D (s_zk sB) (lock_path_of envB key) (head_inv D sidA n) (s_lock sB') w3"
    by (rule head.sess_lock_inv [OF lawsB ok _ lockB]) (rule head_inv_stable [OF a(2) others head])
  with child(2) a(1) have owner: "m_ownerid (s_lock sB') = Str x \<Longrightarrow> x = lock_child sidA n" for x
    by (simp add: client_inv_def head_inv_def)
  have own: "m_id (s_lock sB') = Str i \<Longrightarrow> \<exists>k. i = lock_child sidB k" for i
    using sess_lock_owner_inv [OF lawsB ok lockB] by (auto simp: client_inv_def owner_inv_def)
  have "\<not> b"
  proof
    assume b
    with sess_lock_Ret [OF lockB] isowner_ok obtain c where "m_id (s_lock sB') = Str c" "m_ownerid (s_lock sB') = Str c"
      by (cases "m_id (s_lock sB')") (auto simp: mutex_ok_def strings_ok_def)
    with owner own other_session_child [OF sessions] show False by metis
  qed
  with B lockB show ?thesis by (simp add: ps_read_zookeeper_def with_session_def read_lock_def)
qed

definition lock_env :: php_env where
  "lock_env = sim_env\<lparr>g_session_lock := True, g_sess_lock_wait := 1000000, e_max_execution_time := 1\<rparr>"

definition lock_session :: "zhandle \<Rightarrow> php_zookeeper_session" where
  "lock_session zh = zeroed_session\<lparr>s_zk := zh\<rparr>"

abbreviation abc_lock :: string where "abc_lock \<equiv> ''/php-sessid/abc-lock''"

definition lock_state :: "zhandle \<Rightarrow> dir_world \<Rightarrow> dir_world php_state" where
  "lock_state zh w = \<lparr>ps_world = w, ps_heap = [0 \<mapsto> lock_session zh], ps_fresh = 1, ps_plist = (\<lambda>_. None),
     ps_mod_data = Some 0\<rparr>"

lemma lock_path_abc: "lock_path_of lock_env ''abc'' = abc_lock"
  by (simp add: lock_path_of_def lock_env_def sim_env_def)

definition taken_lock :: "zhandle \<Rightarrow> nat \<Rightarrow> string \<Rightarrow> int \<Rightarrow> zkr_lock_mutex" where
  "taken_lock zh n owner flag = (snd (zkr_lock_init blank_mutex zh (Str abc_lock) (Some ZOO_OPEN_ACL_UNSAFE)))\<lparr>
     m_id := Str (lock_child (of_nat zh) n), m_ownerid := Str owner, m_isOwner := flag\<rparr>"

lemma first_request_locks:
  "php_zookeeper_sess_lock lock_env (dir_api_at abc_lock) (lock_session 1) ''abc'' ([], 0) =
     Some (Ret (True, (lock_session 1)\<lparr>s_lock := taken_lock 1 0 (lock_child 1 0) 1, s_is_locked := True\<rparr>,
       ([lock_child 1 0], 1)))"
  by code_simp

lemma second_request_waits:
  "php_zookeeper_sess_lock lock_env (dir_api_at abc_lock) (lock_session 2) ''abc'' ([lock_child 1 0], 1) =
     Some (Ret (False, (lock_session 2)\<lparr>s_lock := taken_lock 2 1 (lock_child 1 0) 0\<rparr>, two_children))"
  by code_simp

theorem session_read_exclusive_witness:
  "ps_read_zookeeper lock_env (dir_api_at abc_lock) ''abc'' (lock_state 2 ([lock_child 1 0], 1)) =
     Some (Bailout ''Failed to create session mutex'')"
proof -
  let ?api = "dir_api_at abc_lock" and ?st = "lock_state 2 ([lock_child 1 0], 1)"
  have st: "ps_world ?st = ([lock_child 1 0], 1)" "ps_mod_data ?st = Some 0" "ps_heap ?st 0 = Some (lock_session 2)"
    by (simp_all add: lock_state_def)
  have laws: "zk_lock_laws ?api dir_view (s_zk (lock_session zh)) (lock_path_of lock_env ''abc'') (of_nat zh)" for zh
    using dir_api_laws [of abc_lock zh] by (simp add: lock_path_abc lock_session_def)
  show ?thesis
  proof (rule session_read_exclusive [OF _ laws [of 1] laws [of 2] dir_ok_empty first_request_locks _ st(2,3)])
    show "(of_nat 1 :: 64 word) \<noteq> of_nat 2" by simp
    show "dir_step dir_view ([lock_child 1 0], 1) (ps_world ?st)"
      unfolding st by (rule dir_step_refl [OF dir_step_ok [OF dir_step_first]])
    show "g_session_lock lock_env" by (simp add: lock_env_def)
    show "php_zookeeper_sess_lock lock_env ?api (lock_session 2) ''abc'' (ps_world ?st) =
        Some (Ret (False, (lock_session 2)\<lparr>s_lock := taken_lock 2 1 (lock_child 1 0) 0\<rparr>, two_children))"
      unfolding st by (rule second_request_waits)
    show "m_id (s_lock ((lock_session 1)\<lparr>s_lock := taken_lock 1 0 (lock_child 1 0) 1, s_is_locked := True\<rparr>)) =
        Str (lock_child 1 0)" by (simp add: taken_lock_def)
    show "lock_child 1 0 \<in> dir_nodes dir_view two_children" by (simp add: dir_view_def two_children_def)
  qed
qed

section \<open>A request that gives up\<close>

text \<open>
  The state that a refused locking read leaves: the attempts have written the session's struct in
  place, then \<open>E_ERROR\<close> leaves the handler.
\<close>

definition refused_state :: "'w php_state \<Rightarrow> nat \<Rightarrow> php_zookeeper_session \<Rightarrow> 'w \<Rightarrow> 'w php_state" where
  "refused_state st p s' w1 = put_session st p s' w1"

text \<open>
  C26: a request that gives up keeps its place in the queue. Its read ends with the fatal error; the session is not
  marked as locked, so the closing handler that PHP still runs neither unlocks nor makes any other call; and while
  the forgotten child exists no client that queues up later becomes the owner, in any state
  that is reached, although nobody holds the lock.
\<close>

theorem refused_read_blocks_queue:
  assumes laws: "zk_lock_laws api D (s_zk s) (lock_path_of env key) sid" "dir_ok D (ps_world st)"
    and st: "ps_mod_data st = Some p" "ps_heap st p = Some s" "\<not> s_is_locked s" "g_session_lock env"
    and refused: "php_zookeeper_sess_lock env api s key (ps_world st) = Some (Ret (False, s', w1))"
    and child: "m_id (s_lock s') = Str c"
    and later: "dir_step D w1 w2" "c \<in> dir_nodes D w2"
    and B: "zk_lock_laws api D zhB (lock_path_of env key) sB" "client_view api D zhB (lock_path_of env key) mB w2"
    and behind: "m_id mB = Str b" "b \<in> dir_nodes D w2" "b \<notin> dir_nodes D w1"
  shows "ps_read_zookeeper env api key st = Some (Bailout ''Failed to create session mutex'') \<and>
    ps_close_zookeeper api (refused_state st p s' w1) =
      Some (Ret (True, (refused_state st p s' w1)\<lparr>ps_mod_data := None\<rparr>)) \<and>
    zkr_lock_isowner mB = Ret False"
proof (intro conjI)
  show "ps_read_zookeeper env api key st = Some (Bailout ''Failed to create session mutex'')"
    using st refused by (simp add: ps_read_zookeeper_def with_session_def read_lock_def)
  have "\<not> s_is_locked s'" using sess_lock_Ret [OF refused] st(3) by simp
  then show "ps_close_zookeeper api (refused_state st p s' w1) =
      Some (Ret (True, (refused_state st p s' w1)\<lparr>ps_mod_data := None\<rparr>))"
    using st by (simp add: ps_close_zookeeper_def with_session_def refused_state_def put_session_def)
  have inv: "owner_inv D sid (s_lock s') w1" "dir_ok D w1"
    using sess_lock_owner_inv [OF laws refused] by (simp_all add: client_inv_def)
  then obtain n where n: "c = lock_child sid n" "n < dir_next D w1" using child by (auto simp: owner_inv_def)
  have bound: "dir_next D w1 \<le> seq_max" using inv(2) by (simp add: dir_ok_def)
  show "zkr_lock_isowner mB = Ret False"
  proof (rule ccontr)
    assume "zkr_lock_isowner mB \<noteq> Ret False"
    then have "zkr_lock_isowner mB = Ret True"
      using client_view_inv [OF B(2,1)] isowner_ok [of mB] by (auto simp: mutex_ok_def)
    from client_view_owner [OF B(2,1) this behind(1,2)] obtain k where
      k: "b = lock_child sB k" "k < seq_max" "least_child D w2 k" by blast
    from later(1) behind(2,3) obtain t j where "b = lock_child t j" "dir_next D w1 \<le> j" "j < dir_next D w2"
      unfolding dir_step_def evolves_def by blast
    moreover have "dir_next D w2 \<le> seq_max" using later(1) by (simp add: dir_step_def dir_ok_def)
    ultimately have "dir_next D w1 \<le> k" using lock_child_inj [OF k(2), of j sB t] k(1) by simp
    moreover have "k \<le> n" using k(3) later(2) n bound by (simp add: least_child_def)
    ultimately show False using n(2) by simp
  qed
qed

definition after_owner :: dir_world where
  "after_owner = ([lock_child 2 1, lock_child 3 2], 3)"

definition third_mutex :: zkr_lock_mutex where
  "third_mutex = snd (zkr_lock_init blank_mutex 3 (Str abc_lock) None)"

definition third_waiting :: zkr_lock_mutex where
  "third_waiting = third_mutex\<lparr>m_id := Str (lock_child 3 2), m_ownerid := Str (lock_child 2 1)\<rparr>"

lemma third_client_waits:
  "zkr_lock_lock (dir_api_at abc_lock) third_mutex ([lock_child 2 1], 2) = Some (Ret (False, third_waiting, after_owner))"
  by code_simp

lemma owner_leaves: "dir_step dir_view two_children ([lock_child 2 1], 2)"
proof -
  have "filter (\<lambda>c. c \<noteq> lock_child 1 0) (fst two_children) = [lock_child 2 1]"
    using other_session_child [of 2 1] by (simp add: two_children_def)
  with dir_delete_step [OF dir_step_ok [OF dir_step_second], of "\<lambda>c. c \<noteq> lock_child 1 0"] show ?thesis
    by (simp add: two_children_def)
qed

lemma third_client_step: "dir_step dir_view ([lock_child 2 1], 2) after_owner"
proof -
  have "dir_create abc_lock 3 3 99 ([lock_child 2 1], 2) =
      ((ZOK, snprintf 99 (child_path abc_lock (lock_child 3 2))), after_owner)"
    by (simp add: dir_create_def after_owner_def Let_def)
  from dir_create_step [OF dir_step_ok [OF owner_leaves] this] show ?thesis by blast
qed

theorem refused_read_blocks_queue_witness: "zkr_lock_isowner third_waiting = Ret False"
proof -
  let ?api = "dir_api_at abc_lock" and ?st = "lock_state 2 ([lock_child 1 0], 1)"
  have st: "ps_world ?st = ([lock_child 1 0], 1)" "ps_mod_data ?st = Some 0" "ps_heap ?st 0 = Some (lock_session 2)"
    by (simp_all add: lock_state_def)
  have laws: "zk_lock_laws ?api dir_view zh (lock_path_of lock_env ''abc'') (of_nat zh)" for zh
    using dir_api_laws [of abc_lock zh] by (simp add: lock_path_abc)
  have lawsA: "zk_lock_laws ?api dir_view (s_zk (lock_session 2)) (lock_path_of lock_env ''abc'') (of_nat 2)"
    using laws [of 2] by (simp add: lock_session_def)
  have "client_view ?api dir_view 3 abc_lock third_mutex ([lock_child 2 1], 2)"
    unfolding third_mutex_def by (rule view_init [OF dir_step_ok [OF owner_leaves]])
  then have view: "client_view ?api dir_view 3 (lock_path_of lock_env ''abc'') third_waiting after_owner"
    unfolding lock_path_abc by (rule view_lock [OF _ third_client_waits])
  show ?thesis
  proof (rule refused_read_blocks_queue [THEN conjunct2, THEN conjunct2, OF lawsA _ st(2,3) _ _ _ _ _ _ laws [of 3] view])
    show "dir_ok dir_view (ps_world ?st)" unfolding st by (rule dir_step_ok [OF dir_step_first])
    show "\<not> s_is_locked (lock_session 2)" by (simp add: lock_session_def zeroed_session_def)
    show "g_session_lock lock_env" by (simp add: lock_env_def)
    show "php_zookeeper_sess_lock lock_env ?api (lock_session 2) ''abc'' (ps_world ?st) =
        Some (Ret (False, (lock_session 2)\<lparr>s_lock := taken_lock 2 1 (lock_child 1 0) 0\<rparr>, two_children))"
      unfolding st by (rule second_request_waits)
    show "m_id (s_lock ((lock_session 2)\<lparr>s_lock := taken_lock 2 1 (lock_child 1 0) 0\<rparr>)) = Str (lock_child 2 1)"
      by (simp add: taken_lock_def)
    show "dir_step dir_view two_children after_owner" by (rule dir_step_trans [OF owner_leaves third_client_step])
    show "lock_child 2 1 \<in> dir_nodes dir_view after_owner" "lock_child 3 2 \<in> dir_nodes dir_view after_owner"
      "m_id third_waiting = Str (lock_child 3 2)"
      by (simp_all add: dir_view_def after_owner_def third_waiting_def)
    show "lock_child 3 2 \<notin> dir_nodes dir_view two_children"
      using other_session_child [of 3 1 2 0] other_session_child [of 3 2 2 1] by (simp add: dir_view_def two_children_def)
  qed
qed

end
