(* ===== verification/Session_Watch.thy ===== *)
theory Session_Watch
  imports Session_Lock Lock_Overlap
begin

text \<open>
  The watch of a waiting session lock. It outlives the attempt that set it, and its context is the lock
  inside the persistent session, while the path of that lock is memory of the request. This theory
  carries the watch through the attempts of \<open>php_zookeeper_sess_lock\<close> and the closing handler to the point
  where its event comes.
\<close>

section \<open>The watch that the attempts leave\<close>

lemma queue_counter_insert:
  assumes "queue_counter D s w n" and "dir_nodes D w' = insert (lock_child s n) (dir_nodes D w)" and "n < seq_max"
  shows "queue_counter D s w' n"
proof -
  have own: "\<exists>k < seq_max. lock_child s k \<in> dir_nodes D w'" using assms(2,3) by blast
  have "k = n" if "k < seq_max" "lock_child s k \<in> dir_nodes D w'" for k
    using that assms(2) queue_counter_own [OF assms(1) that(1)] lock_child_inj [OF that(1) assms(3)] by auto
  then have "n < seq_max \<and> lock_child s n \<in> dir_nodes D w' \<and>
      (\<forall>k < seq_max. lock_child s k \<in> dir_nodes D w' \<longrightarrow> k = n)" using assms(2,3) by blast
  then show ?thesis unfolding queue_counter_def if_P [OF own] .
qed

text \<open>One attempt, in a queue whose names still ascend with the own child in it.\<close>

lemma watch_attempt:
  assumes laws: "quiet_lock_laws api D (m_zh m) path sid cap" "watch_laws api D W (m_zh m) path" and ok: "dir_ok D w"
    and m: "mutex_ok m" "m_path m = Str path" and room: "dir_next D w < cap" "dir_next D w < seq_max"
    and n: "queue_counter D sid w n" and asc: "names_ascend (insert (lock_child sid n) (dir_nodes D w))"
    and call: "zkr_lock_lock api m w = Some (Ret (b, m', w'))"
  shows "n < seq_max \<and> dir_ok D w' \<and> dir_nodes D w' = insert (lock_child sid n) (dir_nodes D w) \<and>
    m_id m' = Str (lock_child sid n) \<and> mutex_ok m' \<and> same_config m m' \<and>
    wv_armed W w \<subseteq> wv_armed W w' \<and> wv_pending W w' = wv_pending W w \<and> notified D W w' m' (m_zh m) n \<and>
    queue_counter D sid w' n \<and> (lock_child sid n \<in> dir_nodes D w \<longrightarrow> dir_next D w' = dir_next D w) \<and>
    dir_next D w' \<le> Suc (dir_next D w)"
proof -
  have q: "dir_nodes D w' = insert (lock_child sid n) (dir_nodes D w)"
    "lock_child sid n \<in> dir_nodes D w \<longrightarrow> dir_next D w' = dir_next D w" "dir_next D w' \<le> Suc (dir_next D w)"
    using quiet_lock [OF laws(1) ok m room n] call by auto
  then have "sessions_ascend D w'" using asc by (simp add: sessions_ascend_names)
  note l = watch_lock [OF laws ok m room n call this]
  from l have "n < seq_max" by (rule conjunct1)
  from queue_counter_insert [OF n q(1) this] l q(2,3) show ?thesis by blast
qed

lemma watch_attempts:
  assumes laws: "quiet_lock_laws api D (m_zh m) path sid cap" "watch_laws api D W (m_zh m) path" and ok: "dir_ok D w"
    and m: "mutex_ok m" "m_path m = Str path" and room: "Suc (dir_next D w) < cap" "cap \<le> seq_max"
    and n: "queue_counter D sid w n" and asc: "names_ascend (insert (lock_child sid n) (dir_nodes D w))"
    and call: "lock_attempts (zkr_lock_lock api) k m w = Some (Ret (b, m', w'))"
  shows "m_id m' = Str (lock_child sid n) \<and> lock_child sid n \<in> dir_nodes D w' \<and>
    wv_pending W w' = wv_pending W w \<and> notified D W w' m' (m_zh m) n"
proof -
  let ?c = "lock_child sid n"
  let ?I = "\<lambda>m1 w1. mutex_ok m1 \<and> same_config m m1 \<and> dir_ok D w1 \<and> queue_counter D sid w1 n \<and>
      wv_pending W w1 = wv_pending W w \<and> insert ?c (dir_nodes D w1) = insert ?c (dir_nodes D w) \<and>
      dir_next D w1 \<le> Suc (dir_next D w) \<and> (?c \<in> dir_nodes D w1 \<or> dir_next D w1 = dir_next D w)"
  let ?Q = "\<lambda>(b :: bool) m1 w1. m_id m1 = Str ?c \<and> ?c \<in> dir_nodes D w1 \<and> notified D W w1 m1 (m_zh m) n"
  have "?I m' w' \<and> ?Q b m' w'"
  proof (rule lock_attempts_rule [where I = ?I and Q = ?Q, OF call])
    show "?I m w" using ok m n by simp
    fix m1 w1 b1 m2 w2
    assume I: "?I m1 w1" and a: "zkr_lock_lock api m1 w1 = Some (Ret (b1, m2, w2))"
    have m1: "m_zh m1 = m_zh m" "m_path m1 = Str path" using I m(2) by (simp_all add: same_config_def)
    have next1: "dir_next D w1 < cap" "dir_next D w1 < seq_max" using I room by linarith+
    have "names_ascend (insert ?c (dir_nodes D w1))" using I asc by simp
    from watch_attempt [of api D m1 path sid cap W w1 n b1 m2 w2] laws I m1 next1 this a
    have l: "dir_ok D w2" "dir_nodes D w2 = insert ?c (dir_nodes D w1)" "m_id m2 = Str ?c" "mutex_ok m2" "same_config m1 m2"
      "wv_pending W w2 = wv_pending W w1" "notified D W w2 m2 (m_zh m) n" "queue_counter D sid w2 n"
      "?c \<in> dir_nodes D w1 \<longrightarrow> dir_next D w2 = dir_next D w1" "dir_next D w2 \<le> Suc (dir_next D w1)" by simp_all
    have "same_config m m2" using I l(5) same_config_trans by blast
    moreover have "dir_next D w2 \<le> Suc (dir_next D w)" using I l(9,10) by (cases "?c \<in> dir_nodes D w1") simp_all
    ultimately show "?I m2 w2 \<and> ?Q b1 m2 w2" using I l(1-4,6-8) by simp
  qed
  then show ?thesis by simp
qed

text \<open>
  The setting of one locking read: the server answers the session's handle, the names in the queue ascend,
  and the read gives counter \<open>n\<close> to its child or finds it there.
\<close>

definition lock_setting ::
  "php_env \<Rightarrow> 'w zk_api \<Rightarrow> 'w lock_dir \<Rightarrow> 'w watch_view \<Rightarrow> 64 word \<Rightarrow> nat \<Rightarrow> nat \<Rightarrow> zhandle \<Rightarrow> string \<Rightarrow> 'w \<Rightarrow> bool" where
  "lock_setting env api D W sid cap n zh key w \<longleftrightarrow> quiet_lock_laws api D zh (lock_path_of env key) sid cap \<and>
     watch_laws api D W zh (lock_path_of env key) \<and> dir_ok D w \<and> Suc (dir_next D w) < cap \<and> cap \<le> seq_max \<and>
     queue_counter D sid w n \<and> names_ascend (insert (lock_child sid n) (dir_nodes D w))"

lemma sess_lock_watch:
  assumes set: "lock_setting env api D W sid cap n (s_zk s) key w"
    and call: "php_zookeeper_sess_lock env api s key w = Some (Ret (b, s', w'))"
  shows "m_id (s_lock s') = Str (lock_child sid n) \<and> lock_child sid n \<in> dir_nodes D w' \<and>
    wv_pending W w' = wv_pending W w \<and> notified D W w' (s_lock s') (s_zk s) n \<and>
    m_path (s_lock s') = Str (lock_path_of env key) \<and> m_zh (s_lock s') = s_zk s"
  using call
proof (cases rule: sess_lock_attempts)
  case (1 k m')
  let ?m = "snd (zkr_lock_init (s_lock s) (s_zk s) (Str (lock_path_of env key)) (Some ZOO_OPEN_ACL_UNSAFE))"
  have m: "m_zh ?m = s_zk s" "m_path ?m = Str (lock_path_of env key)" by (simp_all add: zkr_lock_init_def)
  note s = set [unfolded lock_setting_def]
  from watch_attempts [of api D ?m "lock_path_of env key" sid cap W w n k b m' w'] s m mutex_ok_init 1(1)
  have l: "m_id m' = Str (lock_child sid n)" "lock_child sid n \<in> dir_nodes D w'" "wv_pending W w' = wv_pending W w"
    "notified D W w' m' (s_zk s) n" by simp_all
  have "same_config ?m m'"
    using lock_attempts_rule [OF 1(1), of "\<lambda>m1 w. mutex_ok m1 \<and> same_config ?m m1" "\<lambda>_ _ _. True"] mutex_ok_init lock_ok
      same_config_trans by fastforce
  with l m 1(2) show ?thesis by (cases b) (simp_all add: same_config_def)
qed

section \<open>What is left for the event\<close>

text \<open>
  The end of a request as the engine's memory manager documents it: what the request's allocator gave is
  released, persistent memory stays, and no library call is made. Of a session, that is the path of its
  lock, which \<open>spprintf\<close> allocated.
\<close>

definition releases_request_memory :: "('w php_state \<Rightarrow> 'w php_state) \<Rightarrow> bool" where
  "releases_request_memory finish \<longleftrightarrow> (\<forall>st. ps_world (finish st) = ps_world st \<and>
     (\<forall>p s path. ps_heap st p = Some s \<longrightarrow> m_path (s_lock s) = Str path \<longrightarrow>
        ps_heap (finish st) p = Some (s\<lparr>s_lock := (s_lock s)\<lparr>m_path := Freed\<rparr>\<rparr>)))"

lemma watcher_on_released:
  assumes "m_pmutex m = PUnlocked" shows "lock_watcher_fn api (m\<lparr>m_path := Freed\<rparr>) w = Some (Fault UseAfterFree)"
  using assms by (simp add: lock_watcher_fn_def zkr_lock_lock_def pthread_mutex_lock_def)

lemma watcher_on_destroyed: "m_pmutex m = PUninit \<Longrightarrow> lock_watcher_fn api m w = Some (Fault BadMutex)"
  by (simp add: lock_watcher_fn_def zkr_lock_lock_def pthread_mutex_lock_def)

text \<open>Closing a session that holds its lock leaves the destroyed struct and the pending events behind.\<close>

lemma close_locked:
  assumes st: "ps_mod_data st = Some p" "ps_heap st p = Some s" "s_is_locked s"
    and m: "mutex_ok (s_lock s)" "m_path (s_lock s) = Str path" "m_id (s_lock s) = Str c" "m_zh (s_lock s) = s_zk s"
    and laws: "quiet_lock_laws api D (s_zk s) path sid cap" "watch_laws api D W (s_zk s) path" and c: "c \<in> dir_nodes D (ps_world st)"
  shows "\<exists>st' s'. ps_close_zookeeper api st = Some (Ret (True, st')) \<and> ps_heap st' p = Some s' \<and>
    m_pmutex (s_lock s') = PUninit \<and> wv_pending W (ps_world st) \<subseteq> wv_pending W (ps_world st')"
proof -
  from zkr.release_total [OF m(1), of api "ps_world st"] obtain r m1 w1 m2 m3 where
    rel: "zkr_lock_unlock api (s_lock s) (ps_world st) = Ret (r, m1, w1)" "free_lock_path m1 = Ret m2"
      "zkr_lock_destroy m2 = Ret (0, m3)" by blast
  then have "m_pmutex m3 = PUninit"
    by (auto simp: zkr_lock_destroy_def obind_eq_Ret pthread_mutex_destroy_def split: if_splits)
  moreover have "wv_pending W (ps_world st) \<subseteq> wv_pending W w1"
    using watch_unlock [of api D "s_lock s" path sid cap W c "ps_world st" r m1 w1] laws m c rel(1) by simp
  ultimately show ?thesis
    using rel st by (auto simp: ps_close_zookeeper_def with_session_def put_session_def free_lock_path_def obind_eq_Ret)
qed

text \<open>
  C28: the watch of a session lock outlives what it points to. The server answers, the names in the queue ascend, and
  nobody else acts during the attempts. If the request was refused the lock and no event was on its way, a watch of it is
  armed on another child. An event that comes while the request runs takes the lock again, possibly with success, and
  closing the session does not give it up; after the close and the end of the request the watch is still
  armed, and its event reads the released path of the lock. If the request was granted the lock while an event was
  already on its way, the event is still to come after the close and then locks a destroyed mutex.
\<close>

theorem late_watch_uses_dead_lock:
  assumes st: "ps_mod_data st = Some p" "ps_heap st p = Some s" "\<not> s_is_locked s"
    and set: "lock_setting env api D W sid cap n (s_zk s) key (ps_world st)"
    and engine: "releases_request_memory finish"
    and lock: "php_zookeeper_sess_lock env api s key (ps_world st) = Some (Ret (b, s', w1))"
  defines "st1 \<equiv> put_session st p s' w1"
  shows "(\<not> b \<and> s_zk s \<notin> wv_pending W (ps_world st) \<longrightarrow>
      (\<forall>w c m' w'. lock_watcher_fn api (s_lock s') w = Some (Ret (c, m', w')) \<longrightarrow>
        (let st' = put_session st p (s'\<lparr>s_lock := m'\<rparr>) w' in zkr_lock_isowner m' = Ret c \<and>
          ps_close_zookeeper api st' = Some (Ret (True, st'\<lparr>ps_mod_data := None\<rparr>)))) \<and>
      (\<exists>st2 s2 t k. ps_close_zookeeper api st1 = Some (Ret (True, st2)) \<and>
        direct_pred D (ps_world (finish st2)) n t k \<and> (s_zk s, lock_child t k) \<in> wv_armed W (ps_world (finish st2)) \<and>
        ps_heap (finish st2) p = Some s2 \<and> (\<forall>w. lock_watcher_fn api (s_lock s2) w = Some (Fault UseAfterFree)))) \<and>
    (b \<and> s_zk s \<in> wv_pending W (ps_world st) \<longrightarrow>
      (\<exists>st2 s2. ps_close_zookeeper api st1 = Some (Ret (True, st2)) \<and> s_zk s \<in> wv_pending W (ps_world st2) \<and>
        ps_heap st2 p = Some s2 \<and> (\<forall>w. lock_watcher_fn api (s_lock s2) w = Some (Fault BadMutex))))"
proof -
  note r = sess_lock_Ret [OF lock] and l = sess_lock_watch [OF set lock]
  have free: "m_pmutex (s_lock s') = PUnlocked" using r by (simp add: mutex_ok_def)
  have st1: "ps_mod_data st1 = Some p" "ps_heap st1 p = Some s'" "ps_world st1 = w1"
    using st(1) by (simp_all add: st1_def put_session_def)
  have event: "zkr_lock_isowner m' = Ret c" if "lock_watcher_fn api (s_lock s') w = Some (Ret (c, m', w'))" for w c m' w'
    using zkr.lock_sound [OF conjunct1 [OF r] that [unfolded lock_watcher_fn_def]] by (rule conjunct2)
  have close: "ps_close_zookeeper api st' = Some (Ret (True, st'\<lparr>ps_mod_data := None\<rparr>))"
    if "\<not> b" "st' = put_session st p (s'\<lparr>s_lock := m'\<rparr>) w'" for st' m' w'
    using that r st by (simp add: ps_close_zookeeper_def with_session_def put_session_def)
  have refused: "\<exists>st2 s2 t k. ps_close_zookeeper api st1 = Some (Ret (True, st2)) \<and>
        direct_pred D (ps_world (finish st2)) n t k \<and> (s_zk s, lock_child t k) \<in> wv_armed W (ps_world (finish st2)) \<and>
        ps_heap (finish st2) p = Some s2 \<and> (\<forall>w. lock_watcher_fn api (s_lock s2) w = Some (Fault UseAfterFree))"
    if b: "\<not> b" "s_zk s \<notin> wv_pending W (ps_world st)"
  proof -
    from l r b obtain t k where watch: "direct_pred D w1 n t k" "(s_zk s, lock_child t k) \<in> wv_armed W w1"
      by (auto simp: notified_def)
    let ?st2 = "st1\<lparr>ps_mod_data := None\<rparr>"
    have "ps_heap ?st2 p = Some s'" using st1(2) by simp
    with engine l have "ps_heap (finish ?st2) p = Some (s'\<lparr>s_lock := (s_lock s')\<lparr>m_path := Freed\<rparr>\<rparr>)"
      "ps_world (finish ?st2) = w1" using st1(3) unfolding releases_request_memory_def by simp_all
    moreover have "ps_close_zookeeper api st1 = Some (Ret (True, ?st2))"
      using close [OF b(1), of st1 "s_lock s'" w1] by (simp add: st1_def)
    ultimately show ?thesis using watch watcher_on_released [OF free, of api] by fastforce
  qed
  have granted: "\<exists>st2 s2. ps_close_zookeeper api st1 = Some (Ret (True, st2)) \<and> s_zk s \<in> wv_pending W (ps_world st2) \<and>
        ps_heap st2 p = Some s2 \<and> (\<forall>w. lock_watcher_fn api (s_lock s2) w = Some (Fault BadMutex))"
    if b: b "s_zk s \<in> wv_pending W (ps_world st)"
  proof -
    have "s_is_locked s'" "s_zk s' = s_zk s" using r b(1) by simp_all
    from close_locked [OF st1(1,2) this(1), of "lock_path_of env key" "lock_child sid n" api D sid cap W] this(2) r l set
    obtain st2 s2 where c: "ps_close_zookeeper api st1 = Some (Ret (True, st2))" "ps_heap st2 p = Some s2"
      "m_pmutex (s_lock s2) = PUninit" "wv_pending W w1 \<subseteq> wv_pending W (ps_world st2)"
      unfolding lock_setting_def st1(3) by auto
    with l b(2) watcher_on_destroyed [OF c(3), of api] show ?thesis by blast
  qed
  show ?thesis using event close refused granted by (auto simp: Let_def)
qed

section \<open>Two requests\<close>

definition watch_lock_state :: "watch_world \<Rightarrow> watch_world php_state" where
  "watch_lock_state w = \<lparr>ps_world = w, ps_heap = [0 \<mapsto> lock_session 2], ps_fresh = 1, ps_plist = (\<lambda>_. None),
     ps_mod_data = Some 0\<rparr>"

definition finish_request :: "watch_world php_state \<Rightarrow> watch_world php_state" where
  "finish_request st = st\<lparr>ps_heap := (\<lambda>p. map_option (\<lambda>s. case m_path (s_lock s) of
     Str _ \<Rightarrow> s\<lparr>s_lock := (s_lock s)\<lparr>m_path := Freed\<rparr>\<rparr> | _ \<Rightarrow> s) (ps_heap st p))\<rparr>"

lemma watched_request_waits:
  "php_zookeeper_sess_lock lock_env (watch_api_at abc_lock) (lock_session 2) ''abc'' (([lock_child 1 0], 1), [], []) =
     Some (Ret (False, (lock_session 2)\<lparr>s_lock := taken_lock 2 1 (lock_child 1 0) 0\<rparr>,
       (two_children, [(2, lock_child 1 0)], [])))"
  by code_simp

lemma watched_setting:
  "lock_setting lock_env (watch_api_at abc_lock) watch_dir watch_list_view 2 9 1 2 ''abc'' (([lock_child 1 0], 1), [], [])"
proof -
  let ?w = "(([lock_child 1 0], 1), [], []) :: watch_world"
  have one: "(1 :: nat) < seq_max" "(0 :: nat) < seq_max" by simp_all
  have "\<not> (\<exists>k < seq_max. lock_child 2 k \<in> dir_nodes watch_dir ?w)"
    using other_session_child [of 2 1] by (simp add: watch_dir_def)
  then have "queue_counter watch_dir 2 ?w 1" by (simp add: queue_counter_def watch_dir_def)
  moreover have "names_ascend (insert (lock_child 2 1) (dir_nodes watch_dir ?w))"
    using lock_child_inj [OF _ one(1)] lock_child_inj [OF _ one(2)] by (auto simp: names_ascend_def watch_dir_def)
  moreover have "dir_ok watch_dir ?w"
    using dir_step_ok [OF dir_step_first] by (simp add: dir_ok_def dir_view_def watch_dir_def)
  ultimately show ?thesis
    using watch_at_laws [of abc_lock 2] by (simp add: lock_setting_def lock_path_abc watch_dir_def)
qed

theorem late_watch_uses_dead_lock_witness:
  "\<exists>st2 s2 c. ps_close_zookeeper (watch_api_at abc_lock)
     (put_session (watch_lock_state (([lock_child 1 0], 1), [], [])) 0
       ((lock_session 2)\<lparr>s_lock := taken_lock 2 1 (lock_child 1 0) 0\<rparr>) (two_children, [(2, lock_child 1 0)], [])) =
     Some (Ret (True, st2)) \<and> (2, c) \<in> wv_armed watch_list_view (ps_world (finish_request st2)) \<and>
   ps_heap (finish_request st2) 0 = Some s2 \<and>
   (\<forall>w. lock_watcher_fn (watch_api_at abc_lock) (s_lock s2) w = Some (Fault UseAfterFree))"
proof -
  let ?w = "(([lock_child 1 0], 1), [], []) :: watch_world"
  have st: "ps_mod_data (watch_lock_state ?w) = Some 0" "ps_heap (watch_lock_state ?w) 0 = Some (lock_session 2)"
    "\<not> s_is_locked (lock_session 2)" "ps_world (watch_lock_state ?w) = ?w" "s_zk (lock_session 2) = 2"
    by (simp_all add: watch_lock_state_def lock_session_def zeroed_session_def)
  have engine: "releases_request_memory finish_request"
    by (simp add: releases_request_memory_def finish_request_def)
  have pend: "s_zk (lock_session 2) \<notin> wv_pending watch_list_view (ps_world (watch_lock_state ?w))"
    unfolding st(4) by (simp add: watch_list_view_def)
  have set: "lock_setting lock_env (watch_api_at abc_lock) watch_dir watch_list_view 2 9 1 (s_zk (lock_session 2)) ''abc''
      (ps_world (watch_lock_state ?w))" unfolding st(4,5) by (rule watched_setting)
  have lock: "php_zookeeper_sess_lock lock_env (watch_api_at abc_lock) (lock_session 2) ''abc'' (ps_world (watch_lock_state ?w)) =
      Some (Ret (False, (lock_session 2)\<lparr>s_lock := taken_lock 2 1 (lock_child 1 0) 0\<rparr>,
        (two_children, [(2, lock_child 1 0)], [])))" unfolding st(4) by (rule watched_request_waits)
  from late_watch_uses_dead_lock [OF st(1-3) set engine lock, THEN conjunct1, THEN mp, OF conjI [OF notI pend], THEN conjunct2]
  show ?thesis unfolding st(5) by blast
qed

end
