(* ===== verification/Lock_Frame.thy ===== *)
theory Lock_Frame
  imports Lock_Exclusion
begin

text \<open>
  What the lock leaves alone. A relation between states of the library and the server that every
  single call of lock and unlock stays within holds between the states before and after the whole
  function, whatever the calls answer and however often the operation goes round its loop.
\<close>

definition lock_calls_within ::
  "'w zk_api \<Rightarrow> zhandle \<Rightarrow> string \<Rightarrow> ('w \<Rightarrow> 'w \<Rightarrow> bool) \<Rightarrow> bool" where
  "lock_calls_within api zh path R \<longleftrightarrow> reflp R \<and> transp R \<and>
     (\<forall>w. R w (snd (zoo_exists api zh path False w))) \<and>
     (\<forall>w acl. R w (snd (zoo_create api zh path None 0 acl 0 0 w))) \<and>
     (\<forall>w. R w (snd (zoo_get_children api zh path False w))) \<and>
     (\<forall>w buf acl sz. R w (snd (zoo_create api zh buf None 0 acl (or ZOO_EPHEMERAL ZOO_SEQUENCE) sz w))) \<and>
     (\<forall>w c. R w (snd (zoo_wexists api zh (child_path path c) (Some LockWatcher) w))) \<and>
     (\<forall>w c. R w (snd (zoo_delete api zh (child_path path c) (-1) w))) \<and>
     (\<forall>w f rc cb. R w (run_completion api f rc cb w))"

lemma within_refl: "lock_calls_within api zh path R \<Longrightarrow> R w w"
  by (auto simp: lock_calls_within_def dest: reflpD)

lemma within_trans: "lock_calls_within api zh path R \<Longrightarrow> R a b \<Longrightarrow> R b c \<Longrightarrow> R a c"
  by (auto simp: lock_calls_within_def dest: transpD)

lemma within_calls:
  assumes "lock_calls_within api zh path R"
  shows "R w (snd (zoo_exists api zh path False w))" "R w (snd (zoo_create api zh path None 0 acl 0 0 w))"
    "R w (snd (zoo_get_children api zh path False w))"
    "R w (snd (zoo_create api zh buf None 0 acl (or ZOO_EPHEMERAL ZOO_SEQUENCE) sz w))"
    "R w (snd (zoo_wexists api zh (child_path path c) (Some LockWatcher) w))"
    "R w (snd (zoo_delete api zh (child_path path c) (-1) w))" "R w (run_completion api f rc cb w)"
  using assms by (simp_all add: lock_calls_within_def)

text \<open>A retried call stays within what its single call stays within.\<close>

lemma within_retry:
  assumes laws: "lock_calls_within api zh path R" and step: "\<And>v. R v (snd (op v))"
    and call: "retry_upto op n (ZCONNECTIONLOSS, d) w = (r, w')"
  shows "R w w'"
proof -
  have "R w w' \<and> (fst r \<noteq> ZCONNECTIONLOSS \<longrightarrow> True)"
  proof (rule retry_upto_invariant [where I = "R w", OF _ within_refl [OF laws] call])
    fix v r v' assume "R w v" "op v = (r, v')"
    then show "R w v' \<and> (fst r \<noteq> ZCONNECTIONLOSS \<longrightarrow> True)"
      using step [of v] within_trans [OF laws, of w v v'] by simp
  qed
  then show ?thesis by simp
qed

lemma within_completion: "lock_calls_within api zh path R \<Longrightarrow> R w (call_completion api m rc w)"
  by (auto simp: call_completion_def within_refl within_calls(7) split: option.split)

lemma within_list:
  assumes "lock_calls_within api zh path R" "retry_getchildren api zh path n w = (r, w')"
  shows "R w w'"
  by (rule within_retry [OF assms(1) within_calls(3) [OF assms(1)] assms(2) [unfolded retry_getchildren_def]])

lemma within_ensure_path:
  assumes laws: "lock_calls_within api zh path R"
  shows "R w (snd (ensure_path api zh path acl n ex w))"
proof (induction n arbitrary: ex w)
  case 0
  then show ?case by (simp add: within_refl [OF laws])
next
  case (Suc n)
  note e = within_calls(1) [OF laws, of w] and c = within_calls(2) [OF laws, of w acl]
  show ?case
    using within_trans [OF laws e Suc.IH] within_trans [OF laws c Suc.IH]
    by (simp add: split_beta within_refl [OF laws])
qed

lemma within_find_or_create:
  assumes laws: "lock_calls_within api (m_zh m) path R" and call: "lock_find_or_create api m path w = (res, m1, w1)"
  shows "R w w1"
  using call
proof (cases rule: find_or_create_cases)
  case (created kids w2 len ret retbuf)
  have "R w w2" by (rule within_list [OF laws created(1)])
  moreover from created(4) have "R w2 w1" using within_calls(4) [OF laws, of w2] by (metis snd_conv)
  ultimately show ?thesis by (rule within_trans [OF laws])
qed (auto dest: within_list [OF laws])

lemma within_decide:
  assumes laws: "lock_calls_within api (m_zh m) path R" and held: "m_pmutex m = PLocked"
    and call: "lock_decide api m path ident w = Some (Ret (r, m', w'))"
  shows "R w w'"
  using call held
proof (cases rule: decide_cases)
  case (waits kids w1 owner rest pred stat)
  have "R w1 w'"
    by (rule within_retry [OF laws within_calls(5) [OF laws] waits(4) [unfolded retry_zoowexists_def]])
  with within_list [OF laws waits(1)] show ?thesis by (rule within_trans [OF laws])
next
  case (owns kids w1 owner rest)
  have "R w1 w'" unfolding owns(5) by (rule within_completion [OF laws])
  with within_list [OF laws owns(1)] show ?thesis by (rule within_trans [OF laws])
qed (auto dest: within_list [OF laws])

lemma within_operation:
  assumes laws: "lock_calls_within api (m_zh m) path R" and m: "mutex_held m" "m_path m = Str path"
    and call: "zkr_lock_operation api m w = Some (Ret (r, m', w'))"
  shows "R w w'"
proof -
  let ?I = "\<lambda>m1 v. mutex_held m1 \<and> m_zh m1 = m_zh m \<and> R w v"
  have step: "?I m2 v2" if "?I m1 v1" "lock_find_or_create api m1 path v1 = (res, m2, v2)" for m1 v1 res m2 v2
    using that find_or_create_frame [OF that(2)] within_find_or_create [OF _ that(2), of R] laws
      within_trans [OF laws, of w v1 v2] by (simp add: same_config_def)
  have "R w w'"
  proof (rule operation_rule [where I = ?I and J = ?I and Q = "\<lambda>_ _ v. R w v", OF call _ m(2)])
    fix m1 v1 i r m2 v2 assume "?I m1 v1" "lock_decide api m1 path i v1 = Some (Ret (r, m2, v2))"
    then show "R w v2" using within_decide [of api m1 path R i v1 r m2 v2] laws within_trans [OF laws, of w v1 v2]
      by (simp add: mutex_held_def)
  qed (use m within_refl [OF laws] step in blast)+
  then show ?thesis .
qed

lemma lock_within:
  assumes laws: "lock_calls_within api (m_zh m) path R" and m: "mutex_ok m" "m_path m = Str path"
    and call: "zkr_lock_lock api m w = Some (Ret (b, m', w'))"
  shows "R w w'"
  using call
proof (cases rule: lock_phases)
  case (1 p ex st w1 ex' w2 r m1)
  have p: "p = path" using 1(2) m(2) by simp
  have "R w w1" "R w1 w2"
    using within_calls(1) [OF laws, of w] within_ensure_path [OF laws, of w1 "m_acl m" 4 ex] 1(3,4) p by simp_all
  then have w2: "R w w2" by (rule within_trans [OF laws])
  let ?I = "\<lambda>m1 v. mutex_held m1 \<and> m_zh m1 = m_zh m \<and> m_path m1 = Str path \<and> R w v"
  have "?I m1 w'"
  proof (rule op_loop_rule [OF 1(5), where I = ?I])
    show "?I (m\<lparr>m_pmutex := PLocked\<rparr>) w2" using m w2 by (simp add: mutex_defs)
    fix m1 v1 r m2 v2 assume I: "?I m1 v1" and op: "zkr_lock_operation api m1 v1 = Some (Ret (r, m2, v2))"
    with within_operation [of api m1 path R v1 r m2 v2] laws have "R v1 v2" by simp
    with I operation_frame [OF op] within_trans [OF laws, of w v1 v2] show "?I m2 v2" by (simp add: same_config_def)
  qed
  then show ?thesis by simp
qed

lemma unlock_within:
  assumes laws: "lock_calls_within api (m_zh m) path R" and m: "mutex_ok m" "m_path m = Str path"
    and call: "zkr_lock_unlock api m w = Ret (r, m', w')"
  shows "R w w'"
proof (cases "m_id m")
  case Null
  then show ?thesis using call m within_refl [OF laws] by (simp add: unlock_eq mutex_defs)
next
  case (Str i)
  obtain d w1 where d: "delete_result api m path i w = (d, w1)" by fastforce
  have "R v (snd (status_op (zoo_delete api (m_zh m) (child_path path i) (-1)) v))" for v
    using within_calls(6) [OF laws] by (simp add: status_op_eq)
  from within_retry [OF laws this] d have "R w w1" by (auto simp: delete_result_def split: prod.splits)
  moreover have "w' = w1 \<or> w' = call_completion api m 1 w1"
    using call m d Str by (auto simp: unlock_eq mutex_defs split: if_splits)
  ultimately show ?thesis using within_trans [OF laws] within_completion [OF laws] by blast
next
  case Freed
  then show ?thesis using call m by (simp add: unlock_eq mutex_defs)
qed

end
