(* ===== verification/Session_Turns.thy ===== *)
theory Session_Turns
  imports Session_Lock Lock_Frame
begin

text \<open>
  Whole requests on one session, one after another: each reads with the lock, writes and closes. Lock,
  store and handlers are put together: the lock's calls leave the session's node alone
  (\<open>lock_calls_within\<close>), the calls on the node leave the lock's directory alone, and both answer.
\<close>

definition keeps_node :: "'w store_view \<Rightarrow> string \<Rightarrow> 'w \<Rightarrow> 'w \<Rightarrow> bool" where
  "keeps_node V p w w' \<longleftrightarrow> sv_node V w' p = sv_node V w p \<and> sv_clock V w \<le> sv_clock V w'"

text \<open>The calls on the node of path \<open>p\<close> are answered and do not touch the directory of the lock.\<close>

definition prompt_store :: "'w zk_api \<Rightarrow> zhandle \<Rightarrow> 'w store_view \<Rightarrow> 'w lock_dir \<Rightarrow> string \<Rightarrow> bool" where
  "prompt_store api zh V D p \<longleftrightarrow>
     (\<forall>w b. fst (fst (zoo_exists api zh p b w)) \<in> {ZOK, ZNONODE} \<and> same_dir D w (snd (zoo_exists api zh p b w))) \<and>
     (\<forall>w b l. (sv_node V w p \<noteq> None \<longrightarrow> fst (fst (zoo_get api zh p b l w)) = ZOK) \<and>
        same_dir D w (snd (zoo_get api zh p b l w))) \<and>
     (\<forall>w v acl. (sv_node V w p = None \<longrightarrow> fst (fst (zoo_create api zh p (Some v) (int (length v)) acl 0 0 w)) = ZOK) \<and>
        same_dir D w (snd (zoo_create api zh p (Some v) (int (length v)) acl 0 0 w))) \<and>
     (\<forall>w v. (sv_node V w p \<noteq> None \<longrightarrow> fst (zoo_set api zh p (Some v) (int (length v)) (-1) w) = ZOK) \<and>
        same_dir D w (snd (zoo_set api zh p (Some v) (int (length v)) (-1) w)))"

lemma prompt_storeD:
  assumes "prompt_store api zh V D p"
  shows "fst (fst (zoo_exists api zh p b w)) \<in> {ZOK, ZNONODE}" "same_dir D w (snd (zoo_exists api zh p b w))"
    "sv_node V w p \<noteq> None \<Longrightarrow> fst (fst (zoo_get api zh p b l w)) = ZOK" "same_dir D w (snd (zoo_get api zh p b l w))"
    "sv_node V w p = None \<Longrightarrow> fst (fst (zoo_create api zh p (Some v) (int (length v)) acl 0 0 w)) = ZOK"
    "same_dir D w (snd (zoo_create api zh p (Some v) (int (length v)) acl 0 0 w))"
    "sv_node V w p \<noteq> None \<Longrightarrow> fst (zoo_set api zh p (Some v) (int (length v)) (-1) w) = ZOK"
    "same_dir D w (snd (zoo_set api zh p (Some v) (int (length v)) (-1) w))"
  using assms unfolding prompt_store_def by blast+

text \<open>What a read of an unexpired node gives; and a node that is not expired, nor would be if it were written now.\<close>

definition stored :: "'w store_view \<Rightarrow> 'w \<Rightarrow> string \<Rightarrow> read_result" where
  "stored V w p = (case sv_node V w p of None \<Rightarrow> (False, None, 0) | Some (v, t) \<Rightarrow> (True, Some v, int (length v)))"

definition young :: "'w store_view \<Rightarrow> php_env \<Rightarrow> string \<Rightarrow> 'w \<Rightarrow> bool" where
  "young V env p w \<longleftrightarrow> \<not> expired env (sv_clock V w) \<and> (\<forall>v t. sv_node V w p = Some (v, t) \<longrightarrow> \<not> expired env t)"

section \<open>The handlers with prompt answers\<close>

lemma exists_prompt:
  assumes laws: "store_laws api zh V" "prompt_store api zh V D p"
  obtains s st w' where "retried (zoo_exists api zh p b) w = Some (Ret (s, st, w'))" "reads_only V w w'" "same_dir D w w'"
    "s = ZOK \<and> (\<exists>v t. sv_node V w p = Some (v, t) \<and> stat_mtime st = t \<and> stat_dataLength st = int (length v)) \<or>
     s = ZNONODE \<and> sv_node V w p = None"
proof -
  obtain s st w' where e: "zoo_exists api zh p b w = ((s, st), w')" by (metis prod.collapse)
  have s: "s = ZOK \<or> s = ZNONODE" "same_dir D w w'" using prompt_storeD(1,2) [OF laws(2), where b = b and w = w] e by simp_all
  have "retried (zoo_exists api zh p b) w = Some (Ret (s, st, w'))" using s(1) e by (intro retried_answer) auto
  with that s exists_law [OF laws(1) e] show thesis by blast
qed

lemma read_prompt:
  assumes laws: "store_laws api (s_zk s) V" "prompt_store api (s_zk s) V D (s_path s)"
    and young: "young V env (s_path s) w" and fits: "expiry_fits env"
  shows "\<exists>w'. read_node env api s w = Some (Ret (stored V w (s_path s), w')) \<and> reads_only V w w' \<and> same_dir D w w'"
proof -
  let ?p = "s_path s"
  obtain e st w1 where ex: "retried (zoo_exists api (s_zk s) ?p True) w = Some (Ret (e, st, w1))"
    "reads_only V w w1" "same_dir D w w1"
    "e = ZOK \<and> (\<exists>v t. sv_node V w ?p = Some (v, t) \<and> stat_mtime st = t \<and> stat_dataLength st = int (length v)) \<or>
     e = ZNONODE \<and> sv_node V w ?p = None" by (rule exists_prompt [OF laws])
  from ex(4) show ?thesis
  proof (elim disjE conjE exE)
    assume "e = ZNONODE" "sv_node V w ?p = None"
    with ex(1-3) show ?thesis by (simp add: read_node_def stored_def)
  next
    fix v t assume v: "e = ZOK" "sv_node V w ?p = Some (v, t)" "stat_mtime st = t" "stat_dataLength st = int (length v)"
    have v1: "sv_node V w1 ?p = Some (v, t)" using v(2) ex(2) by (simp add: reads_only_def)
    obtain g buf n st2 w2 where g: "zoo_get api (s_zk s) ?p False (stat_dataLength st) w1 = ((g, buf, n, st2), w2)"
      by (metis prod.collapse)
    have gz: "g = ZOK" "same_dir D w1 w2"
      using prompt_storeD(3,4) [OF laws(2), where w = w1 and b = False and l = "stat_dataLength st"] v1 g by simp_all
    with get_law [OF laws(1) g] v1 v(4) have "buf = v" "n = int (length v)" "reads_only V w1 w2" by auto
    moreover have "retried (zoo_get api (s_zk s) ?p False (stat_dataLength st)) w1 = Some (Ret (g, (buf, n, st2), w2))"
      using g gz(1) by (intro retried_answer) auto
    moreover obtain x where "expiration_time_of env = Ret x" "\<not> t < x"
      using fits young v(2) by (elim expiration_time_fits) (auto simp: young_def)
    ultimately show ?thesis
      using ex(1-3) v gz by (auto simp: read_node_def stored_def intro: reads_only_trans same_dir_trans)
  qed
qed

lemma write_prompt:
  assumes st: "ps_mod_data st = Some q" "ps_heap st q = Some s"
    and laws: "store_laws api (s_zk s) V" "prompt_store api (s_zk s) V D (s_path s)"
  shows "\<exists>w'. ps_write_zookeeper api key val st = Some (Ret (True, st\<lparr>ps_world := w'\<rparr>)) \<and>
    written V (s_path s) val (ps_world st) w' \<and> same_dir D (ps_world st) w'"
proof -
  let ?p = "s_path s" and ?op = "write_op api (s_zk s) (s_path s) val"
  obtain e stat w1 where ex: "retried (zoo_exists api (s_zk s) ?p True) (ps_world st) = Some (Ret (e, stat, w1))"
    "reads_only V (ps_world st) w1" "same_dir D (ps_world st) w1"
    "e = ZOK \<and> (\<exists>v t. sv_node V (ps_world st) ?p = Some (v, t) \<and> stat_mtime stat = t \<and>
       stat_dataLength stat = int (length v)) \<or> e = ZNONODE \<and> sv_node V (ps_world st) ?p = None"
    by (rule exists_prompt [OF laws])
  have there: "sv_node V w1 ?p \<noteq> None \<longleftrightarrow> e = ZOK" using ex(2,4) by (auto simp: reads_only_def)
  obtain s' s'' w2 where op: "?op (e, w1) = ((s', ()), (s'', w2))" by (metis prod.collapse old.unit.exhaust)
  have "s' = ZOK \<and> same_dir D w1 w2"
  proof (cases "e = ZOK")
    case True
    with op prompt_storeD(7,8) [OF laws(2), where w = w1 and v = val] there show ?thesis
      by (auto simp: write_op_def split_beta)
  next
    case False
    with there have "sv_node V w1 ?p = None" by blast
    with False op prompt_storeD(5,6) [OF laws(2), where w = w1 and v = val and acl = "Some ZOO_OPEN_ACL_UNSAFE"]
    show ?thesis by (auto simp: write_op_def split_beta)
  qed
  then have ok: "s' = ZOK" "same_dir D w1 w2" by simp_all
  have "written V ?p val w1 w2" using write_op_law [OF laws(1) op] ok(1) by simp
  moreover have "retried ?op (e, w1) = Some (Ret (s', (), (s'', w2)))" using ok(1) op by (intro retried_answer) auto
  ultimately show ?thesis
    using ex(1-3) ok st by (auto simp: ps_write_zookeeper_def with_session_def intro: reads_then_written same_dir_trans)
qed

text \<open>A free lock is taken at the first attempt.\<close>

lemma lock_prompt:
  assumes laws: "quiet_lock_laws api D (s_zk s) (lock_path_of env key) sid cap"
    and free: "dir_ok D w" "dir_nodes D w = {}" and room: "dir_next D w < cap" "dir_next D w < seq_max"
    and attempts: "lock_attempts_of env = Ret n"
    and frame: "lock_calls_within api (s_zk s) (lock_path_of env key) R"
  shows "\<exists>m' w' c. php_zookeeper_sess_lock env api s key w = Some (Ret (True, s\<lparr>s_lock := m', s_is_locked := True\<rparr>, w')) \<and>
    m_id m' = Str c \<and> m_zh m' = s_zk s \<and> m_path m' = Str (lock_path_of env key) \<and> mutex_ok m' \<and>
    dir_nodes D w' = {c} \<and> dir_ok D w' \<and> dir_next D w' \<le> Suc (dir_next D w) \<and> R w w'"
proof -
  let ?path = "lock_path_of env key"
  obtain m where init: "zkr_lock_init (s_lock s) (s_zk s) (Str ?path) (Some ZOO_OPEN_ACL_UNSAFE) = (0, m)"
    and m: "m_zh m = s_zk s" "m_path m = Str ?path" by (simp add: zkr_lock_init_def)
  have ok: "mutex_ok m" using mutex_ok_init [of "s_lock s" "s_zk s" ?path "Some ZOO_OPEN_ACL_UNSAFE"] init by simp
  have "queue_counter D sid w (dir_next D w)" using free(2) by (simp add: queue_counter_def)
  with quiet_lock [of api D m ?path sid cap w "dir_next D w"] laws free(1) m ok room obtain m' w' where
    l: "zkr_lock_lock api m w = Some (Ret (least_child D w (dir_next D w), m', w'))"
      "m_id m' = Str (lock_child sid (dir_next D w))" "mutex_ok m'" "same_config m m'"
      "dir_nodes D w' = {lock_child sid (dir_next D w)}" "dir_ok D w'" "dir_next D w' \<le> Suc (dir_next D w)"
    using free(2) by auto
  have "least_child D w (dir_next D w)" using free(2) by (simp add: least_child_def)
  with l(1) have lock: "zkr_lock_lock api m w = Some (Ret (True, m', w'))" by simp
  then have "lock_attempts (zkr_lock_lock api) n m w = Some (Ret (True, m', w'))"
    by (subst lock_attempts.simps) simp
  then have "php_zookeeper_sess_lock env api s key w = Some (Ret (True, s\<lparr>s_lock := m', s_is_locked := True\<rparr>, w'))"
    using init attempts by (simp add: php_zookeeper_sess_lock_def)
  moreover have "R w w'" using lock_within [of api m ?path R w True m' w'] frame m ok lock by simp
  moreover have "m_zh m' = s_zk s" "m_path m' = Str ?path" using l(4) m by (simp_all add: same_config_def)
  ultimately show ?thesis using l(2,3,5-7) by blast
qed

text \<open>Closing gives the child up and nothing else.\<close>

lemma close_prompt:
  assumes st: "ps_mod_data st = Some q" "ps_heap st q = Some s" "s_is_locked s"
    and m: "m_id (s_lock s) = Str c" "m_zh (s_lock s) = s_zk s" "m_path (s_lock s) = Str path" "mutex_ok (s_lock s)"
    and laws: "quiet_lock_laws api D (s_zk s) path sid cap" and dir: "dir_nodes D (ps_world st) = {c}" "dir_ok D (ps_world st)"
    and frame: "lock_calls_within api (s_zk s) path R"
  shows "\<exists>st'. ps_close_zookeeper api st = Some (Ret (True, st')) \<and> dir_nodes D (ps_world st') = {} \<and>
    dir_ok D (ps_world st') \<and> dir_next D (ps_world st') = dir_next D (ps_world st) \<and> R (ps_world st) (ps_world st')"
proof -
  have q: "quiet_lock_laws api D (m_zh (s_lock s)) path sid cap" "lock_calls_within api (m_zh (s_lock s)) path R"
    using laws frame m(2) by simp_all
  from quiet_unlock [OF q(1) m(4,3,1), of "ps_world st"] dir obtain m' w' where
    u: "zkr_lock_unlock api (s_lock s) (ps_world st) = Ret (0, m', w')" "dir_nodes D w' = {}"
      "dir_next D w' = dir_next D (ps_world st)" by auto
  have within: "R (ps_world st) w'" by (rule unlock_within [OF q(2) m(4,3) u(1)])
  from zkr.release_total [OF m(4), of api "ps_world st"] u(1) obtain m2 m3 where
    "free_lock_path m' = Ret m2" "zkr_lock_destroy m2 = Ret (0, m3)" by auto
  then obtain pth where "free_ptr (m_path m') = Ret pth" "zkr_lock_destroy (m'\<lparr>m_path := pth\<rparr>) = Ret (0, m3)"
    by (auto simp: free_lock_path_def obind_eq_Ret)
  moreover have "dir_ok D w'" by (rule dir_ok_remove [OF dir(2) _ u(3)]) (simp add: u(2))
  ultimately show ?thesis using st u within by (simp add: ps_close_zookeeper_def with_session_def put_session_def)
qed

section \<open>Requests in turn\<close>

text \<open>A request: the engine's values, the state of its process, and what it writes.\<close>

type_synonym 'w request = "php_env \<times> 'w php_state \<times> string"

fun serve_requests ::
  "'w zk_api \<Rightarrow> string \<Rightarrow> 'w request list \<Rightarrow> 'w \<Rightarrow> ((read_result \<times> bool) list \<times> 'w) run" where
  "serve_requests api key [] w = Some (Ret ([], w))"
| "serve_requests api key ((env, st, val) # rs) w =
     xbind (ps_read_zookeeper env api key (st\<lparr>ps_world := w\<rparr>)) (\<lambda>(r, st1).
       xbind (ps_write_zookeeper api key val st1) (\<lambda>(ok, st2).
         xbind (ps_close_zookeeper api st2) (\<lambda>(_, st3).
           xbind (serve_requests api key rs (ps_world st3)) (\<lambda>(out, w').
             Some (Ret ((r, ok) # out, w'))))))"

text \<open>The process has an open session, locks it, and its handle is served.\<close>

definition request_ready ::
  "'w zk_api \<Rightarrow> 'w lock_dir \<Rightarrow> 'w store_view \<Rightarrow> string \<Rightarrow> nat \<Rightarrow> string \<Rightarrow> 'w request \<Rightarrow> bool" where
  "request_ready api D V path cap key = (\<lambda>(env, st, val). g_session_lock env \<and> lock_path_of env key = path \<and>
     expiry_fits env \<and> (\<exists>n. lock_attempts_of env = Ret n) \<and> (\<exists>q s sid. ps_mod_data st = Some q \<and> ps_heap st q = Some s \<and>
       quiet_lock_laws api D (s_zk s) path sid cap \<and>
       lock_calls_within api (s_zk s) path (keeps_node V (session_path key)) \<and>
       store_laws api (s_zk s) V \<and> prompt_store api (s_zk s) V D (session_path key)))"

lemma keeps_node_stored: "keeps_node V p w w' \<Longrightarrow> stored V w' p = stored V w p"
  by (simp add: keeps_node_def stored_def)

lemma keeps_node_young: "keeps_node V p w w' \<Longrightarrow> young V env p w \<Longrightarrow> young V env p w'"
  by (auto simp: keeps_node_def young_def dest: expired_antimono)

lemma one_turn:
  assumes ready: "request_ready api D V path cap key (env, st, val)"
    and free: "dir_ok D w" "dir_nodes D w = {}" and room: "dir_next D w < cap" "dir_next D w < seq_max"
    and young: "young V env (session_path key) w"
  shows "\<exists>st1 st2 st3 t. ps_read_zookeeper env api key (st\<lparr>ps_world := w\<rparr>) =
      Some (Ret (stored V w (session_path key), st1)) \<and>
    ps_write_zookeeper api key val st1 = Some (Ret (True, st2)) \<and> ps_close_zookeeper api st2 = Some (Ret (True, st3)) \<and>
    dir_ok D (ps_world st3) \<and> dir_nodes D (ps_world st3) = {} \<and> dir_next D (ps_world st3) \<le> Suc (dir_next D w) \<and>
    sv_node V (ps_world st3) (session_path key) = Some (val, t) \<and> sv_clock V w \<le> t \<and>
    sv_clock V w \<le> sv_clock V (ps_world st3)"
proof -
  let ?p = "session_path key"
  from ready obtain n q s sid where env: "g_session_lock env" "lock_path_of env key = path" "lock_attempts_of env = Ret n"
      "expiry_fits env"
    and st: "ps_mod_data st = Some q" "ps_heap st q = Some s"
    and laws: "quiet_lock_laws api D (s_zk s) path sid cap" "lock_calls_within api (s_zk s) path (keeps_node V ?p)"
      "store_laws api (s_zk s) V" "prompt_store api (s_zk s) V D ?p"
    unfolding request_ready_def by blast
  from lock_prompt [of api D s env key sid cap w n "keeps_node V ?p"] laws(1,2) env(1-3) free room obtain m w1 c where
    l: "php_zookeeper_sess_lock env api s key w = Some (Ret (True, s\<lparr>s_lock := m, s_is_locked := True\<rparr>, w1))"
      "m_id m = Str c" "m_zh m = s_zk s" "m_path m = Str path" "mutex_ok m" "dir_nodes D w1 = {c}" "dir_ok D w1"
      "dir_next D w1 \<le> Suc (dir_next D w)" "keeps_node V ?p w w1" by auto
  let ?s = "s\<lparr>s_lock := m, s_is_locked := True, s_path := ?p\<rparr>"
  from read_prompt [of api ?s V D env w1] laws(3,4) keeps_node_young [OF l(9) young] env(4) obtain w2 where
    r: "read_node env api ?s w1 = Some (Ret (stored V w1 ?p, w2))" "reads_only V w1 w2" "same_dir D w1 w2" by auto
  let ?st1 = "put_session (st\<lparr>ps_world := w\<rparr>) q ?s w2"
  have read: "ps_read_zookeeper env api key (st\<lparr>ps_world := w\<rparr>) = Some (Ret (stored V w ?p, ?st1))"
    using st env(1-3) l(1) r(1) keeps_node_stored [OF l(9)]
    by (simp add: ps_read_zookeeper_def with_session_def read_lock_def)
  have st1: "ps_mod_data ?st1 = Some q" "ps_heap ?st1 q = Some ?s" "ps_world ?st1 = w2"
    using st by (simp_all add: put_session_def)
  from write_prompt [OF st1(1,2), of api V D key val] laws(3,4) st1(3) obtain w3 where
    wr: "ps_write_zookeeper api key val ?st1 = Some (Ret (True, ?st1\<lparr>ps_world := w3\<rparr>))" "written V ?p val w2 w3"
      "same_dir D w2 w3" by auto
  let ?st2 = "?st1\<lparr>ps_world := w3\<rparr>"
  have st2: "ps_mod_data ?st2 = Some q" "ps_heap ?st2 q = Some ?s" "s_is_locked ?s" "m_id (s_lock ?s) = Str c"
    "m_zh (s_lock ?s) = s_zk ?s" "m_path (s_lock ?s) = Str path" "mutex_ok (s_lock ?s)"
    using st1 l by simp_all
  have sd: "same_dir D w1 w3" using r(3) wr(3) by (rule same_dir_trans)
  have dir: "dir_nodes D (ps_world ?st2) = {c}" "dir_ok D (ps_world ?st2)" "dir_next D w3 = dir_next D w1"
    using sd l(6,7) by (simp_all add: same_dir_ok) (simp_all add: same_dir_def)
  from close_prompt [OF st2, of api D sid cap "keeps_node V ?p"] laws(1,2) dir(1,2) obtain st3 where
    cl: "ps_close_zookeeper api ?st2 = Some (Ret (True, st3))" "dir_nodes D (ps_world st3) = {}" "dir_ok D (ps_world st3)"
      "dir_next D (ps_world st3) = dir_next D w3" "keeps_node V ?p w3 (ps_world st3)" by auto
  from wr(2) obtain t where t: "sv_clock V w2 \<le> t" "sv_clock V w2 \<le> sv_clock V w3" "sv_node V w3 ?p = Some (val, t)"
    by (auto simp: written_def)
  have "sv_clock V w \<le> sv_clock V w2" using l(9) r(2) by (simp add: keeps_node_def reads_only_def)
  with t cl(5) have "sv_node V (ps_world st3) ?p = Some (val, t)" "sv_clock V w \<le> t" "sv_clock V w \<le> sv_clock V (ps_world st3)"
    by (simp_all add: keeps_node_def)
  moreover have "dir_next D (ps_world st3) \<le> Suc (dir_next D w)" using cl(4) dir(3) l(8) by simp
  ultimately show ?thesis using read wr(1) cl(1-3) by blast
qed

text \<open>What each request reads if it gets what the one before it has written.\<close>

fun handed_on :: "read_result \<Rightarrow> string list \<Rightarrow> (read_result \<times> bool) list" where
  "handed_on r [] = []"
| "handed_on r (v # vs) = (r, True) # handed_on (True, Some v, int (length v)) vs"

text \<open>
  C2: the requests on one session work in turn. With locking on, an empty queue, a server that answers, and
  for every request an expiry that can be computed in 64 bits and that neither the stored value nor the
  clock at the beginning has fallen behind (so that no value is expired for any of the requests), any number
  of requests of any clients, each a locking read, a write and a close, all come back: every request gets
  the lock at its first attempt, reads exactly the value that the request before it wrote (the first
  one what was stored), writes with success, and the queue is empty at the end.
\<close>

theorem requests_served_in_turn:
  assumes "list_all (request_ready api D V path cap key) rs"
    and "dir_ok D w" and "dir_nodes D w = {}" and "dir_next D w + length rs \<le> cap" and "dir_next D w + length rs \<le> seq_max"
    and "list_all (\<lambda>(env, st, val). young V env (session_path key) w) rs"
  shows "\<exists>w'. serve_requests api key rs w =
      Some (Ret (handed_on (stored V w (session_path key)) (map (\<lambda>(env, st, val). val) rs), w')) \<and>
    dir_nodes D w' = {} \<and> (rs \<noteq> [] \<longrightarrow> (\<exists>t. sv_node V w' (session_path key) = Some (snd (snd (last rs)), t)))"
  using assms
proof (induction rs arbitrary: w)
  case Nil
  then show ?case by simp
next
  case (Cons c rs)
  let ?p = "session_path key"
  obtain env st val where c: "c = (env, st, val)" by (metis prod_cases3)
  have "request_ready api D V path cap key (env, st, val)" "dir_next D w < cap" "dir_next D w < seq_max"
    "young V env ?p w" using Cons.prems c by auto
  from one_turn [OF this(1) Cons.prems(2,3) this(2-4)] obtain st1 st2 st3 t where
    f: "ps_read_zookeeper env api key (st\<lparr>ps_world := w\<rparr>) = Some (Ret (stored V w ?p, st1))"
      "ps_write_zookeeper api key val st1 = Some (Ret (True, st2))" "ps_close_zookeeper api st2 = Some (Ret (True, st3))"
      "dir_ok D (ps_world st3)" "dir_nodes D (ps_world st3) = {}" "dir_next D (ps_world st3) \<le> Suc (dir_next D w)"
      "sv_node V (ps_world st3) ?p = Some (val, t)" "sv_clock V w \<le> t" "sv_clock V w \<le> sv_clock V (ps_world st3)" by blast
  have next_room: "dir_next D (ps_world st3) + length rs \<le> cap" "dir_next D (ps_world st3) + length rs \<le> seq_max"
    using f(6) Cons.prems(4,5) by simp_all
  have "list_all (\<lambda>(env, st, val). young V env ?p (ps_world st3)) rs"
    using Cons.prems(6) f(7-9) unfolding list_all_iff by (auto simp: young_def dest: expired_antimono)
  note later = this
  have "list_all (request_ready api D V path cap key) rs" using Cons.prems(1) by simp
  from Cons.IH [OF this f(4,5) next_room later] obtain w' where
    w': "serve_requests api key rs (ps_world st3) =
        Some (Ret (handed_on (stored V (ps_world st3) ?p) (map (\<lambda>(env, st, val). val) rs), w'))" "dir_nodes D w' = {}"
      "rs \<noteq> [] \<longrightarrow> (\<exists>t. sv_node V w' ?p = Some (snd (snd (last rs)), t))" by (elim exE conjE)
  have "stored V (ps_world st3) ?p = (True, Some val, int (length val))" using f(7) by (simp add: stored_def)
  then have "serve_requests api key (c # rs) w =
      Some (Ret (handed_on (stored V w ?p) (map (\<lambda>(env, st, val). val) (c # rs)), w'))"
    using c f(1-3) w'(1) by simp
  moreover have "\<exists>t. sv_node V w' ?p = Some (snd (snd (last (c # rs))), t)"
  proof (cases "rs = []")
    case True
    with w'(1) f(7) c show ?thesis by simp
  next
    case False
    with w'(3) show ?thesis by simp
  qed
  ultimately show ?case using w'(2) by blast
qed

section \<open>A small server\<close>

text \<open>A table of nodes, the names given to lock children so far, and their counter; no time passes.\<close>

type_synonym turn_world = "session_table \<times> string list \<times> nat"

definition turn_kids :: "turn_world \<Rightarrow> string list" where
  "turn_kids w = filter (\<lambda>c. fst w (child_path abc_lock c) \<noteq> None) (fst (snd w))"

definition turn_create :: "zhandle \<Rightarrow> string \<Rightarrow> string option \<Rightarrow> int \<Rightarrow> nat \<Rightarrow> turn_world \<Rightarrow> (int \<times> string) \<times> turn_world" where
  "turn_create zh p v fl sz w = (let (t, names, n) = w; c = lock_child (of_nat zh) n in
     if fl = 3 then ((ZOK, snprintf sz (child_path abc_lock c)),
         (t(child_path abc_lock c \<mapsto> ('''', 4000000)), names @ [c], Suc n))
     else if p = abc_lock \<or> t p \<noteq> None then ((ZNODEEXISTS, ''''), w)
     else ((ZOK, p), (t(p \<mapsto> (case v of None \<Rightarrow> '''' | Some x \<Rightarrow> x, 4000000)), names, n)))"

definition turn_api :: "turn_world zk_api" where
  "turn_api = idle_api\<lparr>
     zoo_exists := (\<lambda>zh p b w. if p = abc_lock then ((ZOK, no_stat), w) else case fst w p of
         None \<Rightarrow> ((ZNONODE, no_stat), w)
       | Some (v, t) \<Rightarrow> ((ZOK, no_stat\<lparr>stat_mtime := t, stat_dataLength := int (length v)\<rparr>), w)),
     zoo_get_children := (\<lambda>zh p wt w. ((ZOK, turn_kids w), w)),
     zoo_get := (\<lambda>zh p b l w. if p = abc_lock then ((ZOK, '''', 0, no_stat), w) else case fst w p of
         None \<Rightarrow> ((ZNONODE, '''', 0, no_stat), w)
       | Some (v, t) \<Rightarrow> ((ZOK, take (nat l) v, int (length (take (nat l) v)), no_stat), w)),
     zoo_create := (\<lambda>zh p v l acl fl sz w. turn_create zh p v fl sz w),
     zoo_set := (\<lambda>zh p v l ver w. if p = abc_lock then (ZSYSTEMERROR, w) else if fst w p = None then (ZNONODE, w)
       else (ZOK, ((fst w)(p \<mapsto> (case v of None \<Rightarrow> '''' | Some x \<Rightarrow> x, 4000000)), snd w))),
     zoo_delete := (\<lambda>zh p ver w. if p = abc_lock then (ZSYSTEMERROR, w) else if fst w p = None then (ZNONODE, w)
       else (ZOK, ((fst w)(p := None), snd w)))\<rparr>"

definition turn_view :: "turn_world store_view" where
  "turn_view = \<lparr>sv_node = (\<lambda>w. (fst w)(abc_lock \<mapsto> ('''', 0))), sv_clock = (\<lambda>_. 4000000)\<rparr>"

definition turn_dir :: "turn_world lock_dir" where
  "turn_dir = \<lparr>dir_nodes = (\<lambda>w. set (turn_kids w)), dir_next = (\<lambda>w. snd (snd w))\<rparr>"

lemma turn_paths [simp]: "child_path abc_lock c \<noteq> abc_lock" "session_path ''abc'' \<noteq> abc_lock"
  "child_path abc_lock c \<noteq> session_path ''abc''" "session_path ''abc'' \<noteq> child_path abc_lock c"
  by (auto simp: child_path_def session_path_short)

lemma no_pair: "(\<forall>a b. x \<noteq> Some (a, b)) \<longleftrightarrow> x = None"
  by (cases x) auto

lemma turn_store: "store_laws turn_api zh turn_view"
proof -
  have "exists_laws turn_api zh turn_view" "get_laws turn_api zh turn_view" "create_laws turn_api zh turn_view"
    "set_laws turn_api zh turn_view" "delete_laws turn_api zh turn_view"
    by (auto simp: exists_laws_def get_laws_def create_laws_def set_laws_def delete_laws_def store_rel_defs
        turn_api_def turn_view_def turn_create_def no_stat_def no_pair Let_def fun_upd_twist split: option.splits if_splits)
  then show ?thesis by (simp add: store_laws_def)
qed

lemma turn_same_dir: "same_dir turn_dir w w' \<longleftrightarrow> set (turn_kids w') = set (turn_kids w) \<and> snd (snd w') = snd (snd w)"
  by (auto simp: same_dir_def turn_dir_def)

lemma turn_kids_other: "turn_kids (t(session_path ''abc'' := x), r) = turn_kids (t, r)"
  by (simp add: turn_kids_def)

lemma turn_prompt: "prompt_store turn_api zh turn_view turn_dir (session_path ''abc'')"
  unfolding prompt_store_def turn_same_dir
  by (auto simp: turn_api_def turn_view_def turn_create_def no_pair Let_def turn_kids_other split: option.splits prod.splits)

lemma turn_within: "lock_calls_within turn_api zh abc_lock (keeps_node turn_view (session_path ''abc''))"
  unfolding lock_calls_within_def
  by (auto simp: keeps_node_def turn_api_def turn_view_def turn_create_def no_pair Let_def split: option.splits
      intro!: reflpI transpI)

lemma turn_quiet: "quiet_lock_laws turn_api turn_dir zh abc_lock (of_nat zh) 9"
  unfolding quiet_lock_laws_def turn_same_dir
  by (auto simp: turn_dir_def turn_api_def turn_create_def turn_kids_def Let_def split_beta)

definition turn_state :: "zhandle \<Rightarrow> turn_world php_state" where
  "turn_state zh = \<lparr>ps_world = (\<lambda>_. None, [], 0), ps_heap = [0 \<mapsto> lock_session zh], ps_fresh = 1,
     ps_plist = (\<lambda>_. None), ps_mod_data = Some 0\<rparr>"

text \<open>Two clients, the second one after the first.\<close>

theorem requests_served_in_turn_witness:
  "\<exists>w'. serve_requests turn_api ''abc'' [(lock_env, turn_state 1, ''n|i:1;''), (lock_env, turn_state 2, ''n|i:2;'')]
       (\<lambda>_. None, [], 0) =
     Some (Ret ([((False, None, 0), True), ((True, Some ''n|i:1;'', 6), True)], w'))"
proof -
  let ?rs = "[(lock_env, turn_state 1, ''n|i:1;''), (lock_env, turn_state 2, ''n|i:2;'')]"
  let ?w = "(\<lambda>_. None, [], 0) :: turn_world"
  have "request_ready turn_api turn_dir turn_view abc_lock 9 ''abc'' (lock_env, turn_state zh, val)" for zh val
  proof -
    have "g_session_lock lock_env" "lock_attempts_of lock_env = Ret 1" "expiry_fits lock_env"
      by (simp_all add: lock_env_def sim_env_def expiry_fits_def lock_attempts_of_def lock_maxwait_of_def lock_wait_of_def c_div_def long_max_def)
    then show ?thesis using turn_quiet [of zh] turn_within [of zh] turn_store [of zh] turn_prompt [of zh]
      by (simp add: request_ready_def turn_state_def lock_session_def lock_path_abc) blast
  qed
  then have "list_all (request_ready turn_api turn_dir turn_view abc_lock 9 ''abc'') ?rs" by simp
  moreover have "dir_ok turn_dir ?w" "dir_nodes turn_dir ?w = {}"
    by (simp_all add: dir_ok_def turn_dir_def turn_kids_def)
  moreover have "dir_next turn_dir ?w + length ?rs \<le> 9" "dir_next turn_dir ?w + length ?rs \<le> seq_max"
    by (simp_all add: turn_dir_def)
  moreover have "list_all (\<lambda>(env, st, val). young turn_view env (session_path ''abc'') ?w) ?rs"
    by (simp add: young_def turn_view_def lock_env_def sim_env_def expired_def)
  moreover have "stored turn_view ?w (session_path ''abc'') = (False, None, 0)" by (simp add: stored_def turn_view_def)
  ultimately show ?thesis
    using requests_served_in_turn [of turn_api turn_dir turn_view abc_lock 9 "''abc''" ?rs ?w] by auto
qed

end
