(* ===== verification/Session_Regenerate.thy ===== *)
theory Session_Regenerate
  imports Session_Properties
begin

text \<open>
  Changing the id of a session. \<open>session_regenerate_id\<close> gives a running session a new id, asks
  the handler to destroy the old one if it is told to, and the write at the end of the request is
  called with the new id. The handlers work on the path of the last read instead.
\<close>

lemma read_session:
  assumes "ps_read_zookeeper env api key st = Some (Ret (r, st'))"
    and "ps_mod_data st = Some p" "ps_heap st p = Some s"
  obtains s' where "ps_mod_data st' = Some p" "ps_heap st' p = Some s'" "s_zk s' = s_zk s" "s_path s' = session_path key"
  using assms
proof (cases rule: read_Ret)
  case (1 s1 w1 w2)
  then show ?thesis using assms(2) that [of "s1\<lparr>s_path := session_path key\<rparr>"] by (simp add: put_session_def)
qed

lemma destroy_Ret:
  assumes st: "ps_mod_data st = Some p" "ps_heap st p = Some s"
    and laws: "store_laws api (s_zk s) V"
    and call: "ps_destroy_zookeeper api key st = Some (Ret (ok, st'))"
  shows "(if ok then deleted V (s_path s) (ps_world st) (ps_world st')
     else reads_only V (ps_world st) (ps_world st') \<or> deleted V (s_path s) (ps_world st) (ps_world st')) \<and>
    ps_heap st' = ps_heap st \<and> ps_mod_data st' = ps_mod_data st"
proof -
  from call st obtain d w1 where
    del: "retried (status_op (zoo_delete api (s_zk s) (s_path s) (-1))) (ps_world st) = Some (Ret (d, (), w1))"
    and st': "ok \<longleftrightarrow> d = ZOK" "st' = st\<lparr>ps_world := w1\<rparr>"
    by (auto simp: ps_destroy_zookeeper_def with_session_def xbind_eq_Ret)
  from del have "if d = ZOK then deleted V (s_path s) (ps_world st) w1
      else reads_only V (ps_world st) w1 \<or> deleted V (s_path s) (ps_world st) w1"
    by (rule retried_delete [OF laws]) auto
  with st' show ?thesis by simp
qed

text \<open>
  C27: a session that gets a new id loses its data, and the old id keeps them. When a request has
  read the session of one id, with or without destroying that session, and then writes under
  another id with success: the written value is in the node of the old id and the node of the new id
  is as it was. So a later read of the new id, which has no node, fails, and a read of the old
  id, destroyed or not, gives the value.
\<close>

theorem regenerated_session_is_lost:
  assumes st: "ps_mod_data st = Some p" "ps_heap st p = Some s"
    and laws: "store_laws api (s_zk s) V" "exists_answers api (s_zk s)" "delete_answers api (s_zk s) V"
      "get_answers api (s_zk s) V"
    and started: "ps_read_zookeeper env api old st = Some (Ret (r, st1))"
    and destroyed: "st2 = st1 \<or> ps_destroy_zookeeper api old st1 = Some (Ret (d, st2))"
    and written: "ps_write_zookeeper api new val st2 = Some (Ret (True, st3))"
    and ids: "session_path new \<noteq> session_path old" and none: "sv_node V (ps_world st1) (session_path new) = None"
    and later: "ps_mod_data st4 = Some q" "ps_heap st4 q = Some s4" "s_zk s4 = s_zk s" "\<not> g_session_lock env'"
      "sv_node V (ps_world st4) = sv_node V (ps_world st3)"
    and young: "\<not> expired env' (sv_clock V (ps_world st2))"
  shows "sv_node V (ps_world st3) (session_path new) = None \<and>
    (\<exists>t. sv_node V (ps_world st3) (session_path old) = Some (val, t)) \<and>
    (\<forall>r' st5. ps_read_zookeeper env' api new st4 = Some (Ret (r', st5)) \<longrightarrow> r' = (False, None, 0)) \<and>
    (\<forall>r' st5. ps_read_zookeeper env' api old st4 = Some (Ret (r', st5)) \<longrightarrow> r' = (True, Some val, int (length val)))"
proof -
  from started st obtain s1 where s1: "ps_mod_data st1 = Some p" "ps_heap st1 p = Some s1" "s_zk s1 = s_zk s"
    "s_path s1 = session_path old" by (rule read_session)
  have laws1: "store_laws api (s_zk s1) V" using laws(1) s1(3) by simp
  have s2: "ps_mod_data st2 = Some p" "ps_heap st2 p = Some s1" and
    new2: "sv_node V (ps_world st2) (session_path new) = None"
  proof -
    have "ps_mod_data st2 = Some p \<and> ps_heap st2 p = Some s1 \<and> sv_node V (ps_world st2) (session_path new) = None"
      using destroyed
    proof
      assume "ps_destroy_zookeeper api old st1 = Some (Ret (d, st2))"
      from destroy_Ret [OF s1(1,2) laws1 this] s1 none ids show ?thesis
        by (auto simp: store_rel_defs split: if_splits)
    qed (use s1 none in simp)
    then show "ps_mod_data st2 = Some p" "ps_heap st2 p = Some s1"
      "sv_node V (ps_world st2) (session_path new) = None" by simp_all
  qed
  from write_Ret [OF s2 laws1 written] s1(4) have "written V (session_path old) val (ps_world st2) (ps_world st3)"
    by simp
  then obtain t where t: "sv_clock V (ps_world st2) \<le> t"
    "sv_node V (ps_world st3) = (sv_node V (ps_world st2))(session_path old \<mapsto> (val, t))"
    by (auto simp: written_def)
  have nodes: "sv_node V (ps_world st3) (session_path new) = None"
    "sv_node V (ps_world st3) (session_path old) = Some (val, t)" using t(2) new2 ids by simp_all
  have spec: "(r', sv_node V (ps_world st5)) =
      spec_read env' (session_path key) (sv_node V (ps_world st3))"
    if "ps_read_zookeeper env' api key st4 = Some (Ret (r', st5))" for key r' st5
    using read_table [of st4 q s4 api V env' key r' st5] laws later that by (simp add: read_lock_def)
  show ?thesis
    using nodes spec expired_antimono [OF young t(1)] by (auto simp: spec_read_def split: if_splits dest!: spec)
qed

definition young_node :: session_table where
  "young_node = [session_path ''abc'' \<mapsto> (''user|i:5;'', 3900000)]"

lemma sim_put [simp]: "put_session (sim_state t) 0 sim_session (u, 4000000) = sim_state u"
  "(sim_state t)\<lparr>ps_world := (u, 4000000)\<rparr> = sim_state u"
  by (simp_all add: sim_state_def put_session_def)

lemma young_read:
  "ps_read_zookeeper sim_env store_api ''abc'' (sim_state young_node) =
     Some (Ret ((True, Some ''user|i:5;'', 9), sim_state young_node))"
proof -
  let ?p = "session_path ''abc''" and ?w = "(young_node, 4000000)"
  have "retried (zoo_exists store_api 1 ?p True) ?w =
      Some (Ret (ZOK, no_stat\<lparr>stat_mtime := 3900000, stat_dataLength := 9\<rparr>, ?w))"
    "retried (zoo_get store_api 1 ?p False 9) ?w = Some (Ret (ZOK, (''user|i:5;'', 9, no_stat), ?w))"
    by (rule retried_answer; simp add: young_node_def)+
  moreover have "put_session (sim_state young_node) 0 (sim_session\<lparr>s_path := ?p\<rparr>) ?w = sim_state young_node"
    by (simp add: sim_state_def sim_session_def put_session_def)
  ultimately show ?thesis
    by (simp add: ps_read_zookeeper_def with_session_def read_lock_def read_node_def)
qed

lemma young_destroy:
  "ps_destroy_zookeeper store_api ''abc'' (sim_state young_node) = Some (Ret (True, sim_state (\<lambda>_. None)))"
proof -
  have "retried (status_op (zoo_delete store_api 1 (session_path ''abc'') (-1))) (young_node, 4000000) =
      Some (Ret (ZOK, (), (\<lambda>_. None, 4000000)))"
    by (rule retried_answer; simp add: status_op_eq young_node_def)
  then show ?thesis by (simp add: ps_destroy_zookeeper_def with_session_def)
qed

text \<open>The session \<open>abc\<close> is destroyed and written as \<open>xyz\<close>.\<close>

theorem regenerated_session_is_lost_witness:
  "\<exists>st3. ps_write_zookeeper store_api ''xyz'' ''user|i:6;'' (sim_state (\<lambda>_. None)) = Some (Ret (True, st3)) \<and>
     fst (ps_world st3) (session_path ''xyz'') = None \<and>
     (\<exists>t. fst (ps_world st3) (session_path ''abc'') = Some (''user|i:6;'', t))"
proof -
  have put: "ps_write_zookeeper store_api ''xyz'' ''user|i:6;'' (sim_state (\<lambda>_. None)) =
      Some (Ret (True, sim_state [session_path ''abc'' \<mapsto> (''user|i:6;'', 4000000)]))"
    using sim_write [of "\<lambda>_. None" "''xyz''" "''user|i:6;''"] by simp
  have "session_path ''xyz'' \<noteq> session_path ''abc''" by (simp add: session_path_short)
  with regenerated_session_is_lost [where p = 0 and s = sim_session and q = 0 and ?s4.0 = sim_session and env' = sim_env
      and ?st4.0 = "sim_state [session_path ''abc'' \<mapsto> (''user|i:6;'', 4000000)]",
      OF _ _ _ _ _ _ young_read disjI2 [OF young_destroy] put, of sim_view] store_api_laws(1-4)
  show ?thesis using put by (auto simp: young_node_def)
qed

end
