(* ===== verification/Class_Watches.thy ===== *)
theory Class_Watches
  imports Class_Properties
begin

text \<open>
  Which record an event releases. Whatever a request does, it changes the callback records by
  three kinds of steps only (\<open>callback_steps\<close>): a record is made, an index is deleted from the
  table, or nothing of them changes. A record keeps its address, its contents and its index in the
  table while it lives, so the index that it stores is right for ever or wrong for ever, and which
  of the two was decided when it was made: by whether anything had been deleted before.
\<close>

section \<open>Steps on the callback records\<close>

definition same_callbacks :: "('w, 'h) zk_state \<Rightarrow> ('w, 'h) zk_state \<Rightarrow> bool" where
  "same_callbacks st st' \<longleftrightarrow> z_cbs st' = z_cbs st \<and> z_table st' = z_table st \<and> z_fresh st' = z_fresh st"

inductive callback_steps :: "'h hash_api \<Rightarrow> ('w, 'h) zk_state \<Rightarrow> ('w, 'h) zk_state \<Rightarrow> bool" for H where
  cs_same: "same_callbacks st st' \<Longrightarrow> callback_steps H st st'"
| cs_new: "callback_steps H st st1 \<Longrightarrow> php_cb_data_new H f o1 st1 = (a, st2) \<Longrightarrow> same_callbacks st2 st3 \<Longrightarrow>
    callback_steps H st st3"
| cs_del: "callback_steps H st st1 \<Longrightarrow> callbacks_del H i st1 = Ret st2 \<Longrightarrow> same_callbacks st2 st3 \<Longrightarrow>
    callback_steps H st st3"

lemma same_callbacks_refl [simp, intro]: "same_callbacks st st"
  by (simp add: same_callbacks_def)

lemma same_callbacks_trans: "same_callbacks st st1 \<Longrightarrow> same_callbacks st1 st2 \<Longrightarrow> same_callbacks st st2"
  by (simp add: same_callbacks_def)

lemma same_callbacks_table: "same_callbacks st st' \<Longrightarrow> table_ok V st' = table_ok V st"
  by (simp add: same_callbacks_def table_ok_def)

lemma callback_steps_same: "callback_steps H st st1 \<Longrightarrow> same_callbacks st1 st2 \<Longrightarrow> callback_steps H st st2"
  by (induction rule: callback_steps.induct)
    (auto intro: callback_steps.intros same_callbacks_trans)

lemma callback_steps_trans:
  assumes "callback_steps H st1 st2" "callback_steps H st st1"
  shows "callback_steps H st st2"
  using assms
  by (induction rule: callback_steps.induct) (auto intro: callback_steps_same cs_new cs_del)

lemma new_callback_steps: "new_callback H fci o1 st = (cb, st1) \<Longrightarrow> callback_steps H st st1"
  by (auto simp: new_callback_def intro: cs_same cs_new [OF cs_same] split: option.splits prod.splits)

lemma new_then_same:
  "new_callback H fci o1 st = (cb, st1) \<Longrightarrow> same_callbacks st1 st2 \<Longrightarrow> callback_steps H st st2"
  by (rule callback_steps_same [OF new_callback_steps])

lemma get_data_same:
  assumes "get_data api zh path cb si len st = Ret (r, st')" "no_zerror r"
  shows "same_callbacks st st'"
  using assms
  by (auto simp: get_data_def Let_def reply_defs same_callbacks_def dest: failed_watch_zerror split: if_splits prod.splits)

text \<open>The methods, where no watched call fails.\<close>

lemma method_steps:
  shows "php_zookeeper_connect_impl H api this host fci timeout st = Ret (r, st') \<Longrightarrow> callback_steps H st st'"
    and "zookeeper_getChildren H api this args1 st = Ret (r, st') \<Longrightarrow> no_zerror r \<Longrightarrow> callback_steps H st st'"
    and "zookeeper_get H api this args2 st = Ret (r, st') \<Longrightarrow> no_zerror r \<Longrightarrow> callback_steps H st st'"
    and "zookeeper_exists H api this args3 st = Ret (r, st') \<Longrightarrow> no_zerror r \<Longrightarrow> callback_steps H st st'"
    and "zookeeper_addAuth H api this args4 st = Ret (r, st') \<Longrightarrow> callback_steps H st st'"
proof -
  show "callback_steps H st st'" if "php_zookeeper_connect_impl H api this host fci timeout st = Ret (r, st')"
    using that
    by (auto simp: php_zookeeper_connect_impl_def reply_defs Let_def same_callbacks_def
      intro: cs_same elim!: new_then_same split: if_splits option.splits prod.splits)
  show "callback_steps H st st'" if "zookeeper_addAuth H api this args4 st = Ret (r, st')"
    using that
    by (auto simp: zookeeper_addAuth_def guard_defs reply_defs Let_def same_callbacks_def
      intro: cs_same elim!: new_then_same split: if_splits option.splits prod.splits)
  show "callback_steps H st st'" if "zookeeper_getChildren H api this args1 st = Ret (r, st')" "no_zerror r"
    using that
    by (auto simp: zookeeper_getChildren_def guard_defs reply_defs Let_def same_callbacks_def
      dest: failed_watch_zerror intro: cs_same elim!: new_then_same split: if_splits option.splits prod.splits)
  show "callback_steps H st st'" if "zookeeper_exists H api this args3 st = Ret (r, st')" "no_zerror r"
    using that
    by (auto simp: zookeeper_exists_def guard_defs reply_defs Let_def same_callbacks_def
      dest: failed_watch_zerror intro: cs_same elim!: new_then_same split: if_splits option.splits prod.splits)
  show "callback_steps H st st'" if "zookeeper_get H api this args2 st = Ret (r, st')" "no_zerror r"
  proof -
    have *: "callback_steps H st st2" if "new_callback H fci True st = (cb, st1)"
      "get_data api zh path cb si len (st1\<lparr>z_world := w\<rparr>) = Ret (r, st2)" for fci cb st1 st2 zh path si len w
    proof (rule new_then_same [OF that(1)])
      from get_data_same [OF that(2) \<open>no_zerror r\<close>] show "same_callbacks st1 st2"
        by (simp add: same_callbacks_def)
    qed
    have **: "callback_steps H st st2" if "new_callback H fci True st = (cb, st1)"
      "get_data api zh path cb si len st1 = Ret (r, st2)" for fci cb st1 st2 zh path si len
      by (rule new_then_same [OF that(1) get_data_same [OF that(2) \<open>no_zerror r\<close>]])
    have new: "callback_steps H st (st1\<lparr>z_world := w\<rparr>)" if "new_callback H fci True st = (cb, st1)"
      for fci cb st1 w by (rule new_then_same [OF that]) (simp add: same_callbacks_def)
    show ?thesis using that
      by (auto simp: zookeeper_get_def guard_defs reply_defs Let_def intro: cs_same * ** new new_callback_steps
        dest: failed_watch_zerror split: if_splits option.splits prod.splits)
  qed
qed

lemma drop_object_callback_steps: "drop_object_callback H i_obj st = Ret st' \<Longrightarrow> callback_steps H st st'"
  by (auto simp: drop_object_callback_def intro: cs_same cs_del [OF cs_same] split: option.splits)

lemma setWatcher_steps:
  assumes call: "zookeeper_setWatcher H api this args st = Ret (r, st')"
  shows "callback_steps H st st'"
proof (cases "\<exists>fci i_obj zh. args = Some fci \<and> z_objs st this = Some i_obj \<and> o_zk i_obj = Some zh")
  case False
  with call show ?thesis
    by (auto simp: zookeeper_setWatcher_def guard_defs reply_defs intro: cs_same split: option.splits)
next
  case True
  then obtain fci i_obj zh where *: "args = Some fci" "z_objs st this = Some i_obj" "o_zk i_obj = Some zh" by blast
  with call obtain st1 where st1: "drop_object_callback H i_obj st = Ret st1"
    by (auto simp: zookeeper_setWatcher_def guard_defs obind_eq_Ret)
  obtain a st2 where st2: "php_cb_data_new H fci False st1 = (a, st2)" by fastforce
  with call * st1 have "same_callbacks st2 st'"
    by (auto simp: zookeeper_setWatcher_def guard_defs returns_def same_callbacks_def)
  from cs_new [OF drop_object_callback_steps [OF st1] st2 this] show ?thesis .
qed

lemma free_storage_steps:
  assumes call: "php_zk_free_storage H api this st = Ret st'"
  shows "callback_steps H st st'"
proof -
  from call obtain i_obj st1 where "drop_object_callback H i_obj st = Ret st1" "same_callbacks st1 st'"
    by (auto simp: php_zk_free_storage_def php_zk_destroy_def obind_eq_Ret Let_def same_callbacks_def
      split: option.splits)
  then show ?thesis by (blast intro: callback_steps_same drop_object_callback_steps)
qed

lemma run_callback_steps:
  assumes "run_callback H (\<lambda>_ _ _. (res, st1)) params context st = Ret (b, st')"
  shows "callback_steps H st1 st'"
  using assms
proof (cases rule: run_callback_Ret)
  case (1 a cb r st2 cb1)
  then show ?thesis by (auto intro: cs_same cs_del [OF cs_same] split: if_splits)
qed

lemma zk_run_steps: "zk_run H api st st' \<Longrightarrow> callback_steps H st st'"
proof (induction rule: zk_run.induct)
  case (run_watcher st st1 st2 res ty state path ctx b' st3)
  from run_callback_steps [OF run_watcher.hyps(3) [unfolded php_zk_watcher_marshal_def]] run_watcher.IH
  show ?case by (blast intro: callback_steps_trans)
next
  case (run_completion st st1 st2 res rc ctx b' st3)
  from run_callback_steps [OF run_completion.hyps(3) [unfolded php_zk_completion_marshal_def]] run_completion.IH
  show ?case by (blast intro: callback_steps_trans)
qed (auto intro: cs_same callback_steps_trans method_steps setWatcher_steps free_storage_steps
  callback_steps_same simp: php_zk_new_def same_callbacks_def)

section \<open>Records keep their place\<close>

text \<open>The number of deletions since the table was new.\<close>

definition gaps :: "'h hash_view \<Rightarrow> ('w, 'h) zk_state \<Rightarrow> nat" where
  "gaps V st = next_free V (z_table st) - length (entries V (z_table st))"

lemma entries_below_next: "table_ok V st \<Longrightarrow> length (entries V (z_table st)) \<le> next_free V (z_table st)"
proof -
  assume "table_ok V st"
  then have *: "distinct (map fst (entries V (z_table st)))" "fst ` set (entries V (z_table st)) \<subseteq> {..<next_free V (z_table st)}"
    using table_ok_parts(1) [of V st] by (auto simp: indices_ok_def)
  then have "card (fst ` set (entries V (z_table st))) \<le> next_free V (z_table st)"
    by (metis card_lessThan card_mono finite_lessThan)
  moreover have "card (fst ` set (entries V (z_table st))) = length (entries V (z_table st))"
    using distinct_card [OF *(1)] by simp
  ultimately show ?thesis by simp
qed

text \<open>What a record is and where it is, or that it is gone for good.\<close>

definition keeps_place :: "'h hash_view \<Rightarrow> nat \<Rightarrow> nat \<Rightarrow> php_cb_data_t \<Rightarrow> ('w, 'h) zk_state \<Rightarrow> bool" where
  "keeps_place V i a cb st \<longleftrightarrow> table_ok V st \<and> a < z_fresh st \<and>
     (z_cbs st a = None \<or> z_cbs st a = Some cb \<and> (i, a) \<in> set (entries V (z_table st)))"

lemma keeps_place_same: "same_callbacks st st' \<Longrightarrow> keeps_place V i a cb st \<Longrightarrow> keeps_place V i a cb st'"
  by (simp add: keeps_place_def same_callbacks_table) (simp add: same_callbacks_def)

lemma keeps_place_new:
  assumes laws: "hash_laws H V" and new: "php_cb_data_new H f o1 st = (b, st')" and kp: "keeps_place V i a cb st"
  shows "keeps_place V i a cb st' \<and> gaps V st' = gaps V st"
proof -
  have ok: "table_ok V st" and a: "a < z_fresh st" using kp by (simp_all add: keeps_place_def)
  have "b = z_fresh st" "table_ok V st'" using cb_data_new_ok [OF laws ok new] by simp_all
  moreover have "z_fresh st' = Suc (z_fresh st)" "\<forall>c. c \<noteq> b \<longrightarrow> z_cbs st' c = z_cbs st c"
    "entries V (z_table st') = entries V (z_table st) @ [(next_free V (z_table st), b)]"
    "next_free V (z_table st') = Suc (next_free V (z_table st))"
    using new by (auto simp: php_cb_data_new_def Let_def hash_lawsD [OF laws])
  ultimately show ?thesis using kp a by (auto simp: keeps_place_def gaps_def)
qed

lemma keeps_place_del:
  assumes laws: "hash_laws H V" and del: "callbacks_del H k st = Ret st'" and kp: "keeps_place V i a cb st"
  shows "keeps_place V i a cb st' \<and> gaps V st \<le> gaps V st' \<and> (k \<noteq> i \<longrightarrow> z_cbs st' a = z_cbs st a)"
proof -
  let ?E = "entries V (z_table st)"
  have ok: "table_ok V st" and a: "a < z_fresh st" using kp by (simp_all add: keeps_place_def)
  from callbacks_del_cases [OF laws ok, of k] del
  have st': "table_ok V st'" "entries V (z_table st') = filter (\<lambda>e. fst e \<noteq> k) ?E" "z_fresh st' = z_fresh st"
    "next_free V (z_table st') = next_free V (z_table st)"
    "z_cbs st' = (case map_of ?E k of None \<Rightarrow> z_cbs st | Some b \<Rightarrow> (z_cbs st)(b := None))" by auto
  have dist: "distinct (map fst ?E)" "inj_on snd (set ?E)"
    using table_ok_parts(1,2) [OF ok] by (auto simp: indices_ok_def distinct_map)
  have cbs: "z_cbs st' a = z_cbs st a \<or> map_of ?E k = Some a \<and> z_cbs st' a = None"
    using st'(5) by (auto split: option.splits)
  have other: "z_cbs st' a = z_cbs st a" if "k \<noteq> i"
  proof (cases "z_cbs st a")
    case None
    then show ?thesis using cbs by auto
  next
    case (Some c)
    then have "(i, a) \<in> set ?E" using kp by (simp add: keeps_place_def)
    then have "map_of ?E k \<noteq> Some a"
      using that inj_onD [OF dist(2)] by (metis map_of_SomeD prod.inject snd_conv)
    with cbs show ?thesis by auto
  qed
  have len: "length (filter (\<lambda>e. fst e \<noteq> k) ?E) \<le> length ?E" by simp
  have "keeps_place V i a cb st'"
  proof (cases "z_cbs st' a")
    case None
    then show ?thesis using st' a by (simp add: keeps_place_def)
  next
    case (Some c)
    with cbs kp have c: "c = cb" "(i, a) \<in> set ?E" "z_cbs st a = Some cb" by (auto simp: keeps_place_def)
    have "i \<noteq> k"
    proof
      assume "i = k"
      with c(2) dist(1) have "map_of ?E k = Some a" by simp
      with st'(5) Some show False by simp
    qed
    with Some c st' a show ?thesis by (simp add: keeps_place_def)
  qed
  moreover have "gaps V st \<le> gaps V st'" using st'(2,4) diff_le_mono2 [OF len] by (simp add: gaps_def)
  ultimately show ?thesis using other by blast
qed

lemma steps_keep_place:
  assumes laws: "hash_laws H V" and steps: "callback_steps H st st'" and kp: "keeps_place V i a cb st"
  shows "keeps_place V i a cb st' \<and> gaps V st \<le> gaps V st'"
  using steps kp
proof (induction rule: callback_steps.induct)
  case (cs_same st st')
  then show ?case by (auto intro: keeps_place_same simp: same_callbacks_def gaps_def)
next
  case (cs_new st st1 f o1 b st2 st3)
  then have "keeps_place V i a cb st1" "gaps V st \<le> gaps V st1" by blast+
  with keeps_place_new [OF laws cs_new.hyps(2)] cs_new.hyps(3) show ?case
    using keeps_place_same [OF cs_new.hyps(3)] by (auto simp: same_callbacks_def gaps_def)
next
  case (cs_del st st1 k st2 st3)
  then have kp: "keeps_place V i a cb st1" "gaps V st \<le> gaps V st1" by blast+
  from keeps_place_del [OF laws cs_del.hyps(2) kp(1)] have "keeps_place V i a cb st2" "gaps V st1 \<le> gaps V st2"
    by blast+
  with keeps_place_same [OF cs_del.hyps(3)] kp(2) cs_del.hyps(3) show ?case
    by (auto simp: same_callbacks_def gaps_def)
qed

text \<open>The place of a new record, and the index it stores: they differ by the deletions so far.\<close>

lemma new_record_place:
  assumes laws: "hash_laws H V" and ok: "table_ok V st" and small: "length (entries V (z_table st)) < 2 ^ 64"
    and new: "php_cb_data_new H f o1 st = (a, st1)"
  shows "keeps_place V (next_free V (z_table st)) a
      \<lparr>cb_fci = f, cb_oneshot = o1, cb_h = length (entries V (z_table st))\<rparr> st1 \<and>
    length (entries V (z_table st)) + gaps V st = next_free V (z_table st) \<and> gaps V st1 = gaps V st"
proof -
  have *: "table_ok V st1" "a < z_fresh st1" using cb_data_new_ok [OF laws ok new] new
    by (auto simp: php_cb_data_new_def Let_def)
  have g: "length (entries V (z_table st)) + gaps V st = next_free V (z_table st)"
    using entries_below_next [OF ok] by (simp add: gaps_def)
  have "entries V (z_table st1) = entries V (z_table st) @ [(next_free V (z_table st), a)]"
    "next_free V (z_table st1) = Suc (next_free V (z_table st))"
    using new by (auto simp: php_cb_data_new_def Let_def hash_lawsD [OF laws])
  then have "gaps V st1 = gaps V st" by (simp add: gaps_def)
  moreover have "z_cbs st1 a = Some \<lparr>cb_fci = f, cb_oneshot = o1, cb_h = length (entries V (z_table st))\<rparr>"
    using cb_data_new_index(2) [OF laws new small] by auto
  ultimately show ?thesis using cb_data_new_index(1) [OF laws new small] * g by (simp add: keeps_place_def)
qed

section \<open>The event of a record\<close>

text \<open>
  C8: which record the event of a one-shot record releases. However much of the request has
  passed since the record was made, and whatever the PHP function does before it returns: the event
  releases exactly its own record, and a further delivery uses it after the release, if nothing had
  been deleted from the table when the record was made; if something had been, the event never
  releases it. Deletions are never forgotten in a request. A function that throws makes the
  event dereference a null pointer.
\<close>

theorem event_releases_own_record:
  assumes laws: "hash_laws H V" and ok: "table_ok V st" and small: "length (entries V (z_table st)) < 2 ^ 64"
    and new: "php_cb_data_new H f True st = (a, st1)"
    and before: "zk_run H api st1 st2" and live: "z_cbs st2 a \<noteq> None"
    and event: "call f [ZLong ty, ZLong state, ZString path] st2 = (res, st3)" "zk_run H api st2 st3"
  defines "outcome \<equiv> php_zk_watcher_marshal H call ty state path (Some a) st2"
  shows "(if res = CallThrew then outcome = Fault NullDeref
    else if z_cbs st3 a = None then outcome = Fault UseAfterFree
    else \<exists>st4. outcome = Ret (res = CallReturned, st4) \<and>
      (if gaps V st = 0 then z_cbs st4 = (z_cbs st3)(a := None) \<and>
         (\<forall>call ty state path. php_zk_watcher_marshal H call ty state path (Some a) st4 = Fault UseAfterFree)
       else z_cbs st4 a \<noteq> None)) \<and> gaps V st \<le> gaps V st3"
proof -
  let ?n = "length (entries V (z_table st))" and ?i = "next_free V (z_table st)"
  let ?cb = "\<lparr>cb_fci = f, cb_oneshot = True, cb_h = ?n\<rparr>"
  from new_record_place [OF laws ok small new] have place: "keeps_place V ?i a ?cb st1" "gaps V st1 = gaps V st"
    and drift: "?n + gaps V st = ?i" by simp_all
  from steps_keep_place [OF laws zk_run_steps [OF before] place(1)] have
    kp2: "keeps_place V ?i a ?cb st2" "gaps V st1 \<le> gaps V st2" by blast+
  from steps_keep_place [OF laws zk_run_steps [OF event(2)] kp2(1)] have
    kp3: "keeps_place V ?i a ?cb st3" "gaps V st2 \<le> gaps V st3" by blast+
  have rec2: "z_cbs st2 a = Some ?cb" using kp2(1) live by (auto simp: keeps_place_def)
  have gap: "gaps V st \<le> gaps V st3" using place(2) kp2(2) kp3(2) by simp
  have "\<exists>st4. outcome = Ret (res = CallReturned, st4) \<and>
      (if gaps V st = 0 then z_cbs st4 = (z_cbs st3)(a := None) \<and>
         (\<forall>call ty state path. php_zk_watcher_marshal H call ty state path (Some a) st4 = Fault UseAfterFree)
       else z_cbs st4 a \<noteq> None)" if res: "res \<noteq> CallThrew" and a3: "z_cbs st3 a \<noteq> None"
  proof -
    have rec3: "z_cbs st3 a = Some ?cb" "(?i, a) \<in> set (entries V (z_table st3))" "table_ok V st3"
      using kp3(1) a3 by (auto simp: keeps_place_def)
    from callbacks_del_cases [OF laws rec3(3), of ?n] obtain st4 where st4: "callbacks_del H ?n st3 = Ret st4"
      "z_cbs st4 = (case map_of (entries V (z_table st3)) ?n of None \<Rightarrow> z_cbs st3 | Some b \<Rightarrow> (z_cbs st3)(b := None))"
      by blast
    have out: "outcome = Ret (res = CallReturned, st4)"
      using rec2 rec3(1) event(1) res st4(1)
      by (simp add: outcome_def php_zk_watcher_marshal_def run_callback_def)
    show ?thesis
    proof (cases "gaps V st = 0")
      case True
      then have "map_of (entries V (z_table st3)) ?n = Some a"
        using rec3(2) drift table_ok_parts(1) [OF rec3(3)] by (simp add: indices_ok_def)
      with st4(2) have "z_cbs st4 = (z_cbs st3)(a := None)" by simp
      with out True show ?thesis by (simp add: php_zk_watcher_marshal_def run_callback_def)
    next
      case False
      with drift have "?n \<noteq> ?i" by simp
      with keeps_place_del [OF laws st4(1) kp3(1)] a3 out False show ?thesis by simp
    qed
  qed
  moreover have "outcome = Fault NullDeref" if "res = CallThrew"
    using that rec2 event(1) by (simp add: outcome_def php_zk_watcher_marshal_def run_callback_def)
  moreover have "outcome = Fault UseAfterFree" if "res \<noteq> CallThrew" "z_cbs st3 a = None"
    using that rec2 event(1) by (simp add: outcome_def php_zk_watcher_marshal_def run_callback_def)
  ultimately show ?thesis using gap by simp
qed

text \<open>A record made in the new table, and one made after a deletion.\<close>

theorem event_releases_own_record_witness:
  "(\<exists>st4. php_zk_watcher_marshal list_hash (\<lambda>_ _ st. (CallReturned, st)) 3 3 ''/a'' (Some 0)
     (snd (php_cb_data_new list_hash 9 True sim_conn)) = Ret (True, st4) \<and> z_cbs st4 0 = None) \<and>
   (\<exists>st4. php_zk_watcher_marshal list_hash (\<lambda>_ _ st. (CallReturned, st)) 3 3 ''/a'' (Some 2)
     (snd (php_cb_data_new list_hash 9 True sim_gap)) = Ret (True, st4) \<and> z_cbs st4 2 \<noteq> None)"
proof (rule conjI)
  let ?call = "\<lambda>_ _ st. (CallReturned, st)"
  let ?new = "php_cb_data_new list_hash 9 True sim_conn"
  have new: "?new = (0, snd ?new)" and live: "z_cbs (snd ?new) 0 \<noteq> None" by (simp_all add: php_cb_data_new_def Let_def)
  have "gaps list_view sim_conn = 0" "length (entries list_view (z_table sim_conn)) < 2 ^ 64"
    by (simp_all add: gaps_def list_view_def)
  with event_releases_own_record [where api = idle_api and call = ?call and ty = 3 and state = 3 and path = "''/a''"
      and res = CallReturned, OF list_hash_laws sim_conn_ok _ new run_refl live] live
  obtain st4 where "php_zk_watcher_marshal list_hash ?call 3 3 ''/a'' (Some 0) (snd ?new) = Ret (True, st4)"
    "z_cbs st4 = (z_cbs (snd ?new))(0 := None)" by (auto simp: run_refl)
  then show "\<exists>st4. php_zk_watcher_marshal list_hash ?call 3 3 ''/a'' (Some 0) (snd ?new) = Ret (True, st4) \<and> z_cbs st4 0 = None"
    by (intro exI [of _ st4]) simp
next
  let ?call = "\<lambda>_ _ st. (CallReturned, st)"
  let ?new = "php_cb_data_new list_hash 9 True sim_gap"
  have new: "?new = (2, snd ?new)" and live: "z_cbs (snd ?new) 2 \<noteq> None"
    by (simp_all add: php_cb_data_new_def Let_def sim_gap_def)
  have "gaps list_view sim_gap \<noteq> 0" "length (entries list_view (z_table sim_gap)) < 2 ^ 64"
    by (simp_all add: gaps_def list_view_def sim_gap_def)
  with event_releases_own_record [where api = idle_api and call = ?call and ty = 3 and state = 3 and path = "''/a''"
      and res = CallReturned, OF list_hash_laws sim_gap_ok _ new run_refl live] live
  show "\<exists>st4. php_zk_watcher_marshal list_hash ?call 3 3 ''/a'' (Some 2) (snd ?new) = Ret (True, st4) \<and> z_cbs st4 2 \<noteq> None"
    by (auto simp: run_refl)
qed

section \<open>An event during a registration\<close>

text \<open>
  The library is the multi-threaded one, which calls back on a thread of its own: an event may come
  between any two statements of a method. These are the two halves of \<open>php_cb_data_new\<close>, the
  insertion and the count; before the count the field \<open>h\<close> holds what \<open>emalloc\<close> left there.
\<close>

definition cb_data_insert ::
  "'h hash_api \<Rightarrow> nat \<Rightarrow> bool \<Rightarrow> nat \<Rightarrow> ('w, 'h) zk_state \<Rightarrow> nat \<times> ('w, 'h) zk_state" where
  "cb_data_insert H fci oneshot h0 st =
     (let a = z_fresh st
      in (a, st\<lparr>z_cbs := (z_cbs st)(a \<mapsto> \<lparr>cb_fci = fci, cb_oneshot = oneshot, cb_h = h0\<rparr>),
                z_fresh := Suc a, z_table := hash_next_index_insert H a (z_table st)\<rparr>))"

definition cb_data_count :: "'h hash_api \<Rightarrow> nat \<Rightarrow> ('w, 'h) zk_state \<Rightarrow> ('w, 'h) zk_state outcome" where
  "cb_data_count H a st = (case z_cbs st a of
     None \<Rightarrow> Fault UseAfterFree
   | Some cb \<Rightarrow> Ret (st\<lparr>z_cbs := (z_cbs st)(a \<mapsto>
       cb\<lparr>cb_h := nat ((int (hash_num_elements H (z_table st)) - 1) mod 2 ^ 64)\<rparr>)\<rparr>))"

lemma cb_data_halves:
  "(let (a, st1) = cb_data_insert H f o1 h0 st in obind (cb_data_count H a st1) (\<lambda>st2. Ret (a, st2))) =
   Ret (php_cb_data_new H f o1 st)"
  by (simp add: cb_data_insert_def cb_data_count_def php_cb_data_new_def Let_def)

lemma keeps_place_insert:
  assumes laws: "hash_laws H V" and ins: "cb_data_insert H f o1 h0 st = (a, st1)"
  shows "(table_ok V st \<longrightarrow> keeps_place V (next_free V (z_table st)) a \<lparr>cb_fci = f, cb_oneshot = o1, cb_h = h0\<rparr> st1) \<and>
    (keeps_place V i b cb st \<longrightarrow> keeps_place V i b cb st1) \<and>
    entries V (z_table st1) = entries V (z_table st) @ [(next_free V (z_table st), a)] \<and>
    z_cbs st1 = (z_cbs st)(a \<mapsto> \<lparr>cb_fci = f, cb_oneshot = o1, cb_h = h0\<rparr>) \<and>
    z_table st1 = hash_next_index_insert H a (z_table st)"
proof -
  obtain st' where new: "php_cb_data_new H f o1 st = (a, st')"
    using ins by (simp add: cb_data_insert_def php_cb_data_new_def Let_def)
  have st1: "z_table st1 = z_table st'" "z_fresh st1 = z_fresh st'" "z_fresh st1 = Suc a"
    "{b. z_cbs st1 b \<noteq> None} = {b. z_cbs st' b \<noteq> None}" "\<forall>b. b \<noteq> a \<longrightarrow> z_cbs st1 b = z_cbs st' b"
    "z_cbs st1 = (z_cbs st)(a \<mapsto> \<lparr>cb_fci = f, cb_oneshot = o1, cb_h = h0\<rparr>)" "a = z_fresh st"
    "z_table st1 = hash_next_index_insert H a (z_table st)"
    using ins new by (auto simp: cb_data_insert_def php_cb_data_new_def Let_def)
  have E: "entries V (z_table st1) = entries V (z_table st) @ [(next_free V (z_table st), a)]"
    by (simp add: st1(8) hash_lawsD [OF laws])
  have ok: "table_ok V st1 = table_ok V st'"
    using st1(4) by (simp add: table_ok_def st1(1,2) set_eq_iff)
  have "keeps_place V (next_free V (z_table st)) a \<lparr>cb_fci = f, cb_oneshot = o1, cb_h = h0\<rparr> st1" if "table_ok V st"
    using cb_data_new_ok [OF laws that new] ok st1(3,6) E by (simp add: keeps_place_def)
  moreover have "keeps_place V i b cb st1" if kp: "keeps_place V i b cb st"
  proof -
    have "b < z_fresh st" using kp by (simp add: keeps_place_def)
    with keeps_place_new [OF laws new kp] st1 ok show ?thesis by (auto simp: keeps_place_def)
  qed
  ultimately show ?thesis using E st1(6,8) by blast
qed

lemma length_filter_key:
  "distinct (map fst xs) \<Longrightarrow> k \<in> fst ` set xs \<Longrightarrow> Suc (length (filter (\<lambda>e. fst e \<noteq> k) xs)) = length xs"
proof (induction xs)
  case Nil
  then show ?case by simp
next
  case (Cons x xs)
  show ?case
  proof (cases "fst x = k")
    case True
    with Cons.prems(1) have "\<forall>e\<in>set xs. fst e \<noteq> k" by (force simp: image_iff)
    then have "filter (\<lambda>e. fst e \<noteq> k) xs = xs" by (simp add: filter_id_conv)
    with True show ?thesis by simp
  qed (use Cons in auto)
qed

lemma count_place:
  assumes laws: "hash_laws H V" and kp: "keeps_place V i a cb st" and live: "z_cbs st a \<noteq> None"
    and n: "length (entries V (z_table st)) = n" "0 < n" "n < 2 ^ 64"
  shows "\<exists>st'. cb_data_count H a st = Ret st' \<and> keeps_place V i a (cb\<lparr>cb_h := n - 1\<rparr>) st' \<and>
    z_cbs st' a = Some (cb\<lparr>cb_h := n - 1\<rparr>)"
proof -
  have rec: "z_cbs st a = Some cb" "(i, a) \<in> set (entries V (z_table st))" "table_ok V st" "a < z_fresh st"
    using kp live by (auto simp: keeps_place_def)
  let ?st = "st\<lparr>z_cbs := (z_cbs st)(a \<mapsto> cb\<lparr>cb_h := n - 1\<rparr>)\<rparr>"
  obtain m where m: "n = Suc m" using n(2) by (cases n) auto
  with n(3) have "m < 2 ^ 64" by simp
  then have "int m mod 2 ^ 64 = int m" by (intro mod_pos_pos_trivial) auto
  then have "nat ((int n - 1) mod 2 ^ 64) = n - 1" by (simp add: m)
  then have "cb_data_count H a st = Ret ?st"
    using rec(1) n(1) by (simp add: cb_data_count_def hash_lawsD [OF laws])
  moreover have "{b. z_cbs ?st b \<noteq> None} = {b. z_cbs st b \<noteq> None}" using rec(1) by auto
  then have "table_ok V ?st" using rec(3) by (simp add: table_ok_def set_eq_iff)
  ultimately show ?thesis using rec by (intro exI [of _ ?st]) (simp add: keeps_place_def)
qed

lemma event_misses:
  assumes laws: "hash_laws H V" and kp: "keeps_place V i a cb st" and h: "cb_h cb \<noteq> i"
    and call: "call (cb_fci cb) params st = (res, st)"
    and event: "run_callback H call params (Some a) st = Ret (ok, st')"
  shows "z_cbs st' a \<noteq> None"
  using event
proof (cases rule: run_callback_Ret)
  case (1 a' cb' res' st1 cb1)
  with kp have "cb' = cb" by (auto simp: keeps_place_def)
  with 1 call have "st1 = st" "cb1 = cb" by auto
  with 1 h keeps_place_del [OF laws _ kp, of "cb_h cb" st'] show ?thesis by (auto split: if_splits)
qed

text \<open>
  C24: an event that comes in the middle of a registration makes the new record useless. When
  nothing was deleted before and another one-shot record's event is delivered between the insertion
  and the count, the event releases its own record, but the new record then stores an index one
  below its own: whatever happens later in the request, its event does not release it.
\<close>

theorem overlapped_registration:
  assumes laws: "hash_laws H V" and ok: "table_ok V st" and dense: "gaps V st = 0"
    and small: "length (entries V (z_table st)) < 2 ^ 64"
    and other: "(k, b) \<in> set (entries V (z_table st))" "z_cbs st b = Some \<lparr>cb_fci = g, cb_oneshot = True, cb_h = k\<rparr>"
    and insert: "cb_data_insert H f True h0 st = (a, st1)"
    and event: "call g [ZLong ty, ZLong state, ZString path] st1 = (CallReturned, st1)"
  shows "\<exists>st2 st3. php_zk_watcher_marshal H call ty state path (Some b) st1 = Ret (True, st2) \<and>
    z_cbs st2 = (z_cbs st1)(b := None) \<and> cb_data_count H a st2 = Ret st3 \<and>
    (next_free V (z_table st), a) \<in> set (entries V (z_table st3)) \<and>
    z_cbs st3 a = Some \<lparr>cb_fci = f, cb_oneshot = True, cb_h = next_free V (z_table st) - 1\<rparr> \<and>
    (\<forall>api st4 call' ty' state' path' r st5. zk_run H api st3 st4 \<longrightarrow>
       call' f [ZLong ty', ZLong state', ZString path'] st4 = (CallReturned, st4) \<longrightarrow>
       php_zk_watcher_marshal H call' ty' state' path' (Some a) st4 = Ret (r, st5) \<longrightarrow> z_cbs st5 a \<noteq> None)"
proof -
  let ?E = "entries V (z_table st)" and ?n = "next_free V (z_table st)"
  let ?b = "\<lparr>cb_fci = g, cb_oneshot = True, cb_h = k\<rparr>" and ?a = "\<lambda>h. \<lparr>cb_fci = f, cb_oneshot = True, cb_h = h\<rparr>"
  have n: "length ?E = ?n" "?E \<noteq> []" "0 < ?n"
    using dense entries_below_next [OF ok] other(1) by (auto simp: gaps_def dest: length_pos_if_in_set)
  have "keeps_place V k b ?b st" using other ok table_ok_parts(4) [OF ok] by (auto simp: keeps_place_def)
  with keeps_place_insert [OF laws insert, where i = k and b = b and cb = ?b] ok have
    a1: "keeps_place V ?n a (?a h0) st1" and st1: "entries V (z_table st1) = ?E @ [(?n, a)]"
      "z_cbs st1 = (z_cbs st)(a \<mapsto> ?a h0)" by blast+
  have ab: "a \<noteq> b"
    using insert other(2) table_ok_parts(4) [OF ok] by (auto simp: cb_data_insert_def Let_def)
  have ok1: "table_ok V st1" and b_rec: "z_cbs st1 b = Some ?b"
    using a1 st1(2) ab other(2) by (simp_all add: keeps_place_def)
  have kb: "k < ?n" "distinct (map fst (?E @ [(?n, a)]))"
    using other(1) table_ok_parts(1) [OF ok] table_ok_parts(1) [OF ok1] st1(1) by (auto simp: indices_ok_def)
  then have found: "map_of (entries V (z_table st1)) k = Some b"
    using other(1) st1(1) by (intro map_of_is_SomeI) auto
  from callbacks_del_cases [OF laws ok1, of k] obtain st2 where st2: "callbacks_del H k st1 = Ret st2"
    "entries V (z_table st2) = filter (\<lambda>e. fst e \<noteq> k) (?E @ [(?n, a)])" "z_cbs st2 = (z_cbs st1)(b := None)"
    using found st1(1) by auto
  have ev: "php_zk_watcher_marshal H call ty state path (Some b) st1 = Ret (True, st2)"
    using b_rec event st2(1) by (simp add: php_zk_watcher_marshal_def run_callback_def)
  have "keeps_place V ?n a (?a h0) st2" using keeps_place_del [OF laws st2(1) a1] by simp
  moreover have "length (entries V (z_table st2)) = ?n"
    using length_filter_key [OF kb(2), of k] other(1) st2(2) n(1) by force
  ultimately obtain st3 where st3: "cb_data_count H a st2 = Ret st3" "keeps_place V ?n a (?a (?n - 1)) st3"
    "z_cbs st3 a = Some (?a (?n - 1))"
    using count_place [OF laws, of ?n a "?a h0" st2] st2(3) st1(2) ab n small by auto
  have "z_cbs st5 a \<noteq> None" if "zk_run H api st3 st4"
    "call' f [ZLong ty', ZLong state', ZString path'] st4 = (CallReturned, st4)"
    "php_zk_watcher_marshal H call' ty' state' path' (Some a) st4 = Ret (r, st5)" for api st4 call' ty' state' path' r st5
  proof (rule event_misses [OF laws])
    show "keeps_place V ?n a (?a (?n - 1)) st4"
      using steps_keep_place [OF laws zk_run_steps [OF that(1)] st3(2)] by blast
  qed (use that n(3) in \<open>simp_all add: php_zk_watcher_marshal_def\<close>)
  moreover have "(?n, a) \<in> set (entries V (z_table st3))" using st3(2,3) by (simp add: keeps_place_def)
  ultimately show ?thesis using ev st2(3) st3(1,3) by blast
qed

text \<open>One watcher is registered when the second one registers.\<close>

definition sim_one :: "(unit, list_table) zk_state" where
  "sim_one = sim_conn\<lparr>z_cbs := [0 \<mapsto> \<lparr>cb_fci = 8, cb_oneshot = True, cb_h = 0\<rparr>], z_fresh := 1, z_table := ([(0, 0)], 1)\<rparr>"

theorem overlapped_registration_witness:
  "\<exists>st2 st3. php_zk_watcher_marshal list_hash (\<lambda>_ _ st. (CallReturned, st)) 3 3 ''/a'' (Some 0)
       (snd (cb_data_insert list_hash 9 True 77 sim_one)) = Ret (True, st2) \<and>
     cb_data_count list_hash 1 st2 = Ret st3 \<and>
     z_cbs st3 1 = Some \<lparr>cb_fci = 9, cb_oneshot = True, cb_h = 0\<rparr>"
proof -
  let ?ins = "cb_data_insert list_hash 9 True 77 sim_one"
  have ok: "table_ok list_view sim_one" "gaps list_view sim_one = 0" "length (entries list_view (z_table sim_one)) < 2 ^ 64"
    "(0, 0) \<in> set (entries list_view (z_table sim_one))"
    "z_cbs sim_one 0 = Some \<lparr>cb_fci = 8, cb_oneshot = True, cb_h = 0\<rparr>" "next_free list_view (z_table sim_one) = 1"
    by (auto simp: table_ok_def indices_ok_def gaps_def list_view_def sim_one_def split: if_splits)
  have "?ins = (1, snd ?ins)" by (simp add: cb_data_insert_def Let_def sim_one_def)
  from overlapped_registration [where call = "\<lambda>_ _ st. (CallReturned, st)" and ty = 3 and state = 3 and path = "''/a''",
      OF list_hash_laws ok(1-5) this refl] ok(6)
  show ?thesis by auto
qed

end
