(* ===== verification/Method_Properties.thy ===== *)
theory Method_Properties
  imports Method_Table Class_Properties
begin

text \<open>
  The properties of the method table: accepted arguments are typed and reach the method's body, values are
  written to by-reference parameters only, calls with wrong arguments are harmless, and the
  table agrees with the documented stub.
\<close>

section \<open>Formats and outputs\<close>

lemma accepts_iff: "accepts ((opt, c, nullable) # ps) outs \<longleftrightarrow>
    (opt \<and> outs = []) \<or> (\<exists>x xs. outs = x # xs \<and> out_fits c nullable x \<and> accepts ps xs)"
  by (cases outs) auto

lemma out_fits_iff:
  "out_fits (CHR ''s'') False x \<longleftrightarrow> (\<exists>s. x = OStr s)" "out_fits (CHR ''l'') False x \<longleftrightarrow> (\<exists>n. x = OLong n)"
  "out_fits (CHR ''b'') False x \<longleftrightarrow> (\<exists>b. x = OBool b)" "out_fits (CHR ''a'') False x \<longleftrightarrow> (\<exists>a. x = OArr a)"
  "out_fits (CHR ''f'') False x \<longleftrightarrow> (\<exists>f. x = OFn f)" "out_fits (CHR ''z'') False x \<longleftrightarrow> (\<exists>v. x = OZval v)"
  by (cases x; simp)+

lemmas fits_simps = accepts_iff out_fits_iff

text \<open>The parsed arguments are there: the method goes on past \<open>zend_parse_parameters\<close>.\<close>

primrec args_reach :: "zpp \<Rightarrow> zval list \<Rightarrow> zk_method \<Rightarrow> bool" where
  "args_reach zpp args M_construct = (construct_args zpp args \<noteq> None)"
| "args_reach zpp args M_connect = (connect_args zpp args \<noteq> None)"
| "args_reach zpp args M_create = (create_args zpp args \<noteq> None)"
| "args_reach zpp args M_delete = (delete_args zpp args \<noteq> None)"
| "args_reach zpp args M_get = (get_args zpp args \<noteq> None)"
| "args_reach zpp args M_getChildren = (getChildren_args zpp args \<noteq> None)"
| "args_reach zpp args M_exists = (exists_args zpp args \<noteq> None)"
| "args_reach zpp args M_set = (set_args zpp args \<noteq> None)"
| "args_reach zpp args M_getAcl = (getAcl_args zpp args \<noteq> None)"
| "args_reach zpp args M_setAcl = (setAcl_args zpp args \<noteq> None)"
| "args_reach zpp args M_getClientId = (no_args zpp args \<noteq> None)"
| "args_reach zpp args M_getState = (no_args zpp args \<noteq> None)"
| "args_reach zpp args M_getRecvTimeout = (no_args zpp args \<noteq> None)"
| "args_reach zpp args M_isRecoverable = (no_args zpp args \<noteq> None)"
| "args_reach zpp args M_setDebugLevel = (setDebugLevel_args zpp args \<noteq> None)"
| "args_reach zpp args M_setDeterministicConnOrder = (setDeterministicConnOrder_args zpp args \<noteq> None)"
| "args_reach zpp args M_addAuth = (addAuth_args zpp args \<noteq> None)"
| "args_reach zpp args M_setWatcher = (setWatcher_args zpp args \<noteq> None)"
| "args_reach zpp args M_setLogStream = (setLogStream_args zpp args \<noteq> None)"

lemmas args_defs = construct_args_def connect_args_def create_args_def delete_args_def get_args_def
  getChildren_args_def exists_args_def set_args_def no_args_def getAcl_args_def setAcl_args_def
  setDebugLevel_args_def setDeterministicConnOrder_args_def addAuth_args_def setWatcher_args_def setLogStream_args_def

lemma refused_args: "zpp (method_spec m) args = None \<Longrightarrow> \<not> args_reach zpp args m"
  by (cases m) (simp_all add: args_defs)

lemma accepted_args:
  assumes laws: "zpp_laws zpp" and "zpp (method_spec m) args = Some outs"
  shows "args_reach zpp args m"
proof -
  have "accepts (spec_params (method_spec m) False) outs" using assms by (simp add: zpp_laws_def)
  with assms(2) show ?thesis by (cases m) (auto simp: args_defs fits_simps)
qed

lemma run_unreached:
  assumes "\<not> args_reach (en_zpp E) args m"
  shows "run_method E m this args st = returns ZNull (if m = M_construct then st\<lparr>z_nulled := z_nulled st @ [this]\<rparr> else st)"
  using assms
  by (cases m) (simp_all add: zookeeper_construct_def zookeeper_connect_def zookeeper_setDebugLevel_def
    zookeeper_setDeterministicConnOrder_def zookeeper_setLogStream_def with_args_def create.parse_failure delete.parse_failure
    get.parse_failure getChildren.parse_failure exists.parse_failure set.parse_failure getAcl.parse_failure
    setAcl.parse_failure getClientId.parse_failure getState.parse_failure getRecvTimeout.parse_failure
    isRecoverable.parse_failure addAuth.parse_failure setWatcher.parse_failure del: not_None_eq)

text \<open>The methods that need a connection.\<close>

definition needs_connect :: "zk_method \<Rightarrow> bool" where
  "needs_connect m \<longleftrightarrow> m \<notin> {M_construct, M_connect, M_setDebugLevel, M_setDeterministicConnOrder, M_setLogStream}"

lemma run_not_connected:
  assumes "z_objs st this = Some i_obj" "o_zk i_obj = None" "needs_connect m" "args_reach (en_zpp E) args m"
  shows "run_method E m this args st = warns NotConnected ZNull st"
  using assms
  by (cases m) (auto simp: needs_connect_def create.not_connected delete.not_connected
    get.not_connected getChildren.not_connected exists.not_connected set.not_connected getAcl.not_connected
    setAcl.not_connected getClientId.not_connected getState.not_connected getRecvTimeout.not_connected
    isRecoverable.not_connected addAuth.not_connected setWatcher.not_connected)

section \<open>By-reference results\<close>

lemma failed_watch_no_stat: "failed_watch s v cb st = Ret (r, st') \<Longrightarrow> r_stat r = None"
  by (auto simp: failed_watch_def warns_def obind_eq_Ret)

lemmas class_defs = zookeeper_create_def zookeeper_delete_def zookeeper_getChildren_def zookeeper_exists_def
  zookeeper_getClientId_def zookeeper_getAcl_def zookeeper_setAcl_def zookeeper_getState_def
  zookeeper_getRecvTimeout_def zookeeper_isRecoverable_def zookeeper_setDebugLevel_def
  zookeeper_setDeterministicConnOrder_def zookeeper_addAuth_def zookeeper_setWatcher_def

lemma connect_no_stat: "php_zookeeper_connect_impl H api this host fci t st = Ret (r, st') \<Longrightarrow> r_stat r = None"
  by (auto simp: php_zookeeper_connect_impl_def reply_defs Let_def split: if_splits option.splits prod.splits)

lemma others_no_stat:
  assumes "run_method E m this args st = Ret (r, st')" "m \<noteq> M_get" "m \<noteq> M_set"
  shows "r_stat r = None"
proof (cases m)
  case M_construct
  with assms show ?thesis
    by (auto simp: zookeeper_construct_def returns_def dest: connect_no_stat split: option.splits if_splits)
next
  case M_connect
  with assms show ?thesis
    by (auto simp: zookeeper_connect_def with_args_def returns_def dest: connect_no_stat split: option.splits)
next
  case M_setLogStream
  with assms show ?thesis
    by (auto simp: zookeeper_setLogStream_def with_args_def returns_def Let_def split: option.splits prod.splits)
qed (use assms in \<open>auto simp: class_defs guard_defs reply_defs Let_def obind_eq_Ret split_beta
      dest: failed_watch_no_stat split: option.splits if_splits\<close>)

lemma get_data_stat: "get_data api zh path cb si len st = Ret (r, st') \<Longrightarrow> r_stat r \<noteq> None \<Longrightarrow> si"
  by (auto simp: get_data_def Let_def reply_defs dest: failed_watch_no_stat split: if_splits prod.splits)

lemma get_stat:
  assumes "zookeeper_get H api this (Some (path, fci, si, n)) st = Ret (r, st')" "r_stat r \<noteq> None"
  shows si
  using assms
  by (auto simp: zookeeper_get_def guard_defs Let_def returns_def warns_def dest: failed_watch_no_stat get_data_stat
    split: option.splits prod.splits if_splits)

lemma set_stat:
  assumes "zookeeper_set api this (Some (path, v, ver, si)) st = Ret (r, st')" "r_stat r \<noteq> None"
  shows si
  using assms by (auto simp: zookeeper_set_def guard_defs Let_def reply_defs split: option.splits prod.splits if_splits)

lemma stat_by_reference:
  assumes laws: "zpp_laws (en_zpp E)" and call: "run_method E m this args st = Ret (r, st')" and "r_stat r \<noteq> None"
  shows "\<exists>i. i < length args \<and> i < length (ai_params (method_arginfo m)) \<and>
    ai_params (method_arginfo m) ! i = (True, ''stat_info'') \<and> spec_params (method_spec m) False ! i = (True, CHR ''z'', False)"
proof -
  have m: "m = M_get \<or> m = M_set" using others_no_stat [OF call] assms(3) by blast
  have reach: "args_reach (en_zpp E) args m"
  proof (rule ccontr)
    assume "\<not> args_reach (en_zpp E) args m"
    from run_unreached [of E, OF this, of this st] call assms(3) show False by (auto simp: returns_def)
  qed
  then obtain outs where outs: "en_zpp E (method_spec m) args = Some outs"
    using refused_args [of "en_zpp E" m args] by blast
  have fit: "length outs = length args" "accepts (spec_params (method_spec m) False) outs"
    using laws outs by (simp_all add: zpp_laws_def)
  from m show ?thesis
  proof
    assume g: "m = M_get"
    with reach call outs obtain path rest fci n where *: "outs = OStr path # rest"
      "zookeeper_get (en_hash E) (en_zk E) this (Some (path, fci, zval_at 1 rest, n)) st = Ret (r, st')"
      by (auto simp: get_args_def split: option.splits list.splits zpp_out.splits)
    from get_stat [OF *(2) assms(3)] have "2 < length args" using fit(1) *(1) by (auto simp: zval_at_def)
    with g show ?thesis by (intro exI [of _ 2]) (simp add: eval_nat_numeral)
  next
    assume g: "m = M_set"
    with reach call outs obtain path v rest v' ver where *: "outs = OStr path # v # rest"
      "zookeeper_set (en_zk E) this (Some (path, v', ver, zval_at 1 rest)) st = Ret (r, st')"
      by (auto simp: set_args_def split: option.splits list.splits zpp_out.splits)
    from set_stat [OF *(2) assms(3)] have "3 < length args" using fit(1) *(1) by (auto simp: zval_at_def)
    with g show ?thesis by (intro exI [of _ 3]) (simp add: eval_nat_numeral)
  qed
qed

section \<open>A parser\<close>

text \<open>A strict parser, for the witnesses: every argument has the type of its letter.\<close>

fun strict_arg :: "char \<Rightarrow> bool \<Rightarrow> zval \<Rightarrow> zpp_out option" where
  "strict_arg c nullable v =
     (if nullable \<and> v = ZNull then Some ONull else if c = CHR ''z'' then Some (OZval v)
      else case v of ZString s \<Rightarrow> if c = CHR ''s'' then Some (OStr s) else None
      | ZLong n \<Rightarrow> if c = CHR ''l'' then Some (OLong n) else None
      | ZBool b \<Rightarrow> if c = CHR ''b'' then Some (OBool b) else None
      | ZArray a \<Rightarrow> if c = CHR ''a'' then Some (OArr a) else None
      | ZObject f \<Rightarrow> if c = CHR ''f'' then Some (OFn f) else None | _ \<Rightarrow> None)"

fun strict_args :: "(bool \<times> char \<times> bool) list \<Rightarrow> zval list \<Rightarrow> zpp_out list option" where
  "strict_args [] [] = Some []"
| "strict_args [] (v # vs) = None"
| "strict_args ((opt, c, nullable) # ps) [] = (if opt then Some [] else None)"
| "strict_args ((opt, c, nullable) # ps) (v # vs) = (case strict_arg c nullable v of
     None \<Rightarrow> None | Some x \<Rightarrow> map_option (Cons x) (strict_args ps vs))"

definition strict_zpp :: zpp where
  "strict_zpp spec args = strict_args (spec_params spec False) args"

lemma strict_arg_fits: "strict_arg c nullable v = Some x \<Longrightarrow> out_fits c nullable x"
  by (auto split: if_splits zval.splits)

lemma strict_args_ok: "strict_args ps vs = Some outs \<Longrightarrow> length outs = length vs \<and> accepts ps outs"
  by (induction ps vs arbitrary: outs rule: strict_args.induct)
    (auto dest: strict_arg_fits split: if_splits option.splits simp del: strict_arg.simps)

lemma strict_zpp_laws: "zpp_laws strict_zpp"
  using strict_args_ok by (simp add: zpp_laws_def strict_zpp_def)

definition quiet_log :: "'w log_api" where
  "quiet_log = \<lparr>stream_from_resource = (\<lambda>r w. (Some r, w)), stream_open_wrapper = (\<lambda>p w. (None, w)),
     stream_cast_stdio = (\<lambda>s w. (Some s, w)), zoo_set_log_stream = (\<lambda>f w. w), stream_free_casted = (\<lambda>s w. w)\<rparr>"

definition sim_engine :: "(unit, list_table) engine" where
  "sim_engine = \<lparr>en_hash = list_hash, en_zk = idle_api, en_conv = plain_conv, en_log = quiet_log,
     en_zpp = strict_zpp, en_recv_timeout = 10000\<rparr>"

section \<open>The table and the parser\<close>

text \<open>
  C39: the arguments of a method are typed. For every method, an argument list reaches the method's body
  exactly if the engine's parser accepts it under the method's format: the parsed values always
  have the types that the method's variables need. And a method that writes a stat back writes it to an argument
  that was passed, which the method table declares as the by-reference parameter \<open>stat_info\<close> and the format
  takes as a \<open>zval\<close>. (The conversions that \<open>create\<close> and \<open>setAcl\<close> make inside their ACL array, which is not
  by-reference, are in \<open>Acl_Memory\<close> and not meant here.)
\<close>

theorem arguments_are_typed:
  assumes "zpp_laws (en_zpp E)"
  shows "(args_reach (en_zpp E) args m \<longleftrightarrow> en_zpp E (method_spec m) args \<noteq> None) \<and>
    (\<forall>r st'. run_method E m this args st = Ret (r, st') \<longrightarrow> r_stat r \<noteq> None \<longrightarrow>
      (\<exists>i. i < length args \<and> i < length (ai_params (method_arginfo m)) \<and>
        ai_params (method_arginfo m) ! i = (True, ''stat_info'') \<and>
        spec_params (method_spec m) False ! i = (True, CHR ''z'', False)))"
  using accepted_args [OF assms, of m args] refused_args [of "en_zpp E" m args] stat_by_reference [OF assms, of m this args st]
  by blast

theorem arguments_are_typed_witness:
  "args_reach strict_zpp [ZString ''/a'', ZNull, ZNull] M_get \<and> \<not> args_reach strict_zpp [ZLong 3] M_get"
proof -
  have E: "en_zpp sim_engine = strict_zpp" by (simp add: sim_engine_def)
  have "strict_zpp (method_spec M_get) [ZString ''/a'', ZNull, ZNull] \<noteq> None"
    "strict_zpp (method_spec M_get) [ZLong 3] = None" by (simp_all add: strict_zpp_def)
  then show ?thesis
    using arguments_are_typed [of sim_engine "[ZString ''/a'', ZNull, ZNull]" M_get]
      arguments_are_typed [of sim_engine "[ZLong 3]" M_get] strict_zpp_laws unfolding E by blast
qed

text \<open>
  A wrong call does nothing. Too few or too many arguments make a method return null with
  no other effect, except that a failed constructor also overwrites its object's variable with null; and before
  \<open>connect\<close> each of the fourteen methods that need the server returns null with the one warning
  and leaves the state as it is.
\<close>

theorem wrong_call_is_harmless:
  assumes laws: "zpp_laws (en_zpp E)"
  shows "(length args < fst (parsed_arity m) \<or> snd (parsed_arity m) < length args \<longrightarrow>
      run_method E m this args st =
        returns ZNull (if m = M_construct then st\<lparr>z_nulled := z_nulled st @ [this]\<rparr> else st)) \<and>
    (needs_connect m \<longrightarrow> en_zpp E (method_spec m) args \<noteq> None \<longrightarrow> z_objs st this = Some i_obj \<longrightarrow> o_zk i_obj = None \<longrightarrow>
      run_method E m this args st = warns NotConnected ZNull st)"
proof (intro conjI impI)
  assume "length args < fst (parsed_arity m) \<or> snd (parsed_arity m) < length args"
  then have "en_zpp E (method_spec m) args = None"
    using zpp_arity [OF laws, of "method_spec m" args] by (cases "en_zpp E (method_spec m) args") (auto simp: parsed_arity_def)
  then have "\<not> args_reach (en_zpp E) args m" by (rule refused_args)
  then show "run_method E m this args st =
      returns ZNull (if m = M_construct then st\<lparr>z_nulled := z_nulled st @ [this]\<rparr> else st)" by (rule run_unreached)
next
  assume a: "needs_connect m" "en_zpp E (method_spec m) args \<noteq> None" "z_objs st this = Some i_obj" "o_zk i_obj = None"
  then have "args_reach (en_zpp E) args m" using accepted_args [OF laws] by blast
  with a(3,4,1) show "run_method E m this args st = warns NotConnected ZNull st" by (rule run_not_connected)
qed

theorem wrong_call_is_harmless_witness:
  "run_method sim_engine M_delete 0 [] sim_conn = returns ZNull sim_conn"
proof -
  have "zpp_laws (en_zpp sim_engine)" using strict_zpp_laws by (simp add: sim_engine_def)
  from wrong_call_is_harmless [OF this, of "[]" M_delete 0 sim_conn]
  show ?thesis by (simp add: parsed_arity_def spec_min_def)
qed

text \<open>
  C40: the method table and the parsers implement the documented stub: each entry's name, required and total number of
  arguments, by-reference parameters and static flag are those of one stub method, no name occurs twice, only
  \<open>getResultMessage\<close> is documented and missing, and a static method does not depend on an object. The arity that the table
  declares to reflection is the parsed one except for five methods.
\<close>

theorem methods_match_stub:
  "set (map entry_signature zookeeper_class_methods) = set api_methods - {(''getResultMessage'', 0, 0, [], False)} \<and>
   distinct (map me_name zookeeper_class_methods) \<and>
   (\<forall>m. declared_arity (method_arginfo m) = parsed_arity m \<longleftrightarrow>
      m \<notin> {M_construct, M_create, M_get, M_set, M_getAcl}) \<and>
   (\<forall>e\<in>set zookeeper_class_methods. me_static e \<longrightarrow>
      run_method E (me_handler e) this args st = run_method E (me_handler e) other args st)"
proof (intro conjI allI)
  have eq: "map entry_signature zookeeper_class_methods =
    [(''__construct'', 0, 3, [], False), (''connect'', 1, 3, [], False), (''create'', 3, 4, [], False),
     (''delete'', 1, 2, [], False), (''get'', 1, 4, [2], False), (''getChildren'', 1, 2, [], False),
     (''exists'', 1, 2, [], False), (''set'', 2, 4, [3], False), (''getAcl'', 1, 1, [], False),
     (''setAcl'', 3, 3, [], False), (''getClientId'', 0, 0, [], False), (''getState'', 0, 0, [], False),
     (''getRecvTimeout'', 0, 0, [], False), (''isRecoverable'', 0, 0, [], False),
     (''setDebugLevel'', 1, 1, [], True), (''setDeterministicConnOrder'', 1, 1, [], True),
     (''addAuth'', 2, 3, [], False), (''setWatcher'', 1, 1, [], False), (''setLogStream'', 1, 1, [], False)]"
    by code_simp
  show "set (map entry_signature zookeeper_class_methods) = set api_methods - {(''getResultMessage'', 0, 0, [], False)}"
    unfolding eq api_methods_def by (rule set_eqI) auto
  show "distinct (map me_name zookeeper_class_methods)" by code_simp
  show "declared_arity (method_arginfo m) = parsed_arity m \<longleftrightarrow>
      m \<notin> {M_construct, M_create, M_get, M_set, M_getAcl}" for m
    by (cases m) (simp_all add: declared_arity_def parsed_arity_def spec_min_def spec_max_def)
  show "\<forall>e\<in>set zookeeper_class_methods. me_static e \<longrightarrow>
      run_method E (me_handler e) this args st = run_method E (me_handler e) other args st"
    by (simp add: zookeeper_class_methods_def ZK_ME_def ZK_ME_STATIC_def)
qed

theorem methods_match_stub_witness:
  "run_method sim_engine M_setDebugLevel 0 [ZLong 4] sim_conn = run_method sim_engine M_setDebugLevel 7 [ZLong 4] sim_conn"
proof -
  have "ZK_ME_STATIC ''setDebugLevel'' M_setDebugLevel \<in> set zookeeper_class_methods"
    by (simp add: zookeeper_class_methods_def)
  moreover have "\<forall>e\<in>set zookeeper_class_methods. me_static e \<longrightarrow>
      run_method sim_engine (me_handler e) 0 [ZLong 4] sim_conn = run_method sim_engine (me_handler e) 7 [ZLong 4] sim_conn"
    by (rule methods_match_stub [THEN conjunct2, THEN conjunct2, THEN conjunct2])
  ultimately have "me_static (ZK_ME_STATIC ''setDebugLevel'' M_setDebugLevel) \<longrightarrow>
      run_method sim_engine (me_handler (ZK_ME_STATIC ''setDebugLevel'' M_setDebugLevel)) 0 [ZLong 4] sim_conn =
      run_method sim_engine (me_handler (ZK_ME_STATIC ''setDebugLevel'' M_setDebugLevel)) 7 [ZLong 4] sim_conn" by (rule bspec [rotated])
  then show ?thesis by (simp add: ZK_ME_STATIC_def)
qed

end
