(* ===== verification/Acl_Memory.thy ===== *)
theory Acl_Memory
  imports Acl_Stat
begin

text \<open>
  \<open>php_parse_acl_list\<close> and \<open>php_aclv_destroy\<close> of \<open>php_zookeeper.c\<close> in C memory: the
  vector is a count with a pointer to cells, the cells are written by index, \<open>calloc\<close>,
  \<open>strdup\<close> and \<open>free\<close> keep a ledger of live blocks, and the conversions of the values happen inside the
  caller's array. The list functions of \<open>Acl_Stat\<close> are what this code computes.
\<close>

section \<open>The vector\<close>

datatype acl_data = AUninit | ANull | ACells "ACL list" | AFreed

text \<open>The count of an uninitialised struct is \<open>None\<close>.\<close>

record ACL_struct =
  as_count :: "int option"
  as_data :: acl_data

definition zero_aclv :: ACL_struct where
  "zero_aclv = \<lparr>as_count = Some 0, as_data = ANull\<rparr>"

definition uninit_aclv :: ACL_struct where
  "uninit_aclv = \<lparr>as_count = None, as_data = AUninit\<rparr>"

text \<open>What a reader of the struct sees: the cells up to the count.\<close>

definition aclv_view :: "ACL_struct \<Rightarrow> ACL_vector" where
  "aclv_view v = (case (as_count v, as_data v) of
     (Some n, ACells cells) \<Rightarrow> if n \<le> int (length cells) then Some (take (nat n) cells) else None
   | (Some n, ANull) \<Rightarrow> if n \<le> 0 then Some [] else None
   | _ \<Rightarrow> None)"

definition put_cell :: "acl_data \<Rightarrow> nat \<Rightarrow> ACL \<Rightarrow> acl_data outcome" where
  "put_cell d i c = (case d of
     ACells cells \<Rightarrow> if i < length cells then Ret (ACells (cells[i := c])) else Fault OutOfBounds
   | ANull \<Rightarrow> Fault NullDeref | AUninit \<Rightarrow> Fault UninitRead | AFreed \<Rightarrow> Fault UseAfterFree)"

section \<open>Parsing\<close>

text \<open>\<open>convert_to_long_ex\<close> and \<open>convert_to_string_ex\<close> leave a value of the wanted type alone.\<close>

definition as_long :: "zend_conv \<Rightarrow> zval \<Rightarrow> int" where
  "as_long C v = (case v of ZLong n \<Rightarrow> n | _ \<Rightarrow> to_long C v)"

definition as_str :: "zend_conv \<Rightarrow> zval \<Rightarrow> string" where
  "as_str C v = (case v of ZString s \<Rightarrow> s | _ \<Rightarrow> to_str C v)"

text \<open>An entry with all three keys: the entry with its values converted, and the cell.\<close>

definition convert_acl_entry :: "zend_conv \<Rightarrow> zval \<Rightarrow> (zval \<times> ACL) option" where
  "convert_acl_entry C entry = (case entry of
     ZArray e \<Rightarrow> (case (array_find e ''perms'', array_find e ''scheme'', array_find e ''id'') of
       (Some perms, Some scheme, Some ident) \<Rightarrow>
         Some (ZArray (add_assoc (add_assoc (add_assoc e ''perms'' (ZLong (as_long C perms)))
                 ''scheme'' (ZString (as_str C scheme))) ''id'' (ZString (as_str C ident))),
               \<lparr>a_perms = to_int32 (as_long C perms), a_id = Str (c_str (as_str C ident)),
                a_scheme = Str (c_str (as_str C scheme))\<rparr>)
     | _ \<Rightarrow> None)
   | _ \<Rightarrow> None)"

fun parse_cells :: "zend_conv \<Rightarrow> zarray \<Rightarrow> acl_data \<Rightarrow> nat \<Rightarrow> int \<Rightarrow> (zarray \<times> acl_data \<times> nat \<times> int) outcome" where
  "parse_cells C [] d i live = Ret ([], d, i, live)"
| "parse_cells C ((k, entry) # rest) d i live = (case convert_acl_entry C entry of
     None \<Rightarrow> obind (parse_cells C rest d i live) (\<lambda>(rest', d', i', live'). Ret ((k, entry) # rest', d', i', live'))
   | Some (entry', cell) \<Rightarrow> obind (put_cell d i cell) (\<lambda>d1.
       obind (parse_cells C rest d1 (Suc i) (live + blocks_of (a_id cell) + blocks_of (a_scheme cell)))
         (\<lambda>(rest', d', i', live'). Ret ((k, entry') # rest', d', i', live'))))"

definition calloc_cells :: "nat \<Rightarrow> acl_data" where
  "calloc_cells n = ACells (replicate n \<lparr>a_perms = 0, a_id = Null, a_scheme = Null\<rparr>)"

definition parse_acl_list_mem ::
  "zend_conv \<Rightarrow> zarray option \<Rightarrow> ACL_struct \<Rightarrow> int \<Rightarrow> (zarray option \<times> ACL_struct \<times> int) outcome" where
  "parse_acl_list_mem C z_acl aclv live = (case z_acl of
     None \<Rightarrow> Ret (None, aclv, live)
   | Some arr \<Rightarrow> if length arr = 0 then Ret (Some arr, aclv, live)
       else obind (parse_cells C arr (calloc_cells (length arr)) 0 (live + 1)) (\<lambda>(arr', d, i, live').
         Ret (Some arr', aclv\<lparr>as_count := Some (int i), as_data := d\<rparr>, live')))"

section \<open>Destroying\<close>

fun free_cell_strings :: "ACL list \<Rightarrow> int \<Rightarrow> (ACL list \<times> int) outcome" where
  "free_cell_strings [] live = Ret ([], live)"
| "free_cell_strings (c # cs) live = obind (free_ptr (a_id c)) (\<lambda>i. obind (free_ptr (a_scheme c)) (\<lambda>s.
     obind (free_cell_strings cs (live - blocks_of (a_id c) - blocks_of (a_scheme c))) (\<lambda>(cs', live').
       Ret (c\<lparr>a_id := i, a_scheme := s\<rparr> # cs', live'))))"

definition free_data :: "acl_data \<Rightarrow> int \<Rightarrow> (acl_data \<times> int) outcome" where
  "free_data d live = (case d of AUninit \<Rightarrow> Fault UninitRead | ANull \<Rightarrow> Ret (ANull, live)
     | ACells cells \<Rightarrow> Ret (AFreed, live - 1) | AFreed \<Rightarrow> Fault DoubleFree)"

definition aclv_destroy_mem :: "ACL_struct \<Rightarrow> int \<Rightarrow> (ACL_struct \<times> int) outcome" where
  "aclv_destroy_mem v live = (case as_count v of
     None \<Rightarrow> Fault UninitRead
   | Some n \<Rightarrow> obind
       (if n \<le> 0 then Ret live
        else (case as_data v of
            AUninit \<Rightarrow> Fault UninitRead | ANull \<Rightarrow> Fault NullDeref | AFreed \<Rightarrow> Fault UseAfterFree
          | ACells cells \<Rightarrow> if int (length cells) < n then Fault OutOfBounds
              else obind (free_cell_strings (take (nat n) cells) live) (\<lambda>(cs, live'). Ret live')))
       (\<lambda>live'. obind (free_data (as_data v) live') (\<lambda>(d, live''). Ret (v\<lparr>as_data := d\<rparr>, live''))))"

section \<open>What the loop leaves\<close>

lemma as_conv: "conv_laws C \<Longrightarrow> as_long C v = to_long C v" "conv_laws C \<Longrightarrow> as_str C v = to_str C v"
  by (simp_all add: as_long_def as_str_def conv_laws_def split: zval.split)

lemma convert_entry_cell:
  "conv_laws C \<Longrightarrow> map_option snd (convert_acl_entry C entry) = parse_acl_entry C entry"
  by (simp add: convert_acl_entry_def parse_acl_entry_def as_conv split: zval.split option.split)

lemma map_of_add_assoc: "map_of (add_assoc a k v) = (map_of a)(KStr k \<mapsto> v)"
proof (cases "KStr k \<in> fst ` set a")
  case True
  have "map_of (map (\<lambda>(k', x). (k', if k' = KStr k then v else x)) a) y =
      map_option (\<lambda>x. if y = KStr k then v else x) (map_of a y)" for a :: zarray and y
    by (induction a) auto
  moreover have "map_of a (KStr k) \<noteq> None" using True by (simp add: map_of_eq_None_iff)
  ultimately show ?thesis using True
    by (intro ext) (auto simp: add_assoc_def option.map_ident)
next
  case False
  then have "map_of a (KStr k) = None" by (simp add: map_of_eq_None_iff)
  with False show ?thesis by (auto simp: add_assoc_def map_add_def fun_eq_iff split: option.split)
qed

lemma array_find_add_assoc: "array_find (add_assoc a k v) j = (if j = k then Some v else array_find a j)"
  by (simp add: array_find_def map_of_add_assoc)

lemma add_assoc_keys: "array_find a k = Some v \<Longrightarrow> map fst (add_assoc a k w) = map fst a"
  by (force simp: array_find_def add_assoc_def dest: map_of_SomeD)

text \<open>A converted entry is parsed to the same cell.\<close>

lemma converted_entry:
  assumes "conv_laws C" "convert_acl_entry C entry = Some (entry', cell)"
  shows "parse_acl_entry C entry' = Some cell"
  using assms by (auto simp: convert_acl_entry_def parse_acl_entry_def array_find_add_assoc as_conv
      conv_laws_def split: zval.splits option.splits)

lemma entry_cell_blocks: "convert_acl_entry C entry = Some (entry', cell) \<Longrightarrow> blocks_of (a_id cell) + blocks_of (a_scheme cell) = 2"
  by (auto simp: convert_acl_entry_def split: zval.splits option.splits)

text \<open>The caller's array after the conversions.\<close>

definition converted_array :: "zend_conv \<Rightarrow> zarray \<Rightarrow> zarray" where
  "converted_array C arr = map (\<lambda>(k, e). (k, case convert_acl_entry C e of None \<Rightarrow> e | Some (e', cell) \<Rightarrow> e')) arr"

lemma converted_array_parse:
  assumes "conv_laws C"
  shows "parse_acl_loop C (converted_array C arr) data = parse_acl_loop C arr data"
proof -
  have "parse_acl_entry C (case convert_acl_entry C e of None \<Rightarrow> e | Some (e', cell) \<Rightarrow> e') = parse_acl_entry C e" for e
    using converted_entry [OF assms, of e] convert_entry_cell [OF assms, of e]
    by (auto split: option.split)
  then have e: "map (parse_acl_entry C) (map snd (converted_array C arr)) = map (parse_acl_entry C) (map snd arr)"
    by (auto simp: converted_array_def split_beta)
  have "List.map_filter f xs = map the (filter (\<lambda>y. y \<noteq> None) (map f xs))" for f :: "zval \<Rightarrow> ACL option" and xs
    by (induction xs) (auto simp: List.map_filter_simps split: option.split)
  then show ?thesis unfolding parse_loop_snd by (simp only: e)
qed

text \<open>
  The loop writes the cells of \<open>parse_acl_loop\<close> from its index on, inside the array as long as there is
  a cell per entry left, and takes two blocks per cell.
\<close>

lemma parse_cells_eq:
  assumes C: "conv_laws C" and room: "i + length arr \<le> length cells"
  shows "parse_cells C arr (ACells cells) i live =
      Ret (converted_array C arr,
        ACells (take i cells @ parse_acl_loop C arr [] @ drop (i + length (parse_acl_loop C arr [])) cells),
        i + length (parse_acl_loop C arr []), live + 2 * int (length (parse_acl_loop C arr [])))"
  using room
proof (induction arr arbitrary: cells i live)
  case Nil
  then show ?case by (simp add: converted_array_def)
next
  case (Cons x rest)
  obtain k entry where x: "x = (k, entry)" by (cases x)
  show ?case
  proof (cases "convert_acl_entry C entry")
    case None
    with C have p: "parse_acl_entry C entry = None" using convert_entry_cell [of C entry] by simp
    from Cons.IH [of i cells live] Cons.prems x None p show ?thesis by (simp add: converted_array_def)
  next
    case (Some ec)
    obtain entry' cell where ec: "ec = (entry', cell)" by (cases ec)
    with C Some have p: "parse_acl_entry C entry = Some cell" using convert_entry_cell [of C entry] by simp
    have two: "live + blocks_of (a_id cell) + blocks_of (a_scheme cell) = live + 2"
      using entry_cell_blocks [of C entry entry' cell] Some ec by simp
    have i: "i < length cells" "Suc i + length rest \<le> length (cells[i := cell])" using Cons.prems by simp_all
    have loop: "parse_acl_loop C ((k, entry) # xs) [] = cell # parse_acl_loop C xs []" for xs
      using p by (simp add: parse_acl_loop_eq)
    have cells: "take (Suc i) (cells[i := cell]) = take i cells @ [cell]"
      "drop (Suc i + n) (cells[i := cell]) = drop (Suc i + n) cells" for n
      using i(1) by (simp_all add: take_Suc_conv_app_nth)
    show ?thesis unfolding x
      using Some ec i(1) Cons.IH [OF i(2), of "live + 2"]
      by (simp add: put_cell_def two loop cells converted_array_def del: parse_acl_loop.simps(2))
  qed
qed

lemma free_strings_eq:
  "\<forall>c\<in>set cs. \<exists>i s. a_id c = Str i \<and> a_scheme c = Str s \<Longrightarrow>
    free_cell_strings cs live = Ret (map (\<lambda>c. c\<lparr>a_id := Freed, a_scheme := Freed\<rparr>) cs, live - 2 * int (length cs))"
  by (induction cs arbitrary: live) auto

lemma parse_list_mem:
  assumes C: "conv_laws C" and arr: "arr \<noteq> []"
  shows "\<exists>v. parse_acl_list_mem C (Some arr) aclv live =
      Ret (Some (converted_array C arr), v, live + 1 + 2 * int (length (parse_acl_loop C arr []))) \<and>
    aclv_view v = Some (parse_acl_loop C arr []) \<and>
    aclv_destroy_mem v (live + 1 + 2 * int (length (parse_acl_loop C arr []))) = Ret (v\<lparr>as_data := AFreed\<rparr>, live)"
proof -
  let ?new = "parse_acl_loop C arr []" and ?zero = "replicate (length arr) \<lparr>a_perms = 0, a_id = Null, a_scheme = Null\<rparr>"
  have r: "parse_cells C arr (calloc_cells (length arr)) 0 (live + 1) =
      Ret (converted_array C arr, ACells (?new @ drop (length ?new) ?zero), length ?new, live + 1 + 2 * int (length ?new))"
    using parse_cells_eq [OF C, of 0 arr ?zero "live + 1"] by (simp add: calloc_cells_def)
  let ?v = "aclv\<lparr>as_count := Some (int (length ?new)), as_data := ACells (?new @ drop (length ?new) ?zero)\<rparr>"
  have "aclv_view ?v = Some ?new" by (simp add: aclv_view_def)
  moreover have "free_cell_strings ?new (live + 1 + 2 * int (length ?new)) =
      Ret (map (\<lambda>c. c\<lparr>a_id := Freed, a_scheme := Freed\<rparr>) ?new, live + 1)"
    using free_strings_eq [OF parse_acl_strings] by simp
  then have "aclv_destroy_mem ?v (live + 1 + 2 * int (length ?new)) = Ret (?v\<lparr>as_data := AFreed\<rparr>, live)"
    by (cases "?new = []") (simp_all add: aclv_destroy_mem_def free_data_def)
  ultimately show ?thesis using r arr by (intro exI [of _ ?v]) (simp add: parse_acl_list_mem_def)
qed

text \<open>
  How an entry of the caller's array is rewritten: where it is an array with the three keys, they hold the
  converted values afterwards and every other key what it held; any other entry stays what it is.
\<close>

definition rewritten_entry :: "zend_conv \<Rightarrow> zval \<Rightarrow> zval \<Rightarrow> bool" where
  "rewritten_entry C x y \<longleftrightarrow> (case x of
     ZArray e \<Rightarrow> (case (map_of e (KStr ''perms''), map_of e (KStr ''scheme''), map_of e (KStr ''id'')) of
       (Some perms, Some scheme, Some ident) \<Rightarrow> \<exists>e'. y = ZArray e' \<and> map fst e' = map fst e \<and>
         map_of e' = (map_of e)(KStr ''perms'' \<mapsto> ZLong (to_long C perms),
           KStr ''scheme'' \<mapsto> ZString (to_str C scheme), KStr ''id'' \<mapsto> ZString (to_str C ident))
     | _ \<Rightarrow> y = x)
   | _ \<Rightarrow> y = x)"

lemma rewritten_conversion:
  assumes "conv_laws C"
  shows "rewritten_entry C x (case convert_acl_entry C x of None \<Rightarrow> x | Some (y, cell) \<Rightarrow> y)"
proof (cases "convert_acl_entry C x")
  case None
  then show ?thesis
    by (auto simp: rewritten_entry_def convert_acl_entry_def array_find_def split: zval.splits option.splits)
next
  case (Some yc)
  then obtain e perms scheme ident where e: "x = ZArray e" "array_find e ''perms'' = Some perms"
    "array_find e ''scheme'' = Some scheme" "array_find e ''id'' = Some ident"
    "fst yc = ZArray (add_assoc (add_assoc (add_assoc e ''perms'' (ZLong (to_long C perms)))
       ''scheme'' (ZString (to_str C scheme))) ''id'' (ZString (to_str C ident)))"
    using as_conv [OF assms] by (auto simp: convert_acl_entry_def split: zval.splits option.splits)
  have "map fst (add_assoc (add_assoc (add_assoc e ''perms'' (ZLong (to_long C perms)))
       ''scheme'' (ZString (to_str C scheme))) ''id'' (ZString (to_str C ident))) = map fst e"
    using e(2-4) by (simp add: add_assoc_keys array_find_add_assoc)
  with Some e show ?thesis
    by (simp add: rewritten_entry_def array_find_def map_of_add_assoc split_beta)
qed

lemma rewritten_array:
  "conv_laws C \<Longrightarrow> list_all2 (\<lambda>(k, x) (k', y). k' = k \<and> rewritten_entry C x y) arr (converted_array C arr)"
  using rewritten_conversion [of C] by (simp add: converted_array_def list_all2_map2 list_all2_same split_beta)

text \<open>
  C36: in C memory \<open>php_parse_acl_list\<close> computes the list of \<open>parse_acl_loop\<close>: it never writes outside the cells
  that \<open>calloc\<close> gave it, takes one block for them and two for each entry that counts, and \<open>php_aclv_destroy\<close>
  gives back exactly these; a second call of it is a double free. The caller's array is rewritten in place: the three
  values of every entry that has them are replaced by the converted ones, and no other value and no key changes. A
  second parse of it gives the same list.
\<close>

theorem acl_vector_in_memory:
  assumes "conv_laws C" and "arr \<noteq> []"
  shows "\<exists>arr' v live'. parse_acl_list_mem C (Some arr) aclv live = Ret (Some arr', v, live') \<and>
    aclv_view v = php_parse_acl_list C (Some arr) (aclv_view aclv) \<and>
    live' = live + 1 + 2 * int (length (parse_acl_loop C arr [])) \<and> length (parse_acl_loop C arr []) \<le> length arr \<and>
    (\<exists>v'. aclv_destroy_mem v live' = Ret (v', live) \<and> (\<exists>e\<in>{UseAfterFree, DoubleFree}. aclv_destroy_mem v' live = Fault e)) \<and>
    list_all2 (\<lambda>(k, x) (k', y). k' = k \<and> rewritten_entry C x y) arr arr' \<and>
    php_parse_acl_list C (Some arr') = php_parse_acl_list C (Some arr)"
proof -
  from parse_list_mem [OF assms, of aclv live] obtain v where r:
    "parse_acl_list_mem C (Some arr) aclv live =
      Ret (Some (converted_array C arr), v, live + 1 + 2 * int (length (parse_acl_loop C arr [])))"
    "aclv_view v = Some (parse_acl_loop C arr [])"
    "aclv_destroy_mem v (live + 1 + 2 * int (length (parse_acl_loop C arr []))) = Ret (v\<lparr>as_data := AFreed\<rparr>, live)" by blast
  obtain n where n: "as_count v = Some n" using r(2) by (auto simp: aclv_view_def split: option.splits)
  have twice: "\<exists>e\<in>{UseAfterFree, DoubleFree}. aclv_destroy_mem (v\<lparr>as_data := AFreed\<rparr>) live = Fault e"
    using n by (simp add: aclv_destroy_mem_def free_data_def)
  have "converted_array C arr \<noteq> []" using assms(2) by (simp add: converted_array_def)
  then have "php_parse_acl_list C (Some (converted_array C arr)) = php_parse_acl_list C (Some arr)"
    "aclv_view v = php_parse_acl_list C (Some arr) (aclv_view aclv)"
    using r(2) assms by (simp_all add: php_parse_acl_list_def fun_eq_iff converted_array_parse)
  with r(1,3) twice parse_acl_loop_bound [of C arr] rewritten_array [OF assms(1), of arr] show ?thesis by blast
qed

definition acl_argument :: zarray where
  "acl_argument = [(KInt 0, ZLong 5), (KInt 1, ZArray [(KStr ''perms'', ZBool True), (KStr ''scheme'', ZString ''world''),
     (KStr ''id'', ZString ''anyone'')])]"

theorem acl_vector_in_memory_witness:
  "\<exists>arr' v x y. parse_acl_list_mem plain_conv (Some acl_argument) uninit_aclv 0 = Ret (Some arr', v, 3) \<and>
     (\<exists>v'. aclv_destroy_mem v 3 = Ret (v', 0)) \<and> arr' = [x, (KInt 1, ZArray y)] \<and> map_of y (KStr ''perms'') = Some (ZLong (to_long plain_conv (ZBool True)))"
proof -
  have arr: "acl_argument \<noteq> []" by (simp add: acl_argument_def)
  have "int (length (parse_acl_loop plain_conv acl_argument [])) = 1"
    by (simp add: acl_argument_def parse_acl_entry_def array_find_def)
  with acl_vector_in_memory [OF plain_conv_laws arr, of uninit_aclv 0] obtain arr' v where
    p: "parse_acl_list_mem plain_conv (Some acl_argument) uninit_aclv 0 = Ret (Some arr', v, 3)"
      "\<exists>v'. aclv_destroy_mem v 3 = Ret (v', 0)"
      "list_all2 (\<lambda>(k, x) (k', y). k' = k \<and> rewritten_entry plain_conv x y) acl_argument arr'" by fastforce
  from p(3) obtain x y where "arr' = [x, (KInt 1, ZArray y)]" "map_of y (KStr ''perms'') = Some (ZLong (to_long plain_conv (ZBool True)))"
    by (auto simp: acl_argument_def rewritten_entry_def list_all2_Cons1 split: zval.splits
        dest: fun_cong [where x = "KStr ''perms''"])
  with p(1,2) show ?thesis by blast
qed

end
