(* ===== verification/Method_Memory.thy ===== *)
theory Method_Memory
  imports Class_Properties Acl_Memory
begin

text \<open>
  The memory of the methods of \<open>php_zookeeper.c\<close> that take an ACL: the same code as in \<open>Zookeeper_Class\<close> with a
  ledger of what the call has taken and not given back. The theorem says that the result is the same and
  what is left.
\<close>

text \<open>
  \<open>cm_c\<close> counts the blocks of the ACL vector, \<open>cm_php\<close> the engine's blocks; \<open>cm_acl\<close> is the caller's array
  after the call.
\<close>

record call_memory =
  cm_c :: int
  cm_php :: int
  cm_acl :: "zarray option"

type_synonym ('w, 'h) mem_reply = "(php_result \<times> ('w, 'h) zk_state \<times> call_memory) outcome"

definition leaving :: "call_memory \<Rightarrow> ('w, 'h) reply \<Rightarrow> ('w, 'h) mem_reply" where
  "leaving L r = obind r (\<lambda>(p, st). Ret (p, st, L))"

section \<open>The frame\<close>

definition with_args_mem ::
  "'a option \<Rightarrow> ('w, 'h) zk_state \<Rightarrow> call_memory \<Rightarrow> ('a \<Rightarrow> ('w, 'h) mem_reply) \<Rightarrow> ('w, 'h) mem_reply" where
  "with_args_mem args st L body = (case args of None \<Rightarrow> leaving L (returns ZNull st) | Some a \<Rightarrow> body a)"

definition fetch_object_mem ::
  "nat \<Rightarrow> ('w, 'h) zk_state \<Rightarrow> call_memory \<Rightarrow> (php_zk_t \<Rightarrow> zhandle \<Rightarrow> ('w, 'h) mem_reply) \<Rightarrow> ('w, 'h) mem_reply" where
  "fetch_object_mem this st L body = (case z_objs st this of
     None \<Rightarrow> Fault UseAfterFree
   | Some i_obj \<Rightarrow> (case o_zk i_obj of
       None \<Rightarrow> leaving L (warns NotConnected ZNull st) | Some zh \<Rightarrow> body i_obj zh))"

section \<open>Methods with an ACL argument\<close>

text \<open>\<open>realpath\<close> is released on failure and becomes the returned string on success.\<close>

definition zookeeper_create_mem ::
  "zend_conv \<Rightarrow> 'w zk_api \<Rightarrow> nat \<Rightarrow> (string \<times> string option \<times> zarray option \<times> int) option \<Rightarrow>
   ('w, 'h) zk_state \<Rightarrow> call_memory \<Rightarrow> ('w, 'h) mem_reply" where
  "zookeeper_create_mem C api this args st L = with_args_mem args st L (\<lambda>(path, val, acl_info, flags).
     fetch_object_mem this st L (\<lambda>i_obj zh.
       let realpath_max = length path + 1 + (if and flags ZOO_SEQUENCE \<noteq> 0 then 11 else 0);
           value_len = (case val of None \<Rightarrow> -1 | Some v \<Rightarrow> int (length v));
           L1 = L\<lparr>cm_php := cm_php L + 1\<rparr>
       in obind (parse_acl_list_mem C acl_info zero_aclv (cm_c L1)) (\<lambda>(acl_info', aclv, c).
          obind (case acl_info of None \<Rightarrow> Ret None | Some _ \<Rightarrow> obind (read_aclv (aclv_view aclv)) (\<lambda>es. Ret (Some es))) (\<lambda>acl.
            let ((status, realpath), w1) = zoo_create api zh (c_str path) val value_len acl
                  (to_int32 flags) realpath_max (z_world st);
                st1 = st\<lparr>z_world := w1\<rparr>;
                L2 = L1\<lparr>cm_c := c, cm_acl := acl_info', cm_php := cm_php L1 - 1\<rparr>
            in if status \<noteq> ZOK then leaving L2 (warns (ZError status) ZNull st1)
               else leaving L2 (returns (ZString realpath) st1)))))"

definition zookeeper_setAcl_mem ::
  "zend_conv \<Rightarrow> 'w zk_api \<Rightarrow> nat \<Rightarrow> (string \<times> int \<times> zarray) option \<Rightarrow>
   ('w, 'h) zk_state \<Rightarrow> call_memory \<Rightarrow> ('w, 'h) mem_reply" where
  "zookeeper_setAcl_mem C api this args st L = with_args_mem args st L (\<lambda>(path, version, acl_info).
     fetch_object_mem this st L (\<lambda>i_obj zh.
       obind (parse_acl_list_mem C (Some acl_info) uninit_aclv (cm_c L)) (\<lambda>(acl_info', aclv, c).
       obind (read_aclv (aclv_view aclv)) (\<lambda>es.
         let (status, w1) = zoo_set_acl api zh (c_str path) (to_int32 version) es (z_world st);
             st1 = st\<lparr>z_world := w1\<rparr>
         in obind (aclv_destroy_mem aclv c) (\<lambda>(_, c').
              let L1 = L\<lparr>cm_c := c', cm_acl := acl_info'\<rparr>
              in if status \<noteq> ZOK then leaving L1 (warns (ZError status) ZNull st1)
                 else leaving L1 (returns (ZBool True) st1))))))"

section \<open>What is left\<close>

lemma leaving_simps [simp]:
  "leaving L (Ret (p, st)) = Ret (p, st, L)" "leaving L (Fault e) = Fault e" "leaving L (Bailout s) = Bailout s"
  by (simp_all add: leaving_def)

lemma leaving_reply [simp]:
  "leaving L (returns v st) = Ret (\<lparr>r_value = v, r_stat = None, r_warnings = []\<rparr>, st, L)"
  "leaving L (returns_stat v s st) = Ret (\<lparr>r_value = v, r_stat = s, r_warnings = []\<rparr>, st, L)"
  "leaving L (warns e v st) = Ret (\<lparr>r_value = v, r_stat = None, r_warnings = [e]\<rparr>, st, L)"
  by (simp_all add: returns_def returns_stat_def warns_def)

text \<open>
  C37: \<open>create\<close> and \<open>setAcl\<close> with the same array. Both do what they do without the ledger and both rewrite
  the caller's array in place. \<open>setAcl\<close> gives back all it took; \<open>create\<close> leaves the vector and the two
  strings of each entry behind, whether it succeeds or not. \<open>setAcl\<close> with an empty array uses an uninitialised vector.
\<close>

theorem create_leaks_acl:
  assumes C: "conv_laws C" and obj: "z_objs st this = Some i_obj" "o_zk i_obj = Some zh" and acl: "acl \<noteq> []"
  shows "\<exists>p q st1 st2.
    zookeeper_create C api this (Some (path, val, Some acl, flags)) st = Ret (p, st1) \<and>
    zookeeper_create_mem C api this (Some (path, val, Some acl, flags)) st L = Ret (p, st1,
      L\<lparr>cm_c := cm_c L + 1 + 2 * int (length (parse_acl_loop C acl [])), cm_acl := Some (converted_array C acl)\<rparr>) \<and>
    zookeeper_setAcl C api this (Some (path, version, acl)) st = Ret (q, st2) \<and>
    zookeeper_setAcl_mem C api this (Some (path, version, acl)) st L =
      Ret (q, st2, L\<lparr>cm_acl := Some (converted_array C acl)\<rparr>) \<and>
    zookeeper_setAcl_mem C api this (Some (path, version, [])) st L = Fault UninitRead"
proof -
  let ?cells = "parse_acl_loop C acl []"
  from parse_list_mem [OF C acl, of zero_aclv "cm_c L"] obtain v1 where
    c: "parse_acl_list_mem C (Some acl) zero_aclv (cm_c L) =
        Ret (Some (converted_array C acl), v1, cm_c L + 1 + 2 * int (length ?cells))" "aclv_view v1 = Some ?cells" by blast
  from parse_list_mem [OF C acl, of uninit_aclv "cm_c L"] obtain v2 where
    s: "parse_acl_list_mem C (Some acl) uninit_aclv (cm_c L) =
        Ret (Some (converted_array C acl), v2, cm_c L + 1 + 2 * int (length ?cells))"
      "aclv_view v2 = Some ?cells"
      "aclv_destroy_mem v2 (cm_c L + 1 + 2 * int (length ?cells)) = Ret (v2\<lparr>as_data := AFreed\<rparr>, cm_c L)" by blast
  obtain es where es: "read_acl_cells ?cells = Ret es"
    using read_acl_cells_Ret [OF parse_acl_strings, of C acl] by blast
  note parsed = acl es free_acl_cells_Ret [OF parse_acl_strings, of C acl]
  note defs = guard_defs with_args_mem_def fetch_object_mem_def read_aclv_def php_parse_acl_list_def
    php_aclv_destroy_def returns_def warns_def split_beta Let_def
  have "zookeeper_setAcl_mem C api this (Some (path, version, [])) st L = Fault UninitRead"
    using obj by (simp add: zookeeper_setAcl_mem_def parse_acl_list_mem_def uninit_aclv_def aclv_view_def defs)
  moreover have "\<exists>p st1. zookeeper_create C api this (Some (path, val, Some acl, flags)) st = Ret (p, st1) \<and>
      zookeeper_create_mem C api this (Some (path, val, Some acl, flags)) st L = Ret (p, st1,
        L\<lparr>cm_c := cm_c L + 1 + 2 * int (length ?cells), cm_acl := Some (converted_array C acl)\<rparr>)"
    using obj parsed c by (simp add: zookeeper_create_def zookeeper_create_mem_def defs)
  moreover have "\<exists>q st2. zookeeper_setAcl C api this (Some (path, version, acl)) st = Ret (q, st2) \<and>
      zookeeper_setAcl_mem C api this (Some (path, version, acl)) st L =
        Ret (q, st2, L\<lparr>cm_acl := Some (converted_array C acl)\<rparr>)"
    using obj parsed s by (simp add: zookeeper_setAcl_def zookeeper_setAcl_mem_def defs)
  ultimately show ?thesis by blast
qed

theorem create_leaks_acl_witness:
  "\<exists>p st1. zookeeper_create_mem plain_conv idle_api 0 (Some (''/a'', None, Some acl_argument, 0)) sim_conn
      \<lparr>cm_c = 0, cm_php = 0, cm_acl = None\<rparr> =
     Ret (p, st1, \<lparr>cm_c = 3, cm_php = 0, cm_acl = Some (converted_array plain_conv acl_argument)\<rparr>)"
proof -
  let ?L = "\<lparr>cm_c = 0, cm_php = 0, cm_acl = None\<rparr>"
  have arr: "acl_argument \<noteq> []" by (simp add: acl_argument_def)
  have "int (length (parse_acl_loop plain_conv acl_argument [])) = 1"
    by (simp add: acl_argument_def parse_acl_entry_def array_find_def)
  with create_leaks_acl [OF plain_conv_laws _ _ arr, of sim_conn 0 "\<lparr>o_zk = Some 3, o_cb_data = None\<rparr>" 3 idle_api
      "''/a''" None 0 ?L 0] show ?thesis by fastforce
qed

end
