(* ===== verification/Spec2Isabelle.thy ===== *)
theory Spec2Isabelle
  imports Lifecycle Lock_Memory Lock_Overlap Session_Watch Session_Turns Session_Regenerate Class_Watches
    Method_Properties Method_Memory
begin

text \<open>
  A verification development for php-zookeeper, the PHP extension that binds libzookeeper.

  \<^bold>\<open>The program.\<close> The extension has three parts in C. \<open>php_zookeeper.c\<close> defines the class
  \<open>Zookeeper\<close>, whose methods wrap the synchronous calls of libzookeeper, the callback records
  through which the library calls PHP functions, the conversions between PHP arrays and C structs,
  and the module with its settings and constants. \<open>php_zookeeper_session.c\<close> is a PHP session save
  handler on top of the library: a node \<open>/php-sessid/<key>\<close> per session, over persistent
  connections. \<open>zoo_lock.c\<close> is the lock recipe (ephemeral sequential children of a directory) that
  the session handler takes while a request uses a session.

  \<^bold>\<open>How it is modelled.\<close> One definition per C function, method, handler or hook, named as in the
  source, composed as the source composes them; loops and halves of long functions have helper
  definitions of their own. Code that is not in the repository is an argument: libzookeeper is the
  record \<open>zk_api\<close> over an arbitrary state \<open>'w\<close> of the library and the server, the engine's hash
  table, type conversions, function calls, argument parser and settings parsers are \<open>hash_api\<close>,
  \<open>zend_conv\<close>, \<open>call_function\<close>, \<open>zpp\<close>, the fields of \<open>php_env\<close> and function arguments. What a
  property relies on of them is a named predicate of documented behaviour (\<open>zk_lock_laws\<close>, with
  \<open>quiet_lock_laws\<close> and \<open>prompt_store\<close> for a server that always answers,
  \<open>lock_calls_within\<close> for what the lock's calls leave alone, and \<open>watch_laws\<close> and \<open>overlap_laws\<close> for its watches, \<open>store_laws\<close>, \<open>hash_laws\<close>, \<open>conv_laws\<close>,
  \<open>zpp_laws\<close>, \<open>context_laws\<close>, \<open>create_gives_path\<close>, \<open>releases_request_memory\<close> for the engine's end of a request), and each such property has a witness on a concrete instance. A C call ends as an
  \<open>outcome\<close>: it returns, runs into undefined behaviour (\<open>Fault\<close>, by kind) or is left by
  the engine's \<open>E_ERROR\<close> bailout; a call that may not come back is a \<open>run\<close>, where
  \<open>None\<close> is a call that goes on for ever. No fuel is used: bounded loops recurse on their
  counter, the unbounded ones are partial functions with exact criteria for returning.

  \<^bold>\<open>Theories.\<close>
  \<^item> \<open>Prelude\<close>: outcomes, their binds, calls that never fault.
  \<^item> \<open>C_Library\<close>: C strings and pointers to them, \<open>strcmp\<close>, \<open>strrchr\<close>, \<open>snprintf\<close> and the
    formats in use, \<open>qsort\<close> under the contract of a comparison function (locale
    \<open>c_comparator\<close>), integer conversions.
  \<^item> \<open>Zk_Client\<close>: the interface of libzookeeper and the two retry loops with their laws.
  \<^item> \<open>Zoo_Lock\<close>: \<open>zoo_lock.c\<close>; names of children and their order, the soundness
    invariant of the mutex struct, a rule for the operation's loop, termination and the only faults that can end a call.
    \<open>Lock_Exclusion\<close>: the directory of children as a view of the server, steps of other
    clients, and the invariants behind mutual exclusion by rule induction over \<open>client_view\<close>: one
    locale, \<open>lock_invariant\<close>, carries any fact about a client's struct through lock and unlock; it is interpreted
    for "who owns has the least child" (\<open>owner\<close>) and "while that child exists nobody else owns" (\<open>head\<close>).
    \<open>Lock_Properties\<close>: mutual exclusion, order, termination, unlock and destroy, and the faults
    of waiting (no watch, self-deadlock). \<open>Lock_Progress\<close>: with a server that answers, one call of lock is
    exact, and the queue of waiters is served in order. \<open>Lock_Memory\<close>: the operation with the memory of its
    listings in a ledger, equal to \<open>zkr_lock_operation\<close> in its effects. \<open>Lock_Watches\<close>: any number of clients
    over one server with watches and events (relation \<open>net_run\<close>), the invariant that every client in the queue
    is the owner, watches its predecessor or has an event, and what the watch of a client that has left does.
    \<open>Lock_Overlap\<close>: the same for one client whose calls are interleaved with any actions of the others (\<open>watch_step\<close>).
    \<open>Lock_Frame\<close>: a relation that every library call of the lock stays within holds across lock and unlock.
  \<^item> \<open>Session\<close>: \<open>php_zookeeper_session.c\<close> with the contract it needs of the lock
    (locales \<open>lock_service\<close> and \<open>disposable_lock\<close>, interpreted on \<open>zoo_lock.c\<close>).
    \<open>Session_Store\<close>: the abstract session table, the laws of a store under lost replies, and the
    refinement of read, write and gc; when a value is expired is stated there from the settings alone
    (\<open>expired\<close>, \<open>expiry_fits\<close>). \<open>Session_State\<close>: the handlers as a transition system and
    its invariant. \<open>Session_Properties\<close>: round trip, refinement, safety of all reachable states,
    the lock's time budget, and the faults of retrying and connecting. \<open>Session_Lock\<close>: session handlers and
    lock together, the exclusion of a second request, and the place in the queue that a refused request keeps. \<open>Session_Watch\<close>:
    the watch of a waiting lock, carried through the attempts and the close, whose event finds the struct after its
    request or its close. \<open>Session_Turns\<close>:
    whole requests in turn, lock and store together: each reads what the one before it wrote. \<open>Session_Regenerate\<close>:
    a session that gets a new id, whose data stay with the old one.
  \<^item> \<open>Zend\<close>: PHP values, conversions, the hash table's interface. \<open>Acl_Stat\<close>: ACL lists and
    stats (locale \<open>array_codec\<close>). \<open>Acl_Memory\<close>: parsing and destroying an ACL vector in C memory, cells written by index,
    with a ledger of blocks. \<open>Callbacks\<close>: callback records, the table, the marshalling
    functions, objects, request shutdown. \<open>Zookeeper_Class\<close>: the methods. \<open>Request\<close>: the
    contract the methods share (locale \<open>guarded_method\<close>) and the states a request can reach
    (\<open>zk_run\<close>), with the table invariant. \<open>Class_Properties\<close>: release of every record
    exactly once, the cases in which that fails, the conversions and the results of methods. \<open>Class_Watches\<close>: every
    part of a request as steps on the callback records (\<open>callback_steps\<close>), which keep each record's index, so that
    an event releases its own record exactly if nothing was deleted before the record was made; and a registration that an
    event interrupts. \<open>Method_Memory\<close>: \<open>create\<close> and \<open>setAcl\<close> with what a call leaves behind.
  \<^item> \<open>Method_Table\<close>: the format that each method parses its arguments with, the argument tables,
    the method table, and the stub \<open>zookeeper-api.php\<close>. \<open>Method_Properties\<close>: typed arguments, wrong
    calls, agreement of table, parser and stub.
  \<^item> \<open>Module\<close>, \<open>Module_Properties\<close>: globals, settings, constants, the class entry, the save
    handler's table, the module entry and its hooks. \<open>Lifecycle\<close>: a process over any number of requests
    (locale \<open>module_hooks\<close>, relation \<open>process\<close>), and objects that connect twice.
  \<^item> \<open>Sim_Zk\<close> and the instances in the property theories are concrete libraries for witnesses.

  \<^bold>\<open>State.\<close> A mutex struct is the record \<open>zkr_lock_mutex\<close>, its pthread mutex a field of it. The
  session handlers work on \<open>php_state\<close>: sessions in a heap, the persistent list and the module
  data by address. The class works on \<open>zk_state\<close>: callback records in a heap, the table
  \<open>ZK_G(callbacks)\<close>, the objects. Strings are lists of characters, \<open>char *\<close> fields that
  are freed are \<open>cptr\<close> values, \<open>long\<close> to \<open>int\<close> conversions wrap, the signed 64-bit arithmetic of the session expiry and
  of the lock's attempts faults where it overflows, session ids are 64-bit words,
  64-bit fields of a stat become doubles with their rounding.

  \<^bold>\<open>Not modelled.\<close> Logging and pauses between attempts have no effect on the modelled state. Memory is
  modelled where the code releases it: callback records, strings of the lock's struct, sessions, ACL
  cells, listings of the lock operation, the ACL vectors of \<open>create\<close> and \<open>setAcl\<close>; the listings and vectors that the library
  allocates for \<open>gc\<close>, \<open>getChildren\<close> and \<open>getAcl\<close> are not, nor are the engine's reference counts, among them those of the functions that callback records name. The engine's argument
  parser, its display of settings in \<open>PHP_MINFO\<close> and its resource types are parameters or left out. Threads: library
  events are steps between steps of PHP code, which is where the single-threaded reading of the source puts them; the one
  place where they are put inside a step is the registration of a record (end of \<open>Class_Watches\<close>), and data races and
  the thread-safe build are left out. In \<open>net_run\<close> the calls of different clients do not overlap; \<open>client_view\<close> and
  \<open>watch_step\<close> are the models in which they do. What remains of the sources beside this is declarations, comments,
  logging and version switches.
\<close>

end
